(* ===== verification/Prelude.thy ===== *)
theory Prelude
  imports Main "HOL-Library.Word"
begin

text \<open>
  Shared vocabulary of the development: the C integer types as words, byte-addressed memory with
  the \<open>memcpy\<close> the sources use, the little-endian encoding of the eight-byte timestamps that
  every benchmark ships, the generic facts on lists and words that the component theories need,
  and the locales for transition systems (invariants, deadlock freedom, termination) that the
  two-process protocols interpret.
\<close>

unbundle bit_operations_syntax

section \<open>C integer types\<close>

type_synonym u8 = "8 word"
type_synonym u32 = "32 word"
type_synonym u64 = "64 word"

text \<open>A C \<open>int\<close> is a 32-bit word read with \<^const>\<open>sint\<close>.\<close>

type_synonym c_int = "32 word"

named_theorems mem_simps "rewriting of loads from stores"
named_theorems prog_simps "unfolding of the program combinators"

section \<open>Byte memory\<close>

type_synonym mem = "u64 \<Rightarrow> u8"

definition load :: "mem \<Rightarrow> u64 \<Rightarrow> nat \<Rightarrow> u8 list" where
  "load m p n = map (\<lambda>i. m (p + of_nat i)) [0..<n]"

definition store :: "mem \<Rightarrow> u64 \<Rightarrow> u8 list \<Rightarrow> mem" where
  "store m p bs = (\<lambda>a. if unat (a - p) < length bs then bs ! unat (a - p) else m a)"

definition memcpy :: "mem \<Rightarrow> u64 \<Rightarrow> u64 \<Rightarrow> nat \<Rightarrow> mem" where
  "memcpy m dst src n = store m dst (load m src n)"

text \<open>The addresses of the \<open>n\<close> bytes starting at \<open>p\<close>.\<close>

definition region :: "u64 \<Rightarrow> nat \<Rightarrow> u64 set" where
  "region p n = {a. unat (a - p) < n}"

lemma length_load [simp, mem_simps]: "length (load m p n) = n"
  by (simp add: load_def)

lemma nth_load [simp, mem_simps]: "i < n \<Longrightarrow> load m p n ! i = m (p + of_nat i)"
  by (simp add: load_def)

lemma load_0 [simp, mem_simps]: "load m p 0 = []"
  by (simp add: load_def)

lemma unat_of_nat_u64: "i < 2 ^ 64 \<Longrightarrow> unat (of_nat i :: u64) = i"
  by (simp add: unat_of_nat)

lemma unat_of_nat_u32: "i < 2 ^ 32 \<Longrightarrow> unat (of_nat i :: u32) = i"
  by (simp add: unat_of_nat)

lemma pow2_le_iff: "(2::nat) ^ a \<le> 2 ^ b \<longleftrightarrow> a \<le> b"
  by (rule power_increasing_iff) simp

lemma pow2_less_iff: "(2::nat) ^ a < 2 ^ b \<longleftrightarrow> a < b"
  by (rule power_strict_increasing_iff) simp

lemma unat_u32_less: "unat (w :: u32) < 2 ^ 32"
  using unsigned_less [of w, where ?'a = nat] by simp

lemma unat_ucast_u32_u64 [simp]: "unat (ucast (w :: u32) :: u64) = unat w"
proof -
  have "unat (of_nat (unat w) :: u64) = unat w"
    using unat_u32_less [of w] by (intro unat_of_nat_u64) simp
  then show ?thesis by simp
qed

lemma unat_ucast_u64_u32: "unat w < 2 ^ 32 \<Longrightarrow> unat (ucast (w :: u64) :: u32) = unat w"
  using unat_of_nat_u32 [of "unat w"] by simp

lemma store_nil [simp, mem_simps]: "store m p [] = m"
  by (simp add: store_def)

lemma store_outside [mem_simps]: "a \<notin> region p (length bs) \<Longrightarrow> store m p bs a = m a"
  by (simp add: store_def region_def)

lemma store_at:
  assumes "i < length bs" and "length bs \<le> 2 ^ 64"
  shows "store m p bs (p + of_nat i) = bs ! i"
  using assms by (simp add: store_def unat_of_nat_u64)

lemma in_region_iff:
  assumes "n \<le> 2 ^ 64"
  shows "a \<in> region p n \<longleftrightarrow> (\<exists>i<n. a = p + of_nat i)"
proof
  assume "a \<in> region p n"
  then have "unat (a - p) < n" and "a = p + of_nat (unat (a - p))"
    by (simp_all add: region_def)
  then show "\<exists>i<n. a = p + of_nat i" by blast
next
  assume "\<exists>i<n. a = p + of_nat i"
  with assms show "a \<in> region p n"
    by (auto simp: region_def unat_of_nat_u64)
qed

lemma region_mono: "n \<le> k \<Longrightarrow> region p n \<subseteq> region p k"
  by (auto simp: region_def)

lemma region_memI: "i < n \<Longrightarrow> n \<le> 2 ^ 64 \<Longrightarrow> p + of_nat i \<in> region p n"
  by (auto simp: in_region_iff)

lemma region_shift:
  assumes "k + j \<le> n" and "n \<le> 2 ^ 64"
  shows "region (p + of_nat k) j \<subseteq> region p n"
proof
  fix a assume "a \<in> region (p + of_nat k) j"
  then obtain i where "i < j" and "a = p + of_nat k + of_nat i"
    using assms by (subst (asm) in_region_iff) auto
  then have "a = p + of_nat (k + i)" and "k + i < n" using assms(1) by simp_all
  then show "a \<in> region p n" using region_memI [of "k + i" n p] assms(2) by simp
qed

lemma regions_apart:
  assumes "q = p + of_nat d" and "n \<le> d" and "d + k \<le> 2 ^ 64"
  shows "region p n \<inter> region q k = {}"
proof -
  have False if "a \<in> region p n" and "a \<in> region q k" for a
  proof -
    from that(1) obtain i where i: "i < n" "a = p + of_nat i"
      using assms by (auto simp: in_region_iff)
    from that(2) obtain j where j: "j < k" "a = p + of_nat (d + j)"
      using assms by (auto simp: in_region_iff algebra_simps)
    from i j have "(of_nat i :: u64) = of_nat (d + j)" by simp
    then have "unat (of_nat i :: u64) = unat (of_nat (d + j) :: u64)" by (rule arg_cong)
    moreover have "unat (of_nat i :: u64) = i" using i(1) assms by (intro unat_of_nat_u64) simp
    moreover have "unat (of_nat (d + j) :: u64) = d + j" using j(1) assms by (intro unat_of_nat_u64) simp
    ultimately show False using i j assms by simp
  qed
  then show ?thesis by blast
qed

lemma load_cong: "(\<And>i. i < n \<Longrightarrow> m (p + of_nat i) = m' (p + of_nat i)) \<Longrightarrow> load m p n = load m' p n"
  by (simp add: load_def)

lemma load_store_other [mem_simps]:
  assumes "region p n \<inter> region q (length bs) = {}" and "n \<le> 2 ^ 64"
  shows "load (store m q bs) p n = load m p n"
proof (rule load_cong)
  fix i assume "i < n"
  then have "p + of_nat i \<in> region p n" using assms(2) by (rule region_memI)
  with assms(1) have "p + of_nat i \<notin> region q (length bs)" by blast
  then show "store m q bs (p + of_nat i) = m (p + of_nat i)" by (rule store_outside)
qed

lemma load_store_same [mem_simps]:
  "length bs \<le> 2 ^ 64 \<Longrightarrow> load (store m p bs) p (length bs) = bs"
  by (rule nth_equalityI) (simp_all add: store_at)

lemma take_load: "take k (load m p n) = load m p (min k n)"
  by (rule nth_equalityI) auto

lemma drop_load: "drop k (load m p n) = load m (p + of_nat k) (n - k)"
  by (rule nth_equalityI) (auto simp: algebra_simps)

lemma load_store_offset:
  assumes "y < 2 ^ 32" and "q < 2 ^ 32" and "length bs \<le> 2 ^ 32"
  shows "store m (p + of_nat q) bs (p + of_nat y) =
         (if q \<le> y \<and> y < q + length bs then bs ! (y - q) else m (p + of_nat y))"
proof (cases "q \<le> y")
  case True
  then have "p + of_nat y - (p + of_nat q) = (of_nat (y - q) :: u64)" by simp
  moreover have "unat (of_nat (y - q) :: u64) = y - q"
    using assms(1) by (intro unat_of_nat_u64) simp
  ultimately show ?thesis using True unfolding store_def by (auto simp: less_diff_conv2)
next
  case False
  have "unat (of_nat y :: u64) = y" and "unat (of_nat q :: u64) = q"
    using assms by (simp_all add: unat_of_nat_u64)
  then have "unat (p + of_nat y - (p + of_nat q)) = y + 2 ^ 64 - q"
    using False by (simp add: unat_sub_if')
  moreover have "\<not> y + 2 ^ 64 - q < length bs" using assms by simp
  ultimately show ?thesis using False unfolding store_def by simp
qed

text \<open>
  Writing a block into a ring of \<open>b\<close> bytes from position \<open>q\<close>: up to the end of the ring first, the
  rest from its start.  The byte at ring distance \<open>x\<close> from \<open>q\<close> becomes byte \<open>x\<close> of the block.
\<close>

definition ring_store :: "mem \<Rightarrow> u64 \<Rightarrow> nat \<Rightarrow> nat \<Rightarrow> u8 list \<Rightarrow> mem" where
  "ring_store m p b q bs =
     (let l = min (length bs) (b - q)
      in store (store m (p + of_nat q) (take l bs)) p (drop l bs))"

lemma ring_store_at:
  assumes "b < 2 ^ 32" and "q < b" and "length bs \<le> b" and "x < b"
  shows "ring_store m p b q bs (p + of_nat ((q + x) mod b)) =
         (if x < length bs then bs ! x else m (p + of_nat ((q + x) mod b)))"
proof -
  define l where "l = min (length bs) (b - q)"
  define y where "y = (q + x) mod b"
  have y: "y < 2 ^ 32" using assms(1,2) mod_less_divisor [of b "q + x"] unfolding y_def by linarith
  have "ring_store m p b q bs (p + of_nat y) =
      (if y < length bs - l then drop l bs ! y
       else if q \<le> y \<and> y < q + l then take l bs ! (y - q) else m (p + of_nat y))"
    unfolding ring_store_def Let_def l_def [symmetric]
    using load_store_offset [of y 0 "drop l bs" _ p] load_store_offset [of y q "take l bs" m p] y assms
    by (auto simp: l_def)
  also have "\<dots> = (if x < length bs then bs ! x else m (p + of_nat y))"
  proof (cases "q + x < b")
    case True
    then have "y = q + x" by (simp add: y_def)
    with True assms show ?thesis by (auto simp: l_def min_def)
  next
    case False
    then have "y = q + x - b" using assms by (simp add: y_def mod_if)
    with False assms show ?thesis
      by (auto simp: l_def min_def intro!: arg_cong [where f = "\<lambda>i. bs ! i"])
  qed
  finally show ?thesis by (simp add: y_def)
qed

lemma ring_store_outside:
  assumes "b < 2 ^ 32" and "q < b" and "length bs \<le> b" and "a \<notin> region p b"
  shows "ring_store m p b q bs a = m a"
proof -
  define l where "l = min (length bs) (b - q)"
  have "a \<notin> region p (length (drop l bs))"
    using assms(3,4) by (auto simp: region_def)
  moreover have "region (p + of_nat q) (length (take l bs)) \<subseteq> region p b"
    using assms by (intro region_shift) (auto simp: l_def)
  then have "a \<notin> region (p + of_nat q) (length (take l bs))"
    using assms(4) by blast
  ultimately show ?thesis
    unfolding ring_store_def Let_def l_def [symmetric] by (simp only: store_outside not_False_eq_True)
qed

section \<open>Eight-byte timestamps\<close>

text \<open>
  The object representation of a \<open>uint64_t\<close> on the little-endian target, which the sources move
  around with \<open>memcpy(\<dots>, 8)\<close>, \<open>fwrite(\<dots>, 8, 1, \<dots>)\<close>, \<open>send(\<dots>, 8, 0)\<close> and so on.
\<close>

definition bytes_of_u64 :: "u64 \<Rightarrow> u8 list" where
  "bytes_of_u64 x = map (\<lambda>i. ucast (drop_bit (8 * i) x)) [0..<8]"

definition u64_of_bytes :: "u8 list \<Rightarrow> u64" where
  "u64_of_bytes bs = foldr (\<lambda>b acc. ucast b OR push_bit 8 acc) bs 0"

lemma length_bytes_of_u64 [simp]: "length (bytes_of_u64 x) = 8"
  by (simp add: bytes_of_u64_def)

lemma bit_bytes_of_u64:
  "i < 8 \<Longrightarrow> n < 8 \<Longrightarrow> bit (bytes_of_u64 x ! i) n = bit x (8 * i + n)"
  by (simp add: bytes_of_u64_def bit_ucast_iff bit_drop_bit_eq ac_simps)

lemma bit_u64_of_bytes:
  "bit (u64_of_bytes bs) n \<longleftrightarrow> n < 64 \<and> n div 8 < length bs \<and> bit (bs ! (n div 8)) (n mod 8)"
proof (induction bs arbitrary: n)
  case Nil
  then show ?case by (simp add: u64_of_bytes_def)
next
  case (Cons b bs)
  have step: "u64_of_bytes (b # bs) = ucast b OR push_bit 8 (u64_of_bytes bs)"
    by (simp add: u64_of_bytes_def)
  show ?case
  proof (cases "n < 8")
    case True
    then show ?thesis
      by (simp add: step bit_or_iff bit_ucast_iff bit_push_bit_iff)
  next
    case False
    then obtain k where k: "n = 8 + k" using le_Suc_ex not_less by blast
    have "\<not> bit b n" using False by (simp add: bit_word.rep_eq)
    moreover have "n div 8 = Suc (k div 8)" and "n mod 8 = k mod 8" using k by simp_all
    ultimately show ?thesis
      using k by (auto simp: step bit_or_iff bit_ucast_iff bit_push_bit_iff Cons.IH)
  qed
qed

lemma u64_bytes_roundtrip [simp]: "u64_of_bytes (bytes_of_u64 x) = x"
proof (rule bit_word_eqI)
  fix n assume "n < LENGTH(64)"
  then have n: "n < 64" by simp
  have "n div 8 < 8" and "n mod 8 < 8" using n by (simp_all add: div_less_iff_less_mult)
  then show "bit (u64_of_bytes (bytes_of_u64 x)) n = bit x n"
    using n by (simp add: bit_u64_of_bytes bit_bytes_of_u64)
qed

lemma bytes_u64_roundtrip:
  assumes "length bs = 8"
  shows "bytes_of_u64 (u64_of_bytes bs) = bs"
proof (rule nth_equalityI)
  show "length (bytes_of_u64 (u64_of_bytes bs)) = length bs" using assms by simp
  fix i assume "i < length (bytes_of_u64 (u64_of_bytes bs))"
  then have i: "i < 8" by simp
  show "bytes_of_u64 (u64_of_bytes bs) ! i = bs ! i"
  proof (rule bit_word_eqI)
    fix n assume "n < LENGTH(8)"
    then have n: "n < 8" by simp
    have "(8 * i + n) div 8 = i" and "(8 * i + n) mod 8 = n" and "8 * i + n < 64" using n i by simp_all
    then show "bit (bytes_of_u64 (u64_of_bytes bs) ! i) n = bit (bs ! i) n"
      using i n assms by (simp add: bit_bytes_of_u64 bit_u64_of_bytes)
  qed
qed

section \<open>Transition systems\<close>

text \<open>
  The two-process protocols are step relations; \<open>reach\<close> is reachability from the initial states.
  A spin iteration that reads a flag and changes nothing is not a step: a process that spins is a
  process without an enabled step, so a state without any step is a state in which nobody can ever
  proceed.
\<close>

inductive reach :: "('s \<Rightarrow> bool) \<Rightarrow> ('s \<Rightarrow> 's \<Rightarrow> bool) \<Rightarrow> 's \<Rightarrow> bool"
  for init :: "'s \<Rightarrow> bool" and step :: "'s \<Rightarrow> 's \<Rightarrow> bool"
where
  reach_init: "init s \<Longrightarrow> reach init step s"
| reach_step: "reach init step s \<Longrightarrow> step s t \<Longrightarrow> reach init step t"

text \<open>A run of the system: the successive states after the first one.\<close>

fun run :: "('s \<Rightarrow> 's \<Rightarrow> bool) \<Rightarrow> 's \<Rightarrow> 's list \<Rightarrow> bool" where
  "run step s [] = True"
| "run step s (t # ts) = (step s t \<and> run step t ts)"

definition stuck :: "('s \<Rightarrow> 's \<Rightarrow> bool) \<Rightarrow> 's \<Rightarrow> bool" where
  "stuck step s = (\<forall>t. \<not> step s t)"

lemma reach_along_run: "reach init step s \<Longrightarrow> run step s ts \<Longrightarrow> reach init step (last (s # ts))"
proof (induction ts arbitrary: s)
  case Nil
  then show ?case by simp
next
  case (Cons u us)
  then have "reach init step u" by (auto intro: reach_step)
  with Cons show ?case by auto
qed

locale invariant_system =
  fixes init :: "'s \<Rightarrow> bool" and step :: "'s \<Rightarrow> 's \<Rightarrow> bool" and inv :: "'s \<Rightarrow> bool"
  assumes inv_init: "init s \<Longrightarrow> inv s"
    and inv_step: "inv s \<Longrightarrow> step s t \<Longrightarrow> inv t"
begin

lemma reach_inv: "reach init step s \<Longrightarrow> inv s"
  by (induction rule: reach.induct) (auto intro: inv_init inv_step)

lemma run_inv: "inv s \<Longrightarrow> run step s ts \<Longrightarrow> t \<in> set ts \<Longrightarrow> inv t"
proof (induction ts arbitrary: s)
  case Nil
  then show ?case by simp
next
  case (Cons u us)
  then have "inv u" by (auto intro: inv_step)
  with Cons show ?case by auto
qed

lemma run_reach: "reach init step s \<Longrightarrow> run step s ts \<Longrightarrow> reach init step (last (s # ts))"
  by (rule reach_along_run)

end

text \<open>Systems in which only a finished state is stuck.\<close>

locale live_system = invariant_system +
  fixes finished :: "'s \<Rightarrow> bool"
  assumes progress: "inv s \<Longrightarrow> \<not> finished s \<Longrightarrow> \<exists>t. step s t"
begin

lemma no_deadlock: "reach init step s \<Longrightarrow> stuck step s \<Longrightarrow> finished s"
  using progress reach_inv by (auto simp: stuck_def)

end

text \<open>
  Systems in which a finished state can always be reached by a suitable choice of steps, although other
  choices may go round in circles.
\<close>

locale completable_system = invariant_system +
  fixes finished :: "'s \<Rightarrow> bool" and rank :: "'s \<Rightarrow> nat"
  assumes helpful: "inv s \<Longrightarrow> \<not> finished s \<Longrightarrow> \<exists>t. step s t \<and> rank t < rank s"
begin

lemma can_finish: "inv s \<Longrightarrow> \<exists>ts. run step s ts \<and> finished (last (s # ts))"
proof (induction "rank s" arbitrary: s rule: less_induct)
  case less
  show ?case
  proof (cases "finished s")
    case True
    then have "run step s [] \<and> finished (last (s # []))" by simp
    then show ?thesis by blast
  next
    case False
    with less.prems obtain t where t: "step s t" and "rank t < rank s" using helpful by blast
    with less.prems less.hyps obtain ts where "run step t ts \<and> finished (last (t # ts))"
      by (blast intro: inv_step)
    with t have "run step s (t # ts) \<and> finished (last (s # t # ts))" by simp
    then show ?thesis by blast
  qed
qed

end

sublocale completable_system \<subseteq> live_system
  by unfold_locales (use helpful in blast)

text \<open>Systems in which moreover every step uses up a measure: all runs are finite and every
  maximal run ends in a finished state.\<close>

locale terminating_system = live_system +
  fixes work :: "'s \<Rightarrow> nat"
  assumes decreases: "inv s \<Longrightarrow> step s t \<Longrightarrow> work t < work s"
begin

lemma run_bound: "inv s \<Longrightarrow> run step s ts \<Longrightarrow> length ts + work (last (s # ts)) \<le> work s"
proof (induction ts arbitrary: s)
  case Nil
  then show ?case by simp
next
  case (Cons u us)
  then have "inv u" and "work u < work s" by (auto intro: inv_step decreases)
  with Cons show ?case by fastforce
qed

lemma maximal_run: "inv s \<Longrightarrow> \<exists>ts. run step s ts \<and> stuck step (last (s # ts))"
proof (induction "work s" arbitrary: s rule: less_induct)
  case less
  show ?case
  proof (cases "stuck step s")
    case True
    then have "run step s [] \<and> stuck step (last (s # []))" by simp
    then show ?thesis by blast
  next
    case False
    then obtain t where t: "step s t" by (auto simp: stuck_def)
    with less obtain ts where "run step t ts \<and> stuck step (last (t # ts))"
      by (blast intro: inv_step decreases)
    with t have "run step s (t # ts) \<and> stuck step (last (s # t # ts))" by simp
    then show ?thesis by blast
  qed
qed

lemma maximal_run_finished:
  assumes "inv s" and "run step s ts" and "stuck step (last (s # ts))"
  shows "finished (last (s # ts))"
proof -
  have "inv (last (s # ts))"
    using assms(1,2) by (cases ts) (auto intro: run_inv inv_step)
  with assms(3) show ?thesis
    using progress [of "last (s # ts)"] unfolding stuck_def by blast
qed

end

sublocale terminating_system \<subseteq> completable_system init step inv finished work
  by unfold_locales (use progress decreases in blast)

end
