(* ===== verification/Kfifo.thy ===== *)
theory Kfifo
  imports Prelude
begin

text \<open>
  The lock-free ring of \<^verbatim>\<open>source/common/kfifo.h\<close>: the structure \<open>__kfifo\<close> as a record, every
  function of the header as a definition over 32-bit words, and the memory it lives in as an
  explicit store.  The lemmas show the bit tricks correct, relate the ring to a list of elements
  across the wrap-around of both the ring and the free-running 32-bit indices, and bound the memory
  each operation may touch.
\<close>

section \<open>The structure and its operations\<close>

record kfifo =
  kf_in :: u32
  kf_out :: u32
  kf_mask :: u32
  kf_esize :: u32
  kf_data :: u64

definition roundup_pow_of_two :: "u32 \<Rightarrow> u32" where
  "roundup_pow_of_two v =
     (let v = v - 1;
          v = v OR drop_bit 1 v;
          v = v OR drop_bit 2 v;
          v = v OR drop_bit 4 v;
          v = v OR drop_bit 8 v;
          v = v OR drop_bit 16 v
      in v + 1)"

definition kfifo_len :: "kfifo \<Rightarrow> u32" where
  "kfifo_len f = kf_in f - kf_out f"

definition kfifo_cap :: "kfifo \<Rightarrow> u32" where
  "kfifo_cap f = kf_mask f + 1"

definition kfifo_avail :: "kfifo \<Rightarrow> u32" where
  "kfifo_avail f = kfifo_cap f - kfifo_len f"

definition kfifo_is_full :: "kfifo \<Rightarrow> bool" where
  "kfifo_is_full f = (kfifo_len f > kf_mask f)"

definition kfifo_is_empty :: "kfifo \<Rightarrow> bool" where
  "kfifo_is_empty f = (kf_in f = kf_out f)"

definition kfifo_unused :: "kfifo \<Rightarrow> u32" where
  "kfifo_unused f = (kf_mask f + 1) - (kf_in f - kf_out f)"

definition is_power_of_2 :: "u32 \<Rightarrow> bool" where
  "is_power_of_2 sz = (sz AND (sz - 1) = 0)"

text \<open>
  \<open>__kfifo_init\<close>: the return code and the initialised structure.  The division \<open>size /= esize\<close> is
  carried out in \<open>size_t\<close> and truncated back to \<open>unsigned int\<close>; \<open>None\<close> is the division by zero.
\<close>

definition kfifo_init :: "kfifo \<Rightarrow> u64 \<Rightarrow> u32 \<Rightarrow> u64 \<Rightarrow> (int \<times> kfifo) option" where
  "kfifo_init f buffer sz esize =
     (if esize = 0 then None else
      (let sz = ucast (ucast sz div esize :: u64) :: u32;
           sz = (if \<not> is_power_of_2 sz then roundup_pow_of_two sz else sz);
           f = f\<lparr>kf_in := 0, kf_out := 0, kf_esize := ucast esize, kf_data := buffer\<rparr>
       in if sz < 2 then Some (-1, f\<lparr>kf_mask := 0\<rparr>)
          else Some (0, f\<lparr>kf_mask := sz - 1\<rparr>)))"

definition kfifo_copy_in :: "mem \<Rightarrow> kfifo \<Rightarrow> u64 \<Rightarrow> u32 \<Rightarrow> u32 \<Rightarrow> mem" where
  "kfifo_copy_in m f src len off =
     (let sz = kf_mask f + 1;
          esize = kf_esize f;
          off = off AND kf_mask f;
          (off, sz, len) =
            (if esize \<noteq> 1 then (off * esize, sz * esize, len * esize) else (off, sz, len));
          l = (if len < sz - off then len else sz - off);
          m = memcpy m (kf_data f + ucast off) src (unat l)
      in memcpy m (kf_data f) (src + ucast l) (unat (len - l)))"

text \<open>
  \<open>__kfifo_in\<close>: the number of elements taken, the memory and the structure afterwards.  The line it prints
  is an event of \<open>shared_kfifo_in\<close> in theory Shared_Ring.
\<close>

definition kfifo_in :: "mem \<Rightarrow> kfifo \<Rightarrow> u64 \<Rightarrow> u32 \<Rightarrow> u32 \<times> mem \<times> kfifo" where
  "kfifo_in m f buf len =
     (let l = kfifo_unused f;
          len = (if len > l then l else len);
          m = kfifo_copy_in m f buf len (kf_in f);
          f = f\<lparr>kf_in := kf_in f + len\<rparr>
      in (len, m, f))"

definition kfifo_copy_out :: "mem \<Rightarrow> kfifo \<Rightarrow> u64 \<Rightarrow> u32 \<Rightarrow> u32 \<Rightarrow> mem" where
  "kfifo_copy_out m f dst len off =
     (let sz = kf_mask f + 1;
          esize = kf_esize f;
          off = off AND kf_mask f;
          (off, sz, len) =
            (if esize \<noteq> 1 then (off * esize, sz * esize, len * esize) else (off, sz, len));
          l = (if len < sz - off then len else sz - off);
          m = memcpy m dst (kf_data f + ucast off) (unat l)
      in memcpy m (dst + ucast l) (kf_data f) (unat (len - l)))"

definition kfifo_out_peek :: "mem \<Rightarrow> kfifo \<Rightarrow> u64 \<Rightarrow> u32 \<Rightarrow> u32 \<times> mem" where
  "kfifo_out_peek m f buf len =
     (let l = kf_in f - kf_out f;
          len = (if len > l then l else len)
      in (len, kfifo_copy_out m f buf len (kf_out f)))"

definition kfifo_out :: "mem \<Rightarrow> kfifo \<Rightarrow> u64 \<Rightarrow> u32 \<Rightarrow> u32 \<times> mem \<times> kfifo" where
  "kfifo_out m f buf len =
     (let (len, m) = kfifo_out_peek m f buf len
      in (len, m, f\<lparr>kf_out := kf_out f + len\<rparr>))"

section \<open>Powers of two\<close>

lemma odd_power_of_2_iff: "odd (n::nat) \<Longrightarrow> (\<exists>k. n = 2 ^ k) \<longleftrightarrow> n = 1"
proof
  assume "odd n" and "\<exists>k. n = 2 ^ k"
  then obtain k where k: "n = 2 ^ k" by blast
  with \<open>odd n\<close> have "k = 0" by (cases k) simp_all
  with k show "n = 1" by simp
next
  assume "n = 1"
  then have "n = 2 ^ 0" by simp
  then show "\<exists>k. n = 2 ^ k" ..
qed

lemma double_power_of_2_iff: "0 < (h::nat) \<Longrightarrow> (\<exists>k. 2 * h = 2 ^ k) \<longleftrightarrow> (\<exists>k. h = 2 ^ k)"
proof
  assume "0 < h" and "\<exists>k. 2 * h = 2 ^ k"
  then obtain k where "2 * h = 2 ^ k" by blast
  then show "\<exists>k. h = 2 ^ k" by (cases k) auto
next
  assume "\<exists>k. h = 2 ^ k"
  then obtain k where "2 * h = 2 ^ Suc k" by auto
  then show "\<exists>k. 2 * h = 2 ^ k" ..
qed

lemma and_pred_nat:
  "(n::nat) AND (n - 1) = 0 \<longleftrightarrow> n = 0 \<or> (\<exists>k. n = 2 ^ k)"
proof (induction n rule: less_induct)
  case (less n)
  consider "n = 0" | q where "n = 2 * q + 1" | h where "n = 2 * h" "0 < h"
    by (metis evenE oddE gr0I mult_0_right)
  then show ?case
  proof cases
    case 1
    then show ?thesis by simp
  next
    case 2
    have "n AND (n - 1) = 2 * q" by (subst and_rec) (simp add: 2)
    then show ?thesis using odd_power_of_2_iff [of n] 2 by simp
  next
    case 3
    then have "odd (n - 1)" and "(n - 1) div 2 = h - 1" and "n div 2 = h" by (auto simp: even_diff_nat)
    moreover have "n AND (n - 1) = of_bool (odd n \<and> odd (n - 1)) + 2 * ((n div 2) AND ((n - 1) div 2))"
      by (rule and_rec)
    ultimately have "n AND (n - 1) = 2 * (h AND (h - 1))" using 3 by simp
    then show ?thesis using less.IH [of h] double_power_of_2_iff [of h] 3 by simp
  qed
qed

lemma is_power_of_2_iff:
  "is_power_of_2 sz \<longleftrightarrow> sz = 0 \<or> (\<exists>k<32. unat sz = 2 ^ k)"
proof (cases "sz = 0")
  case True
  then show ?thesis by (simp add: is_power_of_2_def)
next
  case False
  then have pred: "unat (sz - 1) = unat sz - 1"
    by (simp add: unat_minus_one)
  have "is_power_of_2 sz \<longleftrightarrow> unat (sz AND (sz - 1)) = 0"
    by (simp add: is_power_of_2_def unat_eq_zero)
  also have "\<dots> \<longleftrightarrow> unat sz AND (unat sz - 1) = 0"
    by (simp add: unsigned_and_eq pred)
  also have "\<dots> \<longleftrightarrow> (\<exists>k. unat sz = 2 ^ k)"
    using False and_pred_nat [of "unat sz"] by (simp add: unat_eq_zero)
  also have "\<dots> \<longleftrightarrow> (\<exists>k<32. unat sz = 2 ^ k)"
  proof -
    have "k < 32" if "unat sz = 2 ^ k" for k
    proof -
      have "(2::nat) ^ k < 2 ^ 32" using that unat_u32_less [of sz] by simp
      then show ?thesis by (simp only: pow2_less_iff)
    qed
    then show ?thesis by blast
  qed
  finally show ?thesis using False by simp
qed

text \<open>
  The smearing steps of \<^const>\<open>roundup_pow_of_two\<close>: after \<open>j\<close> doublings bit \<open>i\<close> is set iff one of
  the \<open>2 ^ j\<close> bits from \<open>i\<close> upwards was.
\<close>

definition smeared :: "nat \<Rightarrow> u32 \<Rightarrow> u32 \<Rightarrow> bool" where
  "smeared k x y = (\<forall>i. bit y i \<longleftrightarrow> (\<exists>j. i \<le> j \<and> j < i + k \<and> bit x j))"

lemma smeared_1: "smeared 1 x x"
  by (auto simp: smeared_def less_Suc_eq_le intro: le_antisym)

lemma smeared_double:
  assumes "smeared k x y"
  shows "smeared (2 * k) x (y OR drop_bit k y)"
  unfolding smeared_def
proof (rule allI, rule iffI)
  fix i
  assume "bit (y OR drop_bit k y) i"
  then consider "bit y i" | "bit y (k + i)" by (auto simp: bit_or_iff bit_drop_bit_eq)
  then show "\<exists>j\<ge>i. j < i + 2 * k \<and> bit x j"
  proof cases
    case 1
    with assms obtain j where "i \<le> j" "j < i + k" "bit x j" unfolding smeared_def by blast
    then have "i \<le> j \<and> j < i + 2 * k \<and> bit x j" by simp
    then show ?thesis by blast
  next
    case 2
    with assms obtain j where "k + i \<le> j" "j < k + i + k" "bit x j" unfolding smeared_def by blast
    then have "i \<le> j \<and> j < i + 2 * k \<and> bit x j" by simp
    then show ?thesis by blast
  qed
next
  fix i
  assume "\<exists>j\<ge>i. j < i + 2 * k \<and> bit x j"
  then obtain j where j: "i \<le> j" "j < i + 2 * k" "bit x j" by blast
  show "bit (y OR drop_bit k y) i"
  proof (cases "j < i + k")
    case True
    with j assms have "bit y i" unfolding smeared_def by blast
    then show ?thesis by (simp add: bit_or_iff)
  next
    case False
    with j have "k + i \<le> j" "j < (k + i) + k" by auto
    with j assms have "bit y (k + i)" unfolding smeared_def by blast
    then show ?thesis by (simp add: bit_or_iff bit_drop_bit_eq)
  qed
qed

lemma smeared_32_mask:
  assumes "smeared 32 x y" and "2 ^ n \<le> unat x" and "unat x < 2 ^ Suc n" and "n < 32"
  shows "y = mask (Suc n)"
proof (rule bit_word_eqI)
  fix i assume i: "i < LENGTH(32)"
  have top: "bit x n"
  proof -
    have "unat x div 2 ^ n = 1" using assms(2,3) by (simp add: div_nat_eqI)
    then have "bit (unat x) n" by (simp add: bit_iff_odd)
    then show ?thesis by (simp add: bit_unsigned_iff)
  qed
  have above: "\<not> bit x j" if "n < j" for j
  proof -
    have "unat x < 2 ^ j" using assms(3) that
      by (meson Suc_leI less_le_trans one_le_numeral power_increasing)
    then have "\<not> bit (unat x) j" by (simp add: bit_iff_odd)
    then show ?thesis by (simp add: bit_unsigned_iff)
  qed
  have "bit y i \<longleftrightarrow> (\<exists>j. i \<le> j \<and> j < i + 32 \<and> bit x j)"
    using assms(1) by (simp add: smeared_def)
  also have "\<dots> \<longleftrightarrow> i \<le> n"
  proof
    assume "\<exists>j. i \<le> j \<and> j < i + 32 \<and> bit x j"
    then obtain j where "i \<le> j" "bit x j" by blast
    with above show "i \<le> n" by (meson le_trans linorder_not_le)
  next
    assume "i \<le> n"
    with top assms(4) have "i \<le> n \<and> n < i + 32 \<and> bit x n" by simp
    then show "\<exists>j. i \<le> j \<and> j < i + 32 \<and> bit x j" by blast
  qed
  also have "\<dots> \<longleftrightarrow> bit (mask (Suc n) :: u32) i"
    using i by (simp add: bit_mask_iff less_Suc_eq_le)
  finally show "bit y i = bit (mask (Suc n) :: u32) i" .
qed

lemma smeared_32:
  "smeared 32 v (roundup_pow_of_two (v + 1) - 1)"
proof -
  define a where "a = v OR drop_bit 1 v"
  define b where "b = a OR drop_bit 2 a"
  define c where "c = b OR drop_bit 4 b"
  define d where "d = c OR drop_bit 8 c"
  define e where "e = d OR drop_bit 16 d"
  have "smeared 2 v a" using smeared_double [OF smeared_1 [of v]] by (simp add: a_def)
  then have "smeared 4 v b" using smeared_double by (fastforce simp: b_def)
  then have "smeared 8 v c" using smeared_double by (fastforce simp: c_def)
  then have "smeared 16 v d" using smeared_double by (fastforce simp: d_def)
  then have "smeared 32 v e" using smeared_double by (fastforce simp: e_def)
  moreover have "roundup_pow_of_two (v + 1) - 1 = e"
    by (simp add: roundup_pow_of_two_def Let_def a_def b_def c_def d_def e_def)
  ultimately show ?thesis by simp
qed

lemma between_powers:
  assumes "0 < (x::nat)"
  shows "\<exists>n. 2 ^ n \<le> x \<and> x < 2 ^ Suc n"
  using ex_power_ivl1 [of 2 x] assms by (auto simp: Suc_le_eq)

lemma roundup_mask:
  assumes "2 ^ n < unat v" and "unat v \<le> 2 ^ Suc n" and "n < 32"
  shows "roundup_pow_of_two v = 2 ^ Suc n"
proof -
  from assms(1) have "v \<noteq> 0" by auto
  then have "unat (v - 1) = unat v - 1" by (simp add: unat_minus_one)
  with assms have "2 ^ n \<le> unat (v - 1)" "unat (v - 1) < 2 ^ Suc n" by auto
  moreover have "smeared 32 (v - 1) (roundup_pow_of_two v - 1)"
    using smeared_32 [of "v - 1"] by simp
  ultimately have "roundup_pow_of_two v - 1 = mask (Suc n)"
    using assms(3) smeared_32_mask by blast
  then show ?thesis by (simp add: mask_eq_exp_minus_1 eq_diff_eq)
qed

lemma roundup_1: "roundup_pow_of_two 1 = 1"
  by (simp add: roundup_pow_of_two_def)

lemma unat_power_u32: "n < 32 \<Longrightarrow> unat (2 ^ n :: u32) = 2 ^ n"
proof -
  assume "n < 32"
  then have "(2::nat) ^ n < 2 ^ 32" by (simp only: pow2_less_iff)
  then show ?thesis using unat_of_nat_u32 [of "2 ^ n"] by simp
qed

lemma roundup_big: "2 ^ 31 < unat v \<Longrightarrow> roundup_pow_of_two v = 0"
proof -
  assume "2 ^ 31 < unat v"
  moreover have "unat v \<le> 2 ^ Suc 31" using unat_u32_less [of v] by simp
  ultimately have "roundup_pow_of_two v = 2 ^ Suc 31" by (rule roundup_mask) simp
  then show ?thesis by simp
qed

lemma roundup_cases:
  assumes "0 < unat v" and "unat v \<le> 2 ^ 31"
  obtains k where "k < 32" and "roundup_pow_of_two v = 2 ^ k" and "unat v \<le> 2 ^ k"
    and "2 ^ k < 2 * unat v"
proof (cases "unat v = 1")
  case True
  then have "v = 1" by (simp add: word_unat_eq_iff)
  then show ?thesis using that [of 0] by (simp add: roundup_1)
next
  case False
  with assms(1) have "0 < unat v - 1" by simp
  from between_powers [OF this] obtain n
    where n: "2 ^ n \<le> unat v - 1" "unat v - 1 < 2 ^ Suc n" by blast
  have "(2::nat) ^ n < 2 ^ 31" using n(1) assms by linarith
  then have n31: "n < 31" by (simp only: pow2_less_iff)
  have lo: "2 ^ n < unat v" and hi: "unat v \<le> 2 ^ Suc n" using n assms(1) by auto
  show ?thesis
  proof (rule that)
    show "Suc n < 32" using n31 by simp
    show "roundup_pow_of_two v = 2 ^ Suc n" using lo hi n31 by (intro roundup_mask) auto
    show "unat v \<le> 2 ^ Suc n" by (rule hi)
    show "2 ^ Suc n < 2 * unat v" using lo by simp
  qed
qed

section \<open>Well-formed rings\<close>

text \<open>
  The invariant of the structure: a power-of-two capacity, whose byte size does not overflow the
  32-bit arithmetic of the copy routines, and no more elements than the capacity.
\<close>

definition kfifo_wf :: "kfifo \<Rightarrow> bool" where
  "kfifo_wf f \<longleftrightarrow>
     is_power_of_2 (kfifo_cap f) \<and> kfifo_cap f \<noteq> 0 \<and> kf_esize f \<noteq> 0 \<and>
     unat (kfifo_cap f) * unat (kf_esize f) < 2 ^ 32 \<and> kfifo_len f \<le> kfifo_cap f"

abbreviation cap_n :: "kfifo \<Rightarrow> nat" where "cap_n f \<equiv> unat (kfifo_cap f)"
abbreviation len_n :: "kfifo \<Rightarrow> nat" where "len_n f \<equiv> unat (kfifo_len f)"
abbreviation esize_n :: "kfifo \<Rightarrow> nat" where "esize_n f \<equiv> unat (kf_esize f)"

text \<open>The bytes of the ring, the slot of an index, and the queue as a list of elements.\<close>

definition ring_bytes :: "kfifo \<Rightarrow> u64 set" where
  "ring_bytes f = region (kf_data f) (cap_n f * esize_n f)"

definition slot :: "kfifo \<Rightarrow> u32 \<Rightarrow> u64" where
  "slot f i = kf_data f + of_nat ((unat i mod cap_n f) * esize_n f)"

definition kfifo_contents :: "mem \<Rightarrow> kfifo \<Rightarrow> u8 list list" where
  "kfifo_contents m f =
     map (\<lambda>k. load m (slot f (kf_out f + of_nat k)) (esize_n f)) [0..<len_n f]"

text \<open>The array of elements a caller passes.\<close>

definition elements_at :: "mem \<Rightarrow> u64 \<Rightarrow> nat \<Rightarrow> nat \<Rightarrow> u8 list list" where
  "elements_at m p e n = map (\<lambda>k. load m (p + of_nat (k * e)) e) [0..<n]"

lemma length_kfifo_contents [simp]: "length (kfifo_contents m f) = len_n f"
  by (simp add: kfifo_contents_def)

lemma length_elements_at [simp]: "length (elements_at m p e n) = n"
  by (simp add: elements_at_def)

lemma wf_cap_power: "kfifo_wf f \<Longrightarrow> \<exists>n<32. cap_n f = 2 ^ n"
  by (auto simp: kfifo_wf_def is_power_of_2_iff)

lemma wf_pos: "kfifo_wf f \<Longrightarrow> 0 < cap_n f \<and> 0 < esize_n f"
  by (auto simp: kfifo_wf_def unat_gt_0)

lemma wf_len: "kfifo_wf f \<Longrightarrow> len_n f \<le> cap_n f"
  by (simp add: kfifo_wf_def word_le_nat_alt)

lemma wf_bytes: "kfifo_wf f \<Longrightarrow> cap_n f * esize_n f < 2 ^ 32"
  by (simp add: kfifo_wf_def)

lemma mask_is_mod:
  assumes "kfifo_wf f"
  shows "unat (i AND kf_mask f) = unat i mod cap_n f"
proof -
  from wf_cap_power [OF assms] obtain n where n: "n < 32" "cap_n f = 2 ^ n" by blast
  then have "kfifo_cap f = 2 ^ n" by (simp add: word_unat_eq_iff unat_power_u32)
  then have "kf_mask f = mask n" by (simp add: kfifo_cap_def mask_eq_exp_minus_1 eq_diff_eq)
  then have "i AND kf_mask f = take_bit n i" by (simp add: take_bit_eq_mask)
  then show ?thesis by (simp add: n take_bit_eq_mod unat_mod unat_power_u32)
qed

lemma index_add_mod:
  fixes i :: u32
  assumes "kfifo_wf f"
  shows "unat (i + of_nat k) mod cap_n f = (unat i + k) mod cap_n f"
proof -
  from wf_cap_power [OF assms] obtain n where n: "n < 32" "cap_n f = 2 ^ n" by blast
  have "(2::nat) ^ n dvd 2 ^ 32" using n(1) by (intro le_imp_power_dvd) simp
  then have "cap_n f dvd 2 ^ 32" unfolding n(2) .
  moreover have "unat (i + of_nat k) = (unat i + k) mod 2 ^ 32"
    by (simp add: unat_word_ariths unat_of_nat mod_add_right_eq)
  ultimately show ?thesis by (simp add: mod_mod_cancel)
qed

text \<open>Index arithmetic of the ring, on natural numbers.\<close>

lemma ring_scale: "i < e \<Longrightarrow> (x mod c) * e + i = (x * e + i) mod (c * e)" for x c e i :: nat
  using mod_mult2_eq [of "x * e + i" e c] by (simp add: mult.commute)

lemma slot_byte:
  assumes "kfifo_wf f" and "unat i mod cap_n f = (unat off + x) mod cap_n f" and "j < esize_n f"
  shows "slot f i + of_nat j =
         kf_data f + of_nat ((unat off mod cap_n f * esize_n f + (x * esize_n f + j)) mod (cap_n f * esize_n f))"
proof -
  have "(unat i mod cap_n f) * esize_n f + j
      = ((unat off mod cap_n f + x) mod cap_n f) * esize_n f + j"
    by (simp add: assms(2) mod_simps)
  also have "\<dots> = ((unat off mod cap_n f + x) * esize_n f + j) mod (cap_n f * esize_n f)"
    using assms(3) by (rule ring_scale)
  also have "\<dots> = (unat off mod cap_n f * esize_n f + (x * esize_n f + j)) mod (cap_n f * esize_n f)"
    by (simp add: algebra_simps)
  finally have pos: "(unat i mod cap_n f) * esize_n f + j = \<dots>" .
  have "slot f i + of_nat j = kf_data f + of_nat ((unat i mod cap_n f) * esize_n f + j)"
    by (simp add: slot_def)
  then show ?thesis unfolding pos .
qed

lemma slot_in_ring:
  assumes wf: "kfifo_wf f" and j: "j < esize_n f"
  shows "slot f i + of_nat j \<in> ring_bytes f"
proof -
  have "Suc (unat i mod cap_n f) * esize_n f \<le> cap_n f * esize_n f"
    using wf_pos [OF wf] by (intro mult_le_mono1) (simp add: Suc_le_eq)
  then have "(unat i mod cap_n f) * esize_n f + j < cap_n f * esize_n f" using j by simp
  then have "kf_data f + of_nat ((unat i mod cap_n f) * esize_n f + j) \<in> ring_bytes f"
    unfolding ring_bytes_def using wf_bytes [OF wf] by (intro region_memI) simp_all
  then show ?thesis by (simp add: slot_def add.assoc)
qed

section \<open>The copy routines\<close>

text \<open>
  The three quantities of the copy routines after scaling by the element size, and the length of
  the first of the two copies.
\<close>

lemma copy_quantities:
  fixes off :: u32
  assumes wf: "kfifo_wf f" and len: "unat len \<le> cap_n f"
  shows "unat ((off AND kf_mask f) * kf_esize f) = unat off mod cap_n f * esize_n f"
    and "unat ((kf_mask f + 1) * kf_esize f) = cap_n f * esize_n f"
    and "unat (len * kf_esize f) = unat len * esize_n f"
    and "unat ((kf_mask f + 1) * kf_esize f - (off AND kf_mask f) * kf_esize f)
         = cap_n f * esize_n f - unat off mod cap_n f * esize_n f"
    and "unat off mod cap_n f * esize_n f < cap_n f * esize_n f"
proof -
  have no_wrap: "unat (a * b) = unat a * unat b" if "unat a * unat b < 2 ^ 32" for a b :: u32
    using that unat_mult_lem [of a b] by simp
  have bytes: "cap_n f * esize_n f < 2 ^ 32" using wf by (rule wf_bytes)
  have pos: "0 < cap_n f" "0 < esize_n f" using wf_pos [OF wf] by simp_all
  then show less: "unat off mod cap_n f * esize_n f < cap_n f * esize_n f" by simp
  then have "unat (off AND kf_mask f) * esize_n f < 2 ^ 32"
    using bytes unfolding mask_is_mod [OF wf] by (rule order.strict_trans)
  then show *: "unat ((off AND kf_mask f) * kf_esize f) = unat off mod cap_n f * esize_n f"
    by (simp only: no_wrap mask_is_mod [OF wf])
  show **: "unat ((kf_mask f + 1) * kf_esize f) = cap_n f * esize_n f"
    using no_wrap [OF bytes] by (simp add: kfifo_cap_def)
  have "unat len * esize_n f \<le> cap_n f * esize_n f" using len by simp
  with bytes show "unat (len * kf_esize f) = unat len * esize_n f"
    by (intro no_wrap) linarith
  show "unat ((kf_mask f + 1) * kf_esize f - (off AND kf_mask f) * kf_esize f)
         = cap_n f * esize_n f - unat off mod cap_n f * esize_n f"
    using less unfolding unat_sub_if' * ** by simp
qed

text \<open>
  Both copy routines in terms of byte counts: the guard \<open>esize != 1\<close> is an optimisation only.
\<close>

definition first_part :: "kfifo \<Rightarrow> u32 \<Rightarrow> u32 \<Rightarrow> nat" where
  "first_part f len off =
     min (unat len * esize_n f) (cap_n f * esize_n f - unat off mod cap_n f * esize_n f)"

definition chunk :: "kfifo \<Rightarrow> u32 \<Rightarrow> u32 \<Rightarrow> u32" where
  "chunk f len off =
     (let room = (kf_mask f + 1) * kf_esize f - (off AND kf_mask f) * kf_esize f
      in if len * kf_esize f < room then len * kf_esize f else room)"

lemma chunk_facts:
  assumes "kfifo_wf f" and "unat len \<le> cap_n f"
  shows "unat (chunk f len off) = first_part f len off"
    and "ucast (chunk f len off) = (of_nat (first_part f len off) :: u64)"
    and "ucast ((off AND kf_mask f) * kf_esize f) = (of_nat (unat off mod cap_n f * esize_n f) :: u64)"
    and "unat (len * kf_esize f - chunk f len off) = unat len * esize_n f - first_part f len off"
proof -
  note q = copy_quantities [OF assms]
  show ul: "unat (chunk f len off) = first_part f len off"
    by (auto simp: chunk_def Let_def first_part_def word_less_nat_alt q min_def)
  then show "ucast (chunk f len off) = (of_nat (first_part f len off) :: u64)"
    by (metis of_nat_unat)
  show "ucast ((off AND kf_mask f) * kf_esize f) = (of_nat (unat off mod cap_n f * esize_n f) :: u64)"
    by (metis of_nat_unat q(1))
  have "unat (chunk f len off) \<le> unat (len * kf_esize f)" by (simp add: ul q first_part_def)
  then show "unat (len * kf_esize f - chunk f len off) = unat len * esize_n f - first_part f len off"
    by (simp add: unat_sub_if' ul q)
qed

lemma copy_in_bytes:
  assumes "kfifo_wf f" and "unat len \<le> cap_n f"
  shows "kfifo_copy_in m f src len off =
    (let l = first_part f len off;
         m1 = memcpy m (kf_data f + of_nat (unat off mod cap_n f * esize_n f)) src l
     in memcpy m1 (kf_data f) (src + of_nat l) (unat len * esize_n f - l))"
proof -
  have "kfifo_copy_in m f src len off =
     memcpy (memcpy m (kf_data f + ucast ((off AND kf_mask f) * kf_esize f)) src (unat (chunk f len off)))
       (kf_data f) (src + ucast (chunk f len off)) (unat (len * kf_esize f - chunk f len off))"
    by (cases "kf_esize f = 1") (simp_all add: kfifo_copy_in_def Let_def chunk_def)
  then show ?thesis by (simp only: chunk_facts [OF assms] Let_def)
qed

lemma copy_out_bytes:
  assumes "kfifo_wf f" and "unat len \<le> cap_n f"
  shows "kfifo_copy_out m f dst len off =
    (let l = first_part f len off;
         m1 = memcpy m dst (kf_data f + of_nat (unat off mod cap_n f * esize_n f)) l
     in memcpy m1 (dst + of_nat l) (kf_data f) (unat len * esize_n f - l))"
proof -
  have "kfifo_copy_out m f dst len off =
     memcpy (memcpy m dst (kf_data f + ucast ((off AND kf_mask f) * kf_esize f)) (unat (chunk f len off)))
       (dst + ucast (chunk f len off)) (kf_data f) (unat (len * kf_esize f - chunk f len off))"
    by (cases "kf_esize f = 1") (simp_all add: kfifo_copy_out_def Let_def chunk_def)
  then show ?thesis by (simp only: chunk_facts [OF assms] Let_def)
qed

lemma copy_in_ring_store:
  assumes wf: "kfifo_wf f" and len: "unat len \<le> cap_n f"
    and disj: "region src (unat len * esize_n f) \<inter> ring_bytes f = {}"
  shows "kfifo_copy_in m f src len off =
         ring_store m (kf_data f) (cap_n f * esize_n f) (unat off mod cap_n f * esize_n f)
           (load m src (unat len * esize_n f))"
proof -
  define n where "n = unat len * esize_n f"
  define l where "l = first_part f len off"
  define q where "q = unat off mod cap_n f * esize_n f"
  define m1 where "m1 = store m (kf_data f + of_nat q) (load m src l)"
  have n: "n \<le> cap_n f * esize_n f" unfolding n_def using len by simp
  have b32: "cap_n f * esize_n f < 2 ^ 32" by (rule wf_bytes [OF wf])
  have l: "l = min n (cap_n f * esize_n f - q)" by (simp add: l_def first_part_def n_def q_def)
  have q: "q < cap_n f * esize_n f" unfolding q_def by (rule copy_quantities(5) [OF wf len])
  have "region (src + of_nat l) (n - l) \<inter> region (kf_data f + of_nat q) l = {}"
  proof -
    have "region (src + of_nat l) (n - l) \<subseteq> region src n"
      using n b32 l by (intro region_shift) auto
    moreover have "region (kf_data f + of_nat q) l \<subseteq> ring_bytes f"
      unfolding ring_bytes_def using b32 q l by (intro region_shift) auto
    ultimately show ?thesis using disj unfolding n_def by blast
  qed
  then have "load m1 (src + of_nat l) (n - l) = load m (src + of_nat l) (n - l)"
    unfolding m1_def using n b32 by (intro load_store_other) auto
  moreover have "take l (load m src n) = load m src l" by (simp add: take_load l)
  ultimately show ?thesis
    unfolding copy_in_bytes [OF wf len] ring_store_def Let_def memcpy_def
    by (simp add: m1_def l flip: n_def q_def l_def) (simp add: drop_load)
qed

lemma copy_in_outside:
  assumes "kfifo_wf f" and "unat len \<le> cap_n f"
    and "region src (unat len * esize_n f) \<inter> ring_bytes f = {}" and "a \<notin> ring_bytes f"
  shows "kfifo_copy_in m f src len off a = m a"
  unfolding copy_in_ring_store [OF assms(1-3)]
  using assms wf_bytes copy_quantities(5) [OF assms(1,2)]
  by (intro ring_store_outside) (auto simp: ring_bytes_def)

text \<open>
  The element-level effect: slot \<open>off + x\<close> holds source element \<open>x\<close> when \<open>x < len\<close>, and what it held
  before otherwise.
\<close>

lemma copy_in_element:
  assumes wf: "kfifo_wf f" and len: "unat len \<le> cap_n f"
    and disj: "region src (unat len * esize_n f) \<inter> ring_bytes f = {}"
    and i: "unat i mod cap_n f = (unat off + x) mod cap_n f" and x: "x < cap_n f"
  shows "load (kfifo_copy_in m f src len off) (slot f i) (esize_n f) =
         (if x < unat len then load m (src + of_nat (x * esize_n f)) (esize_n f)
          else load m (slot f i) (esize_n f))"
proof (rule nth_equalityI)
  fix j
  let ?e = "esize_n f" and ?m' = "kfifo_copy_in m f src len off"
  let ?b = "cap_n f * ?e" and ?q = "unat off mod cap_n f * ?e" and ?bs = "load m src (unat len * ?e)"
  assume "j < length (load ?m' (slot f i) ?e)"
  then have j: "j < ?e" by simp
  have pos: "slot f i + of_nat j = kf_data f + of_nat ((?q + (x * ?e + j)) mod ?b)"
    by (rule slot_byte [OF wf i j])
  have "Suc x * ?e \<le> ?b" using x by (intro mult_le_mono1) simp
  then have "x * ?e + j < ?b" using j by simp
  then have "?m' (slot f i + of_nat j) =
      (if x * ?e + j < unat len * ?e then ?bs ! (x * ?e + j) else m (slot f i + of_nat j))"
    unfolding copy_in_ring_store [OF wf len disj] pos
    using ring_store_at [of ?b ?q ?bs "x * ?e + j" m "kf_data f"] wf_bytes [OF wf] len
      copy_quantities(5) [OF wf len] by simp
  moreover have "x * ?e + j < unat len * ?e \<longleftrightarrow> x < unat len"
  proof
    assume "x * ?e + j < unat len * ?e"
    then have "x * ?e < unat len * ?e" by (rule le_less_trans [OF le_add1])
    then show "x < unat len" by simp
  next
    assume "x < unat len"
    then have "Suc x * ?e \<le> unat len * ?e" by (intro mult_le_mono1) simp
    with j show "x * ?e + j < unat len * ?e" by simp
  qed
  ultimately show "load ?m' (slot f i) ?e ! j =
      (if x < unat len then load m (src + of_nat (x * ?e)) ?e else load m (slot f i) ?e) ! j"
    using j by (simp add: algebra_simps)
qed simp

text \<open>Copying out: destination element \<open>x\<close> is what slot \<open>off + x\<close> holds.\<close>

lemma copy_out_outside:
  assumes wf: "kfifo_wf f" and len: "unat len \<le> cap_n f"
    and "a \<notin> region dst (unat len * esize_n f)"
  shows "kfifo_copy_out m f dst len off a = m a"
proof -
  let ?n = "unat len * esize_n f" and ?l = "first_part f len off"
  have "?n \<le> cap_n f * esize_n f" using len by simp
  then have "?n < 2 ^ 32" using wf_bytes [OF wf] by (rule le_less_trans)
  then have n: "?n \<le> 2 ^ 64" by simp
  have "region (dst + of_nat 0) ?l \<subseteq> region dst ?n"
    using n by (intro region_shift) (auto simp: first_part_def)
  moreover have "region (dst + of_nat ?l) (?n - ?l) \<subseteq> region dst ?n"
    using n by (intro region_shift) (auto simp: first_part_def)
  ultimately have "a \<notin> region dst ?l" "a \<notin> region (dst + of_nat ?l) (?n - ?l)"
    using assms(3) by auto
  then show ?thesis
    unfolding copy_out_bytes [OF wf len] Let_def memcpy_def by (simp add: store_outside)
qed

lemma ring_index_split:
  fixes b q n y :: nat
  assumes "q < b" and "n \<le> b" and "y < n"
  shows "(q + y) mod b = (if min n (b - q) \<le> y then y - min n (b - q) else q + y)"
proof (cases "min n (b - q) \<le> y")
  case True
  then have "min n (b - q) = b - q" and "b \<le> q + y" using assms(3) by auto
  then have "(q + y) mod b = (q + y - b) mod b" and "q + y - b = y - min n (b - q)" and "y - min n (b - q) < b"
    using assms by (auto simp: le_mod_geq)
  with True show ?thesis by simp
next
  case False
  then have "q + y < b" using assms(1) by auto
  with False show ?thesis by simp
qed

lemma copy_out_at:
  assumes wf: "kfifo_wf f" and len: "unat len \<le> cap_n f"
    and disj: "region dst (unat len * esize_n f) \<inter> ring_bytes f = {}"
    and y: "y < unat len * esize_n f"
  shows "kfifo_copy_out m f dst len off (dst + of_nat y) =
         m (kf_data f + of_nat ((unat off mod cap_n f * esize_n f + y) mod (cap_n f * esize_n f)))"
proof -
  define n where "n = unat len * esize_n f"
  define b where "b = cap_n f * esize_n f"
  define q where "q = unat off mod cap_n f * esize_n f"
  define l where "l = min n (b - q)"
  define m1 where "m1 = store m dst (load m (kf_data f + of_nat q) l)"
  have b32: "b < 2 ^ 32" unfolding b_def by (rule wf_bytes [OF wf])
  have n: "n \<le> b" unfolding n_def b_def using len by simp
  have q: "q < b" unfolding q_def b_def by (rule copy_quantities(5) [OF wf len])
  have ln: "l \<le> n" by (simp add: l_def)
  have yn: "y < n" using y by (simp add: n_def)
  have "region (kf_data f) (n - l) \<inter> region dst l = {}"
  proof -
    have "region (kf_data f) (n - l) \<subseteq> ring_bytes f"
      unfolding ring_bytes_def b_def [symmetric] using n by (intro region_mono) simp
    moreover have "region dst l \<subseteq> region dst n" by (intro region_mono) (simp add: l_def)
    ultimately show ?thesis using disj unfolding n_def by blast
  qed
  then have rest: "load m1 (kf_data f) (n - l) = load m (kf_data f) (n - l)"
    unfolding m1_def using n b32 by (intro load_store_other) auto
  have fp: "first_part f len off = l" by (simp add: first_part_def l_def n_def b_def q_def)
  have two: "kfifo_copy_out m f dst len off =
      store m1 (dst + of_nat l) (load m (kf_data f) (n - l))"
    unfolding copy_out_bytes [OF wf len] Let_def memcpy_def fp
    using rest unfolding m1_def n_def q_def by simp
  have "kfifo_copy_out m f dst len off (dst + of_nat y) =
      (if l \<le> y then m (kf_data f + of_nat (y - l)) else m1 (dst + of_nat y))"
    unfolding two using load_store_offset [of y l "load m (kf_data f) (n - l)" m1 dst] yn n b32 ln by simp
  also have "m1 (dst + of_nat y) = (if y < l then m (kf_data f + of_nat (q + y)) else m (dst + of_nat y))"
    unfolding m1_def
    using load_store_offset [of y 0 "load m (kf_data f + of_nat q) l" m dst] yn n b32 ln
    by (simp add: add.assoc)
  also have "(if l \<le> y then m (kf_data f + of_nat (y - l))
       else if y < l then m (kf_data f + of_nat (q + y)) else m (dst + of_nat y))
     = m (kf_data f + of_nat ((q + y) mod b))"
    using ring_index_split [OF q n yn] unfolding l_def [symmetric] by simp
  finally show ?thesis by (simp only: q_def b_def)
qed

lemma copy_out_element:
  assumes wf: "kfifo_wf f" and len: "unat len \<le> cap_n f"
    and disj: "region dst (unat len * esize_n f) \<inter> ring_bytes f = {}" and x: "x < unat len"
  shows "load (kfifo_copy_out m f dst len off) (dst + of_nat (x * esize_n f)) (esize_n f) =
         load m (slot f (off + of_nat x)) (esize_n f)"
proof (rule nth_equalityI)
  fix j
  let ?e = "esize_n f" and ?m' = "kfifo_copy_out m f dst len off"
  assume "j < length (load ?m' (dst + of_nat (x * ?e)) ?e)"
  then have j: "j < ?e" by simp
  have "Suc x * ?e \<le> unat len * ?e" using x by (intro mult_le_mono1) simp
  with j have y: "x * ?e + j < unat len * ?e" by simp
  have "slot f (off + of_nat x) + of_nat j =
      kf_data f + of_nat ((unat off mod cap_n f * ?e + (x * ?e + j)) mod (cap_n f * ?e))"
    by (rule slot_byte [OF wf index_add_mod [OF wf] j])
  then have "?m' (dst + of_nat (x * ?e + j)) = m (slot f (off + of_nat x) + of_nat j)"
    using copy_out_at [OF wf len disj y] by simp
  then show "load ?m' (dst + of_nat (x * ?e)) ?e ! j = load m (slot f (off + of_nat x)) ?e ! j"
    using j by (simp add: algebra_simps)
qed simp

section \<open>The operations as operations of a bounded queue\<close>

lemma unused_eq: "kfifo_unused f = kfifo_avail f"
  by (simp add: kfifo_unused_def kfifo_avail_def kfifo_cap_def kfifo_len_def)

lemma avail_n: "kfifo_wf f \<Longrightarrow> unat (kfifo_avail f) = cap_n f - len_n f"
  by (simp add: kfifo_avail_def kfifo_wf_def unat_sub word_le_nat_alt)

lemma kfifo_in_eq:
  "kfifo_in m f src len =
     (let r = min len (kfifo_avail f)
      in (r, kfifo_copy_in m f src r (kf_in f), f\<lparr>kf_in := kf_in f + r\<rparr>))"
  by (auto simp: kfifo_in_def unused_eq Let_def min_def)

lemma kfifo_out_peek_eq:
  "kfifo_out_peek m f dst len =
     (let r = min len (kfifo_len f) in (r, kfifo_copy_out m f dst r (kf_out f)))"
  by (auto simp: kfifo_out_peek_def kfifo_len_def Let_def min_def)

lemma unat_min: "unat (min a b) = min (unat a) (unat b)" for a b :: u32
  by (simp add: min_def word_le_nat_alt)

text \<open>Changing the indices of a ring leaves its shape alone.\<close>

lemma kf_shape [simp]:
  "kfifo_cap (f\<lparr>kf_in := i\<rparr>) = kfifo_cap f" "kfifo_cap (f\<lparr>kf_out := j\<rparr>) = kfifo_cap f"
  "slot (f\<lparr>kf_in := i\<rparr>) = slot f" "slot (f\<lparr>kf_out := j\<rparr>) = slot f"
  "ring_bytes (f\<lparr>kf_in := i\<rparr>) = ring_bytes f" "ring_bytes (f\<lparr>kf_out := j\<rparr>) = ring_bytes f"
  by (auto simp: kfifo_cap_def slot_def ring_bytes_def fun_eq_iff)

lemma push_len:
  assumes "kfifo_wf f" and "unat r \<le> cap_n f - len_n f"
  shows "len_n (f\<lparr>kf_in := kf_in f + r\<rparr>) = len_n f + unat r"
proof -
  have "len_n f + unat r \<le> cap_n f" using assms wf_len by fastforce
  then have "len_n f + unat r < 2 ^ 32" using unat_u32_less [of "kfifo_cap f"] by linarith
  then have "unat (kfifo_len f + r) = len_n f + unat r"
    using unat_add_lem [of "kfifo_len f" r] by simp
  then show ?thesis by (simp add: kfifo_len_def algebra_simps)
qed

lemma pop_len:
  assumes "unat r \<le> len_n f"
  shows "len_n (f\<lparr>kf_out := kf_out f + r\<rparr>) = len_n f - unat r"
proof -
  have "unat (kfifo_len f - r) = len_n f - unat r"
    using assms by (simp add: unat_sub word_le_nat_alt)
  then show ?thesis by (simp add: kfifo_len_def algebra_simps)
qed

lemma wf_push:
  "kfifo_wf f \<Longrightarrow> unat r \<le> cap_n f - len_n f \<Longrightarrow> kfifo_wf (f\<lparr>kf_in := kf_in f + r\<rparr>)"
  using push_len [of f r] by (auto simp: kfifo_wf_def word_le_nat_alt)

lemma wf_pop: "kfifo_wf f \<Longrightarrow> unat r \<le> len_n f \<Longrightarrow> kfifo_wf (f\<lparr>kf_out := kf_out f + r\<rparr>)"
  using pop_len [of r f] by (auto simp: kfifo_wf_def word_le_nat_alt)

text \<open>Index \<open>out + k\<close> of a stored element, seen from the write index.\<close>

lemma stored_index:
  assumes wf: "kfifo_wf f" and k: "k < len_n f"
  shows "unat (kf_out f + of_nat k) mod cap_n f =
         (unat (kf_in f) + (cap_n f - len_n f + k)) mod cap_n f"
proof -
  have "kf_in f = kf_out f + of_nat (len_n f)" by (simp add: kfifo_len_def)
  then have "unat (kf_in f) mod cap_n f = (unat (kf_out f) + len_n f) mod cap_n f"
    using index_add_mod [OF wf] by metis
  then have "(unat (kf_in f) + (cap_n f - len_n f + k)) mod cap_n f
      = (unat (kf_out f) + len_n f + (cap_n f - len_n f + k)) mod cap_n f"
    by (metis mod_add_left_eq)
  also have "unat (kf_out f) + len_n f + (cap_n f - len_n f + k) = (unat (kf_out f) + k) + cap_n f"
    using wf_len [OF wf] by simp
  finally show ?thesis by (simp add: index_add_mod [OF wf])
qed

lemma push_contents:
  assumes wf: "kfifo_wf f" and r: "unat r \<le> cap_n f - len_n f"
    and disj: "region src (unat r * esize_n f) \<inter> ring_bytes f = {}"
  shows "kfifo_contents (kfifo_copy_in m f src r (kf_in f)) (f\<lparr>kf_in := kf_in f + r\<rparr>) =
         kfifo_contents m f @ elements_at m src (esize_n f) (unat r)"
proof (rule nth_equalityI)
  have rc: "unat r \<le> cap_n f" using r by simp
  note elem = copy_in_element [OF wf rc disj, where off = "kf_in f" and m = m]
  fix k
  assume "k < length (kfifo_contents (kfifo_copy_in m f src r (kf_in f)) (f\<lparr>kf_in := kf_in f + r\<rparr>))"
  then have k: "k < len_n f + unat r" by (simp add: push_len [OF wf r])
  show "kfifo_contents (kfifo_copy_in m f src r (kf_in f)) (f\<lparr>kf_in := kf_in f + r\<rparr>) ! k =
        (kfifo_contents m f @ elements_at m src (esize_n f) (unat r)) ! k"
  proof (cases "k < len_n f")
    case True
    have "cap_n f - len_n f + k < cap_n f" and "\<not> cap_n f - len_n f + k < unat r"
      using True r wf_len [OF wf] by auto
    with elem [OF stored_index [OF wf True]] True k show ?thesis
      by (simp add: kfifo_contents_def push_len [OF wf r] nth_append)
  next
    case False
    then obtain x where kx: "k = len_n f + x" using le_Suc_ex not_less by blast
    with k have xr: "x < unat r" by simp
    have idx: "kf_out f + of_nat k = kf_in f + of_nat x"
      by (simp add: kx kfifo_len_def)
    have "kfifo_contents (kfifo_copy_in m f src r (kf_in f)) (f\<lparr>kf_in := kf_in f + r\<rparr>) ! k =
        load (kfifo_copy_in m f src r (kf_in f)) (slot f (kf_out f + of_nat k)) (esize_n f)"
      using k by (simp add: kfifo_contents_def push_len [OF wf r])
    also have "\<dots> = load m (src + of_nat (x * esize_n f)) (esize_n f)"
      using elem [OF index_add_mod [OF wf, of "kf_in f" x]] xr rc unfolding idx by simp
    also have "\<dots> = (kfifo_contents m f @ elements_at m src (esize_n f) (unat r)) ! k"
      using xr by (simp add: kx nth_append elements_at_def)
    finally show ?thesis .
  qed
qed (simp add: push_len [OF wf r])

lemma pop_contents:
  assumes r: "unat r \<le> len_n f"
  shows "kfifo_contents m (f\<lparr>kf_out := kf_out f + r\<rparr>) = drop (unat r) (kfifo_contents m f)"
proof (rule nth_equalityI)
  show "length (kfifo_contents m (f\<lparr>kf_out := kf_out f + r\<rparr>)) = length (drop (unat r) (kfifo_contents m f))"
    using pop_len [OF r] by simp
next
  fix k assume "k < length (kfifo_contents m (f\<lparr>kf_out := kf_out f + r\<rparr>))"
  then have k: "k < len_n f - unat r" using pop_len [OF r] by simp
  then have "kfifo_contents m (f\<lparr>kf_out := kf_out f + r\<rparr>) ! k =
      load m (slot f (kf_out f + of_nat (unat r + k))) (esize_n f)"
    unfolding kfifo_contents_def pop_len [OF r] by (simp add: add.assoc)
  also have "\<dots> = drop (unat r) (kfifo_contents m f) ! k"
    using k less_diff_conv [of k "len_n f" "unat r"] unfolding kfifo_contents_def by (simp add: add.commute)
  finally show "kfifo_contents m (f\<lparr>kf_out := kf_out f + r\<rparr>) ! k = drop (unat r) (kfifo_contents m f) ! k" .
qed

lemma peek_elements:
  assumes wf: "kfifo_wf f" and r: "unat r \<le> len_n f"
    and disj: "region dst (unat r * esize_n f) \<inter> ring_bytes f = {}"
  shows "elements_at (kfifo_copy_out m f dst r (kf_out f)) dst (esize_n f) (unat r) =
         take (unat r) (kfifo_contents m f)"
proof -
  have "unat r \<le> cap_n f" using r wf_len [OF wf] by simp
  from copy_out_element [OF wf this disj] r show ?thesis
    by (intro nth_equalityI) (auto simp: elements_at_def kfifo_contents_def)
qed

section \<open>The queue interface\<close>

text \<open>
  What a client of the ring may rely on.  States carry a queue of \<open>items\<close>; \<open>offered s a n\<close> is the
  array of \<open>n\<close> elements at the caller's address \<open>a\<close>, \<open>usable s a n\<close> says that this array lies outside
  the queue's own storage.  \<open>enq\<close> takes as many of the offered elements as fit, \<open>deq\<close> hands out as
  many as there are, and each returns the number it moved.
\<close>

locale bounded_queue =
  fixes good :: "'s \<Rightarrow> bool" and bound :: "'s \<Rightarrow> nat" and items :: "'s \<Rightarrow> 'e list"
    and usable :: "'s \<Rightarrow> 'a \<Rightarrow> nat \<Rightarrow> bool" and offered :: "'s \<Rightarrow> 'a \<Rightarrow> nat \<Rightarrow> 'e list"
    and enq :: "'s \<Rightarrow> 'a \<Rightarrow> nat \<Rightarrow> nat \<times> 's" and deq :: "'s \<Rightarrow> 'a \<Rightarrow> nat \<Rightarrow> nat \<times> 's"
  assumes items_bound: "good s \<Longrightarrow> length (items s) \<le> bound s"
    and enq_count: "good s \<Longrightarrow> usable s a n \<Longrightarrow> fst (enq s a n) = min n (bound s - length (items s))"
    and enq_items: "good s \<Longrightarrow> usable s a n \<Longrightarrow>
          items (snd (enq s a n)) = items s @ take (fst (enq s a n)) (offered s a n)"
    and enq_good: "good s \<Longrightarrow> usable s a n \<Longrightarrow> good (snd (enq s a n))"
    and enq_usable: "good s \<Longrightarrow> usable s a n \<Longrightarrow> usable (snd (enq s a n)) b k = usable s b k"
    and deq_count: "good s \<Longrightarrow> usable s a n \<Longrightarrow> fst (deq s a n) = min n (length (items s))"
    and deq_items: "good s \<Longrightarrow> usable s a n \<Longrightarrow>
          items (snd (deq s a n)) = drop (fst (deq s a n)) (items s)"
    and deq_offered: "good s \<Longrightarrow> usable s a n \<Longrightarrow>
          offered (snd (deq s a n)) a (fst (deq s a n)) = take (fst (deq s a n)) (items s)"
    and deq_good: "good s \<Longrightarrow> usable s a n \<Longrightarrow> good (snd (deq s a n))"
    and deq_usable: "good s \<Longrightarrow> usable s a n \<Longrightarrow> usable (snd (deq s a n)) b k = usable s b k"

text \<open>A sequence of calls: what went in, what came out, and the final state.\<close>

datatype 'a queue_call = Enq 'a nat | Deq 'a nat

fun call_buffer :: "'a queue_call \<Rightarrow> 'a \<times> nat" where
  "call_buffer (Enq a n) = (a, n)"
| "call_buffer (Deq a n) = (a, n)"

fun queue_trace ::
  "('s \<Rightarrow> 'a \<Rightarrow> nat \<Rightarrow> nat \<times> 's) \<Rightarrow> ('s \<Rightarrow> 'a \<Rightarrow> nat \<Rightarrow> nat \<times> 's) \<Rightarrow> ('s \<Rightarrow> 'a \<Rightarrow> nat \<Rightarrow> 'e list)
   \<Rightarrow> 's \<Rightarrow> 'a queue_call list \<Rightarrow> 'e list \<times> 'e list \<times> 's" where
  "queue_trace enq deq offered s [] = ([], [], s)"
| "queue_trace enq deq offered s (Enq a n # cs) =
     (let (r, s') = enq s a n; (ins, outs, s'') = queue_trace enq deq offered s' cs
      in (take r (offered s a n) @ ins, outs, s''))"
| "queue_trace enq deq offered s (Deq a n # cs) =
     (let (r, s') = deq s a n; (ins, outs, s'') = queue_trace enq deq offered s' cs
      in (ins, offered s' a r @ outs, s''))"

context bounded_queue
begin

lemma trace_fifo:
  assumes "good s" and "\<forall>c\<in>set cs. usable s (fst (call_buffer c)) (snd (call_buffer c))"
    and "queue_trace enq deq offered s cs = (ins, outs, s')"
  shows "items s @ ins = outs @ items s' \<and> good s'"
  using assms
proof (induction cs arbitrary: s ins outs s')
  case Nil
  then show ?case by auto
next
  case (Cons c cs)
  show ?case
  proof (cases c)
    case (Enq a n)
    obtain ins' outs' s2 where rest: "queue_trace enq deq offered (snd (enq s a n)) cs = (ins', outs', s2)"
      by (metis prod_cases3)
    have u: "usable s a n" using Cons.prems Enq by auto
    have "items (snd (enq s a n)) @ ins' = outs' @ items s2 \<and> good s2"
      using Cons.prems u enq_usable [OF Cons.prems(1) u]
      by (intro Cons.IH [OF enq_good [OF Cons.prems(1) u] _ rest]) auto
    moreover have "ins = take (fst (enq s a n)) (offered s a n) @ ins'" "outs = outs'" "s' = s2"
      using Cons.prems(3) rest Enq by (auto simp: case_prod_beta Let_def)
    ultimately show ?thesis using enq_items [OF Cons.prems(1) u] by simp
  next
    case (Deq a n)
    obtain ins' outs' s2 where rest: "queue_trace enq deq offered (snd (deq s a n)) cs = (ins', outs', s2)"
      by (metis prod_cases3)
    have u: "usable s a n" using Cons.prems Deq by auto
    have IH: "items (snd (deq s a n)) @ ins' = outs' @ items s2 \<and> good s2"
      using Cons.prems u deq_usable [OF Cons.prems(1) u]
      by (intro Cons.IH [OF deq_good [OF Cons.prems(1) u] _ rest]) auto
    have eqs: "ins = ins'" "outs = take (fst (deq s a n)) (items s) @ outs'" "s' = s2"
      using Cons.prems(3) rest Deq deq_offered [OF Cons.prems(1) u]
      by (auto simp: case_prod_beta Let_def)
    have "items s @ ins' = take (fst (deq s a n)) (items s) @ items (snd (deq s a n)) @ ins'"
      using deq_items [OF Cons.prems(1) u] by simp
    with IH eqs show ?thesis by simp
  qed
qed

lemma enq_deq_roundtrip:
  assumes "good s" and "items s = []" and "n \<le> bound s" and "usable s a n" and "usable s b n"
    and "length (offered s a n) = n"
  shows "offered (snd (deq (snd (enq s a n)) b n)) b n = offered s a n"
    and "items (snd (deq (snd (enq s a n)) b n)) = []"
proof -
  let ?s1 = "snd (enq s a n)"
  have n: "fst (enq s a n) = n" using enq_count [OF assms(1,4)] assms(2,3) by simp
  then have it: "items ?s1 = offered s a n" using enq_items [OF assms(1,4)] assms(2,6) by simp
  have g: "good ?s1" by (rule enq_good [OF assms(1,4)])
  have u: "usable ?s1 b n" using enq_usable [OF assms(1,4)] assms(5) by simp
  have "fst (deq ?s1 b n) = n" using deq_count [OF g u] it assms(6) by simp
  then show "offered (snd (deq ?s1 b n)) b n = offered s a n" and "items (snd (deq ?s1 b n)) = []"
    using deq_offered [OF g u] deq_items [OF g u] it assms(6) by simp_all
qed

end

section \<open>The ring implements the interface\<close>

type_synonym ring_state = "mem \<times> kfifo"

fun kf_good :: "ring_state \<Rightarrow> bool" where "kf_good (m, f) = kfifo_wf f"
fun kf_bound :: "ring_state \<Rightarrow> nat" where "kf_bound (m, f) = cap_n f"
fun kf_items :: "ring_state \<Rightarrow> u8 list list" where "kf_items (m, f) = kfifo_contents m f"

fun kf_usable :: "ring_state \<Rightarrow> u64 \<Rightarrow> nat \<Rightarrow> bool" where
  "kf_usable (m, f) a n \<longleftrightarrow> n < 2 ^ 32 \<and> region a (n * esize_n f) \<inter> ring_bytes f = {}"

fun kf_offered :: "ring_state \<Rightarrow> u64 \<Rightarrow> nat \<Rightarrow> u8 list list" where
  "kf_offered (m, f) a n = elements_at m a (esize_n f) n"

fun kf_enq :: "ring_state \<Rightarrow> u64 \<Rightarrow> nat \<Rightarrow> nat \<times> ring_state" where
  "kf_enq (m, f) a n = (let (r, m', f') = kfifo_in m f a (of_nat n) in (unat r, m', f'))"

fun kf_deq :: "ring_state \<Rightarrow> u64 \<Rightarrow> nat \<Rightarrow> nat \<times> ring_state" where
  "kf_deq (m, f) a n = (let (r, m', f') = kfifo_out m f a (of_nat n) in (unat r, m', f'))"

lemma usable_sub: "kf_usable (m, f) a n \<Longrightarrow> k \<le> n \<Longrightarrow> region a (k * esize_n f) \<inter> ring_bytes f = {}"
  using region_mono [of "k * esize_n f" "n * esize_n f" a] by auto

lemma take_elements_at: "k \<le> n \<Longrightarrow> take k (elements_at m a e n) = elements_at m a e k"
  by (simp add: elements_at_def take_map)

lemma kf_enq_facts:
  assumes wf: "kfifo_wf f" and us: "kf_usable (m, f) a n"
  shows "\<exists>r m'. kf_enq (m, f) a n = (unat r, m', f\<lparr>kf_in := kf_in f + r\<rparr>) \<and>
     unat r = min n (cap_n f - len_n f) \<and>
     kfifo_contents m' (f\<lparr>kf_in := kf_in f + r\<rparr>) = kfifo_contents m f @ elements_at m a (esize_n f) (unat r) \<and>
     kfifo_wf (f\<lparr>kf_in := kf_in f + r\<rparr>) \<and> (\<forall>b. b \<notin> ring_bytes f \<longrightarrow> m' b = m b)"
proof -
  define r where "r = min (of_nat n) (kfifo_avail f)"
  have r: "unat r = min n (cap_n f - len_n f)"
    using us by (simp add: r_def unat_min avail_n [OF wf] unat_of_nat_u32)
  then have le: "unat r \<le> cap_n f - len_n f" and rc: "unat r \<le> cap_n f" and rn: "unat r \<le> n" by simp_all
  note disj = usable_sub [OF us rn]
  have "kf_enq (m, f) a n = (unat r, kfifo_copy_in m f a r (kf_in f), f\<lparr>kf_in := kf_in f + r\<rparr>)"
    by (simp add: kfifo_in_eq r_def Let_def)
  with r push_contents [OF wf le disj] wf_push [OF wf le] copy_in_outside [OF wf rc disj]
  show ?thesis by blast
qed

lemma kf_deq_facts:
  assumes wf: "kfifo_wf f" and us: "kf_usable (m, f) a n"
  shows "\<exists>r m'. kf_deq (m, f) a n = (unat r, m', f\<lparr>kf_out := kf_out f + r\<rparr>) \<and>
     unat r = min n (len_n f) \<and>
     kfifo_contents m' (f\<lparr>kf_out := kf_out f + r\<rparr>) = drop (unat r) (kfifo_contents m f) \<and>
     elements_at m' a (esize_n f) (unat r) = take (unat r) (kfifo_contents m f) \<and>
     kfifo_wf (f\<lparr>kf_out := kf_out f + r\<rparr>) \<and>
     (\<forall>b. b \<notin> region a (unat r * esize_n f) \<longrightarrow> m' b = m b)"
proof -
  define r where "r = min (of_nat n) (kfifo_len f)"
  let ?m' = "kfifo_copy_out m f a r (kf_out f)"
  have r: "unat r = min n (len_n f)"
    using us by (simp add: r_def unat_min unat_of_nat_u32)
  then have le: "unat r \<le> len_n f" and rn: "unat r \<le> n" by simp_all
  have rc: "unat r \<le> cap_n f" using le wf_len [OF wf] by simp
  note disj = usable_sub [OF us rn]
  have out: "\<forall>b. b \<notin> region a (unat r * esize_n f) \<longrightarrow> ?m' b = m b"
    using copy_out_outside [OF wf rc] by blast
  have same: "kfifo_contents ?m' f = kfifo_contents m f"
  proof -
    have "load ?m' (slot f i) (esize_n f) = load m (slot f i) (esize_n f)" for i
      using slot_in_ring [OF wf] disj out by (intro load_cong) blast
    then show ?thesis unfolding kfifo_contents_def by simp
  qed
  have "kf_deq (m, f) a n = (unat r, ?m', f\<lparr>kf_out := kf_out f + r\<rparr>)"
    by (simp add: kfifo_out_def kfifo_out_peek_eq r_def Let_def)
  moreover have "kfifo_contents ?m' (f\<lparr>kf_out := kf_out f + r\<rparr>) = drop (unat r) (kfifo_contents m f)"
    using pop_contents [OF le, of ?m'] same by simp
  ultimately show ?thesis
    using r peek_elements [OF wf le disj, of m] wf_pop [OF wf le] out by blast
qed

interpretation ring: bounded_queue kf_good kf_bound kf_items kf_usable kf_offered kf_enq kf_deq
proof
  fix s :: ring_state and a b :: u64 and n k :: nat
  obtain m f where s: "s = (m, f)" by (cases s)
  assume "kf_good s"
  then have wf: "kfifo_wf f" using s by simp
  show "length (kf_items s) \<le> kf_bound s" using wf_len [OF wf] s by simp
  assume "kf_usable s a n"
  then have us: "kf_usable (m, f) a n" using s by simp
  note e = kf_enq_facts [OF wf us] and d = kf_deq_facts [OF wf us]
  show "fst (kf_enq s a n) = min n (kf_bound s - length (kf_items s))" using e s by auto
  show "kf_items (snd (kf_enq s a n)) = kf_items s @ take (fst (kf_enq s a n)) (kf_offered s a n)"
    using e s by (auto simp: take_elements_at)
  show "kf_good (snd (kf_enq s a n))" using e s by auto
  show "kf_usable (snd (kf_enq s a n)) b k = kf_usable s b k" using e s by auto
  show "fst (kf_deq s a n) = min n (length (kf_items s))" using d s by auto
  show "kf_items (snd (kf_deq s a n)) = drop (fst (kf_deq s a n)) (kf_items s)" using d s by auto
  show "kf_offered (snd (kf_deq s a n)) a (fst (kf_deq s a n)) = take (fst (kf_deq s a n)) (kf_items s)"
    using d s by auto
  show "kf_good (snd (kf_deq s a n))" using d s by auto
  show "kf_usable (snd (kf_deq s a n)) b k = kf_usable s b k" using d s by auto
qed

section \<open>Initialisation\<close>

lemma init_count:
  fixes sz :: u32 and esize :: u64
  shows "unat (ucast (ucast sz div esize :: u64) :: u32) = unat sz div unat esize"
proof -
  have eq: "unat (ucast sz div esize :: u64) = unat sz div unat esize" by (simp add: unat_div)
  have "unat sz div unat esize < 2 ^ 32"
    using div_le_dividend [of "unat sz" "unat esize"] unat_u32_less [of sz] by (rule le_less_trans)
  then show ?thesis using unat_ucast_u64_u32 [of "ucast sz div esize"] eq by simp
qed

text \<open>The capacity \<open>__kfifo_init\<close> settles on.\<close>

definition rounded :: "u32 \<Rightarrow> u32" where
  "rounded w = (if \<not> is_power_of_2 w then roundup_pow_of_two w else w)"

lemma rounded_power:
  assumes "2 \<le> unat w" and "unat w \<le> 2 ^ 31"
  obtains k where "k < 32" and "rounded w = 2 ^ k" and "unat w \<le> 2 ^ k" and "2 ^ k < 2 * unat w"
    and "is_power_of_2 w \<longleftrightarrow> unat w = 2 ^ k"
proof (cases "is_power_of_2 w")
  case True
  with assms obtain k where "k < 32" "unat w = 2 ^ k" by (auto simp: is_power_of_2_iff)
  then show ?thesis using that [of k] True assms
    by (simp add: rounded_def word_unat_eq_iff unat_power_u32)
next
  case False
  from assms have "0 < unat w" by simp
  then obtain k where k: "k < 32" "roundup_pow_of_two w = 2 ^ k" "unat w \<le> 2 ^ k" "2 ^ k < 2 * unat w"
    using assms(2) by (rule roundup_cases)
  then show ?thesis using that [of k] False by (auto simp: rounded_def is_power_of_2_iff)
qed

lemma rounded_failure:
  assumes "unat w < 2 \<or> 2 ^ 31 < unat w"
  shows "rounded w < 2"
proof (cases "unat w < 2")
  case True
  then have "w = 0 \<or> unat w = 2 ^ 0" by (auto simp: less_2_cases_iff unat_eq_zero)
  then have "is_power_of_2 w" unfolding is_power_of_2_iff by (metis zero_less_numeral)
  with True show ?thesis by (simp add: rounded_def word_less_nat_alt)
next
  case False
  with assms have big: "2 ^ 31 < unat w" by simp
  have "\<not> is_power_of_2 w"
  proof
    assume "is_power_of_2 w"
    with big obtain k where "k < 32" "unat w = 2 ^ k" by (auto simp: is_power_of_2_iff)
    with big have "(2::nat) ^ 31 < 2 ^ k" by simp
    then have "31 < k" by (simp only: pow2_less_iff)
    with \<open>k < 32\<close> show False by simp
  qed
  with big show ?thesis by (simp add: rounded_def roundup_big)
qed

lemma init_eq:
  assumes "esize \<noteq> 0"
  shows "kfifo_init f buffer sz esize =
    (let c = rounded (ucast (ucast sz div esize :: u64));
         f0 = f\<lparr>kf_in := 0, kf_out := 0, kf_esize := ucast esize, kf_data := buffer\<rparr>
     in if c < 2 then Some (-1, f0\<lparr>kf_mask := 0\<rparr>) else Some (0, f0\<lparr>kf_mask := c - 1\<rparr>))"
  using assms by (simp add: kfifo_init_def rounded_def Let_def)

lemma init_success:
  assumes es: "esize \<noteq> 0" and n: "2 \<le> unat sz div unat esize" "unat sz div unat esize \<le> 2 ^ 31"
  obtains f' k where "kfifo_init f buffer sz esize = Some (0, f')" and "k < 32"
    and "cap_n f' = 2 ^ k" and "unat sz div unat esize \<le> 2 ^ k" and "2 ^ k < 2 * (unat sz div unat esize)"
    and "is_power_of_2 (of_nat (unat sz div unat esize)) \<longleftrightarrow> unat sz div unat esize = 2 ^ k"
    and "esize_n f' = unat esize" and "kf_in f' = 0" and "kf_out f' = 0" and "kf_data f' = buffer"
proof -
  define w where "w = (ucast (ucast sz div esize :: u64) :: u32)"
  have w: "unat w = unat sz div unat esize" unfolding w_def by (rule init_count)
  obtain k where k: "k < 32" "rounded w = 2 ^ k" "unat w \<le> 2 ^ k" "2 ^ k < 2 * unat w"
      "is_power_of_2 w \<longleftrightarrow> unat w = 2 ^ k"
    using rounded_power [of w] n w by metis
  have u: "unat (rounded w) = 2 ^ k" using k by (simp add: unat_power_u32)
  then have ge: "\<not> rounded w < 2" using k n w by (simp add: word_less_nat_alt)
  have "unat esize \<le> unat sz" using n by (metis div_less not_le not_numeral_le_zero)
  then have e: "unat (ucast esize :: u32) = unat esize"
    using unat_u32_less [of sz] by (intro unat_ucast_u64_u32) linarith
  define f' where "f' = f\<lparr>kf_in := 0, kf_out := 0, kf_esize := ucast esize, kf_data := buffer,
                          kf_mask := rounded w - 1\<rparr>"
  have "kfifo_init f buffer sz esize = Some (0, f')"
    using ge by (simp add: init_eq [OF es] w_def [symmetric] f'_def Let_def)
  moreover have "cap_n f' = 2 ^ k" using u by (simp add: f'_def kfifo_cap_def)
  moreover have "of_nat (unat sz div unat esize) = w" unfolding w [symmetric] by simp
  ultimately show ?thesis using that [of f' k] k e w by (simp add: f'_def)
qed

lemma init_failure:
  assumes es: "esize \<noteq> 0" and "unat sz div unat esize < 2 \<or> 2 ^ 31 < unat sz div unat esize"
  shows "\<exists>f'. kfifo_init f buffer sz esize = Some (-1, f') \<and> kf_mask f' = 0"
  using rounded_failure [of "ucast (ucast sz div esize :: u64)"] assms(2)
  by (simp add: init_eq [OF es] init_count Let_def)

section \<open>Properties of the ring\<close>

text \<open>
  A concrete ring for the witnesses: eight two-byte slots at address 8192, with both free-running
  indices close to their 32-bit wrap-around and three elements stored across it; the memory holds
  its own addresses.
\<close>

definition sample_ring :: kfifo where
  "sample_ring = \<lparr>kf_in = 1, kf_out = 4294967294, kf_mask = 7, kf_esize = 2, kf_data = 8192\<rparr>"

definition sample_mem :: mem where
  "sample_mem = (\<lambda>a. ucast a)"

lemma sample_ring_wf: "kfifo_wf sample_ring"
  by (simp add: kfifo_wf_def sample_ring_def kfifo_cap_def kfifo_len_def is_power_of_2_def)

lemma sample_ring_apart: "n \<le> 4096 \<Longrightarrow> region 4096 n \<inter> ring_bytes sample_ring = {}"
  unfolding ring_bytes_def
  by (rule regions_apart [where d = 4096]) (simp_all add: sample_ring_def kfifo_cap_def)

text \<open>
  C1: \<open>__kfifo_in\<close> refines enqueueing on a bounded list.  For every well-formed ring (any element
  size, any position of the 32-bit indices, wrap-around included) and a source array outside the
  ring's storage it accepts as many of the offered elements as there are free slots, returns that
  number, appends exactly those elements in order, keeps the ring well-formed, does not move the
  read index and writes no byte outside the ring's storage.
\<close>

theorem kfifo_in_refines_enqueue:
  assumes "kfifo_wf f" and "region src (unat len * esize_n f) \<inter> ring_bytes f = {}"
    and "kfifo_in m f src len = (r, m', f')"
  shows "unat r = min (unat len) (cap_n f - len_n f) \<and>
     kfifo_contents m' f' = kfifo_contents m f @ elements_at m src (esize_n f) (unat r) \<and>
     kfifo_wf f' \<and> kf_out f' = kf_out f \<and> (\<forall>a. a \<notin> ring_bytes f \<longrightarrow> m' a = m a)"
proof -
  have "kf_usable (m, f) src (unat len)" using assms(2) unat_u32_less [of len] by simp
  from kf_enq_facts [OF assms(1) this] assms(3) show ?thesis by auto
qed

theorem kfifo_in_refines_enqueue_witness:
  "unat (fst (kfifo_in sample_mem sample_ring 4096 9)) = 5 \<and>
   kfifo_wf (snd (snd (kfifo_in sample_mem sample_ring 4096 9)))"
proof -
  obtain r m' f' where eq: "kfifo_in sample_mem sample_ring 4096 9 = (r, m', f')"
    by (metis prod_cases3)
  have "unat r = 5 \<and> kfifo_wf f'"
    using kfifo_in_refines_enqueue [OF sample_ring_wf _ eq]
      sample_ring_apart [of "unat (9 :: u32) * esize_n sample_ring"]
    by (simp add: sample_ring_def kfifo_cap_def kfifo_len_def)
  with eq show ?thesis by simp
qed

text \<open>
  C2: \<open>__kfifo_out\<close> refines dequeueing.  It returns the smaller of the requested count and the
  number of stored elements, copies exactly the oldest elements in order to the destination, removes
  them from the queue, keeps the ring well-formed and writes nothing outside the destination array
  of that many elements.
\<close>

theorem kfifo_out_refines_dequeue:
  assumes "kfifo_wf f" and "region dst (unat len * esize_n f) \<inter> ring_bytes f = {}"
    and "kfifo_out m f dst len = (r, m', f')"
  shows "unat r = min (unat len) (len_n f) \<and>
     elements_at m' dst (esize_n f) (unat r) = take (unat r) (kfifo_contents m f) \<and>
     kfifo_contents m' f' = drop (unat r) (kfifo_contents m f) \<and>
     kfifo_wf f' \<and> kf_in f' = kf_in f \<and>
     (\<forall>a. a \<notin> region dst (unat r * esize_n f) \<longrightarrow> m' a = m a)"
proof -
  have "kf_usable (m, f) dst (unat len)" using assms(2) unat_u32_less [of len] by simp
  from kf_deq_facts [OF assms(1) this] assms(3) show ?thesis by auto
qed

theorem kfifo_out_refines_dequeue_witness:
  "unat (fst (kfifo_out sample_mem sample_ring 4096 2)) = 2 \<and>
   kfifo_wf (snd (snd (kfifo_out sample_mem sample_ring 4096 2)))"
proof -
  obtain r m' f' where eq: "kfifo_out sample_mem sample_ring 4096 2 = (r, m', f')"
    by (metis prod_cases3)
  have "unat r = 2 \<and> kfifo_wf f'"
    using kfifo_out_refines_dequeue [OF sample_ring_wf _ eq]
      sample_ring_apart [of "unat (2 :: u32) * esize_n sample_ring"]
    by (simp add: sample_ring_def kfifo_cap_def kfifo_len_def)
  with eq show ?thesis by simp
qed

text \<open>
  C3: First in, first out over whole executions.  For any sequence of \<open>__kfifo_in\<close> and \<open>__kfifo_out\<close>
  calls on buffers outside the ring, what was stored at the start followed by everything accepted
  equals everything handed out followed by what is stored at the end: no element is lost,
  duplicated, invented or reordered, however often the indices wrap.
\<close>

theorem kfifo_trace_is_fifo:
  assumes "kfifo_wf f" and "\<forall>c\<in>set cs. kf_usable (m, f) (fst (call_buffer c)) (snd (call_buffer c))"
    and "queue_trace kf_enq kf_deq kf_offered (m, f) cs = (ins, outs, m', f')"
  shows "kfifo_contents m f @ ins = outs @ kfifo_contents m' f' \<and> kfifo_wf f'"
  using ring.trace_fifo [of "(m, f)" cs ins outs "(m', f')"] assms by simp

theorem kfifo_trace_is_fifo_witness:
  "\<exists>ins outs m' f'.
     queue_trace kf_enq kf_deq kf_offered (sample_mem, sample_ring) [Enq 4096 3, Deq 4096 5] = (ins, outs, m', f') \<and>
     kfifo_contents sample_mem sample_ring @ ins = outs @ kfifo_contents m' f'"
proof -
  obtain ins outs m' f' where eq:
    "queue_trace kf_enq kf_deq kf_offered (sample_mem, sample_ring) [Enq 4096 3, Deq 4096 5] = (ins, outs, m', f')"
    by (metis prod_cases4)
  have "\<forall>c\<in>set [Enq 4096 3, Deq 4096 5 :: u64 queue_call].
      kf_usable (sample_mem, sample_ring) (fst (call_buffer c)) (snd (call_buffer c))"
    using sample_ring_apart [of 6] sample_ring_apart [of 10] by (simp add: sample_ring_def)
  with kfifo_trace_is_fifo [OF sample_ring_wf _ eq] eq show ?thesis by blast
qed

text \<open>
  \<open>roundup_pow_of_two\<close> computes the least power of two that is at least its argument for every
  argument from 1 to \<open>2 ^ 31\<close>, and wraps to 0 beyond.
\<close>

theorem roundup_least_power:
  "(1 \<le> unat v \<and> unat v \<le> 2 ^ 31 \<longrightarrow>
     (\<exists>k<32. unat (roundup_pow_of_two v) = 2 ^ k \<and> unat v \<le> 2 ^ k \<and>
        (\<forall>j. unat v \<le> 2 ^ j \<longrightarrow> k \<le> j))) \<and>
   (2 ^ 31 < unat v \<longrightarrow> roundup_pow_of_two v = 0)"
proof (intro conjI impI)
  assume v: "1 \<le> unat v \<and> unat v \<le> 2 ^ 31"
  then obtain k where k: "k < 32" "roundup_pow_of_two v = 2 ^ k" "unat v \<le> 2 ^ k" "2 ^ k < 2 * unat v"
    using roundup_cases [of v] by (metis One_nat_def Suc_le_eq)
  have "k \<le> j" if "unat v \<le> 2 ^ j" for j
  proof -
    have "(2::nat) ^ k < 2 * 2 ^ j" using k(4) that by linarith
    then have "(2::nat) ^ k < 2 ^ Suc j" by simp
    then have "k < Suc j" by (simp only: pow2_less_iff)
    then show ?thesis by simp
  qed
  with k show "\<exists>k<32. unat (roundup_pow_of_two v) = 2 ^ k \<and> unat v \<le> 2 ^ k \<and> (\<forall>j. unat v \<le> 2 ^ j \<longrightarrow> k \<le> j)"
    by (metis unat_power_u32)
qed (rule roundup_big)

theorem roundup_least_power_witness:
  "(\<exists>k<32. unat (roundup_pow_of_two 4097) = 2 ^ k \<and> 4097 \<le> (2::nat) ^ k) \<and>
   roundup_pow_of_two 2147483649 = 0"
  using roundup_least_power [of 4097] roundup_least_power [of 2147483649] by auto

text \<open>
  C22: \<open>__kfifo_init\<close> on every input.  With a non-zero element size, \<open>n = size / esize\<close> elements between
  2 and \<open>2 ^ 31\<close> give return code 0 and an empty ring whose capacity is the power of two \<open>2 ^ k\<close> with
  \<open>n \<le> 2 ^ k < 2 n\<close>, well-formed as soon as its byte size stays below \<open>2 ^ 32\<close>; any other \<open>n\<close> gives -1
  with a zero mask; a zero element size is a division by zero.
\<close>

theorem kfifo_init_establishes:
  "(esize = 0 \<longrightarrow> kfifo_init f buffer sz esize = None) \<and>
   (esize \<noteq> 0 \<and> 2 \<le> unat sz div unat esize \<and> unat sz div unat esize \<le> 2 ^ 31 \<longrightarrow>
     (\<exists>f' k. kfifo_init f buffer sz esize = Some (0, f') \<and> cap_n f' = 2 ^ k \<and>
        unat sz div unat esize \<le> 2 ^ k \<and> 2 ^ k < 2 * (unat sz div unat esize) \<and>
        kfifo_is_empty f' \<and> kfifo_contents m f' = [] \<and>
        (2 ^ k * unat esize < 2 ^ 32 \<longrightarrow> kfifo_wf f'))) \<and>
   (esize \<noteq> 0 \<and> (unat sz div unat esize < 2 \<or> 2 ^ 31 < unat sz div unat esize) \<longrightarrow>
     (\<exists>f'. kfifo_init f buffer sz esize = Some (-1, f') \<and> kf_mask f' = 0))"
proof (intro conjI impI)
  assume "esize = 0"
  then show "kfifo_init f buffer sz esize = None" by (simp add: kfifo_init_def)
next
  assume a: "esize \<noteq> 0 \<and> 2 \<le> unat sz div unat esize \<and> unat sz div unat esize \<le> 2 ^ 31"
  then obtain f' k where f': "kfifo_init f buffer sz esize = Some (0, f')" "k < 32" "cap_n f' = 2 ^ k"
      "unat sz div unat esize \<le> 2 ^ k" "2 ^ k < 2 * (unat sz div unat esize)"
      "esize_n f' = unat esize" "kf_in f' = 0" "kf_out f' = 0"
    by (metis init_success)
  have "kfifo_wf f'" if "2 ^ k * unat esize < 2 ^ 32"
  proof -
    have "kf_esize f' \<noteq> 0" using f'(6) a by (metis unat_eq_zero)
    moreover have "kfifo_cap f' \<noteq> 0" using f'(3) by (metis power_not_zero unat_0 zero_neq_numeral)
    ultimately show ?thesis
      using that f' by (auto simp: kfifo_wf_def is_power_of_2_iff kfifo_len_def)
  qed
  moreover have "kfifo_is_empty f'" and "kfifo_contents m f' = []"
    using f' by (simp_all add: kfifo_is_empty_def kfifo_contents_def kfifo_len_def)
  ultimately show "\<exists>f' k. kfifo_init f buffer sz esize = Some (0, f') \<and> cap_n f' = 2 ^ k \<and>
        unat sz div unat esize \<le> 2 ^ k \<and> 2 ^ k < 2 * (unat sz div unat esize) \<and>
        kfifo_is_empty f' \<and> kfifo_contents m f' = [] \<and> (2 ^ k * unat esize < 2 ^ 32 \<longrightarrow> kfifo_wf f')"
    using f' by blast
qed (use init_failure in blast)

theorem kfifo_init_establishes_witness:
  "\<exists>f'. kfifo_init sample_ring 8192 4096 1 = Some (0, f') \<and> kfifo_wf f' \<and> cap_n f' = 4096"
proof -
  obtain f' k where f': "kfifo_init sample_ring 8192 4096 1 = Some (0, f')" "cap_n f' = 2 ^ k"
      "(4096::nat) \<le> 2 ^ k" "(2::nat) ^ k < 8192" "2 ^ k < (2::nat) ^ 32 \<longrightarrow> kfifo_wf f'"
    using kfifo_init_establishes [of 1 sample_ring 8192 4096 sample_mem] by auto
  have "(2::nat) ^ 12 \<le> 2 ^ k" "(2::nat) ^ k < 2 ^ 13" using f' by simp_all
  then have "k = 12" unfolding pow2_le_iff pow2_less_iff by simp
  with f' show ?thesis by simp
qed

text \<open>
  C23: The storage an initialised ring uses lies inside the \<open>size\<close> bytes the caller passed exactly when
  the number of elements is a power of two.  \<open>__kfifo_init\<close> rounds the element count up, so for any
  other size the ring claims bytes beyond the end of the caller's buffer.
\<close>

theorem kfifo_init_fits_iff_power_of_2:
  assumes "esize \<noteq> 0" and "2 \<le> unat sz div unat esize" and "unat sz div unat esize \<le> 2 ^ 31"
  shows "\<exists>f'. kfifo_init f buffer sz esize = Some (0, f') \<and>
     (ring_bytes f' \<subseteq> region buffer (unat sz) \<longleftrightarrow> is_power_of_2 (of_nat (unat sz div unat esize)))"
proof -
  let ?n = "unat sz div unat esize"
  obtain f' k where f': "kfifo_init f buffer sz esize = Some (0, f')" "cap_n f' = 2 ^ k" "?n \<le> 2 ^ k"
      "2 ^ k < 2 * ?n" "is_power_of_2 (of_nat ?n) \<longleftrightarrow> ?n = 2 ^ k" "esize_n f' = unat esize" "kf_data f' = buffer"
    using init_success [OF assms] by metis
  have ring: "ring_bytes f' = region buffer (2 ^ k * unat esize)" by (simp add: ring_bytes_def f')
  have "?n * unat esize \<le> unat sz" by simp
  have "ring_bytes f' \<subseteq> region buffer (unat sz) \<longleftrightarrow> ?n = 2 ^ k"
  proof
    assume "?n = 2 ^ k"
    then show "ring_bytes f' \<subseteq> region buffer (unat sz)"
      unfolding ring using \<open>?n * unat esize \<le> unat sz\<close> by (intro region_mono) simp
  next
    assume sub: "ring_bytes f' \<subseteq> region buffer (unat sz)"
    show "?n = 2 ^ k"
    proof (rule ccontr)
      assume "?n \<noteq> 2 ^ k"
      with f'(3) have "Suc ?n \<le> 2 ^ k" by simp
      then have "Suc ?n * unat esize \<le> 2 ^ k * unat esize" by (rule mult_le_mono1)
      moreover have "unat sz < Suc ?n * unat esize"
        using assms(1) dividend_less_times_div [of "unat esize" "unat sz"] by (simp add: unat_gt_0 mult.commute)
      ultimately have "unat sz < 2 ^ k * unat esize" by simp
      moreover have "2 ^ k * unat esize \<le> 2 * ?n * unat esize" using f'(4) by (intro mult_le_mono1) simp
      then have "2 ^ k * unat esize \<le> 2 * unat sz"
        using \<open>?n * unat esize \<le> unat sz\<close> by linarith
      then have "2 ^ k * unat esize \<le> 2 ^ 64"
        by (rule le_trans) (use unat_u32_less [of sz] in simp)
      ultimately have "buffer + of_nat (unat sz) \<in> ring_bytes f'" unfolding ring by (intro region_memI)
      with sub have "buffer + of_nat (unat sz) \<in> region buffer (unat sz)" by blast
      then show False using unat_ucast_u32_u64 [of sz] by (simp add: region_def)
    qed
  qed
  with f' show ?thesis by blast
qed

theorem kfifo_init_fits_iff_power_of_2_witness:
  "\<exists>f'. kfifo_init sample_ring 8192 1000 1 = Some (0, f') \<and> \<not> ring_bytes f' \<subseteq> region 8192 1000"
  using kfifo_init_fits_iff_power_of_2 [of 1 1000 sample_ring 8192] by (simp add: is_power_of_2_def)

text \<open>The indices after an operation, whatever buffer the caller passes.\<close>

lemma kfifo_in_ring:
  assumes "kfifo_wf f"
  shows "kfifo_wf (snd (snd (kfifo_in m f buf len))) \<and>
     (\<exists>i. snd (snd (kfifo_in m f buf len)) = f\<lparr>kf_in := i\<rparr>)"
proof -
  have "unat (min len (kfifo_avail f)) \<le> cap_n f - len_n f" using avail_n [OF assms] by (simp add: unat_min)
  then show ?thesis using wf_push [OF assms] by (auto simp: kfifo_in_eq Let_def)
qed

lemma kfifo_out_ring:
  assumes "kfifo_wf f"
  shows "kfifo_wf (snd (snd (kfifo_out m f buf len))) \<and>
     (\<exists>i. snd (snd (kfifo_out m f buf len)) = f\<lparr>kf_out := i\<rparr>)"
proof -
  have "unat (min len (kfifo_len f)) \<le> len_n f" by (simp add: unat_min)
  then show ?thesis using wf_pop [OF assms] by (auto simp: kfifo_out_def kfifo_out_peek_eq Let_def)
qed

lemma kfifo_full_iff:
  assumes "kfifo_wf f"
  shows "kfifo_is_full f \<longleftrightarrow> len_n f = cap_n f"
proof -
  have mask: "kf_mask f = kfifo_cap f - 1" by (simp add: kfifo_cap_def)
  have "unat (kf_mask f) = cap_n f - 1"
    using wf_pos [OF assms] unfolding mask by (subst unat_sub) (simp_all add: word_le_nat_alt)
  then show ?thesis using wf_len [OF assms] wf_pos [OF assms]
    by (auto simp: kfifo_is_full_def word_less_nat_alt)
qed

text \<open>
  C21: The type of a ring.  In a well-formed ring the lengths \<open>kfifo_len\<close>, \<open>kfifo_avail\<close> and \<open>kfifo_cap\<close> add up,
  \<open>kfifo_is_empty\<close> and \<open>kfifo_is_full\<close> say what the queue holds, and every element has \<open>esize\<close> bytes.
  \<open>__kfifo_in\<close> and \<open>__kfifo_out\<close> return well-formed rings with the same mask, element size and storage,
  whatever length they are given and even if the caller's buffer overlaps the ring.
\<close>

theorem kfifo_well_typed:
  assumes "kfifo_wf f"
  shows "len_n f + unat (kfifo_avail f) = cap_n f \<and> kfifo_unused f = kfifo_avail f \<and>
     (kfifo_is_empty f \<longleftrightarrow> kfifo_contents m f = []) \<and>
     (kfifo_is_full f \<longleftrightarrow> length (kfifo_contents m f) = cap_n f) \<and>
     (\<forall>x\<in>set (kfifo_contents m f). length x = esize_n f) \<and>
     (\<forall>f'\<in>{snd (snd (kfifo_in m f buf len)), snd (snd (kfifo_out m f buf len))}.
        kfifo_wf f' \<and> kf_mask f' = kf_mask f \<and> kf_esize f' = kf_esize f \<and> kf_data f' = kf_data f)"
proof (intro conjI)
  show "len_n f + unat (kfifo_avail f) = cap_n f" using avail_n [OF assms] wf_len [OF assms] by simp
  show "kfifo_is_empty f \<longleftrightarrow> kfifo_contents m f = []"
    by (auto simp: kfifo_is_empty_def kfifo_contents_def kfifo_len_def unat_eq_0)
  show "kfifo_is_full f \<longleftrightarrow> length (kfifo_contents m f) = cap_n f" using kfifo_full_iff [OF assms] by simp
  show "\<forall>x\<in>set (kfifo_contents m f). length x = esize_n f" by (auto simp: kfifo_contents_def)
  show "\<forall>f'\<in>{snd (snd (kfifo_in m f buf len)), snd (snd (kfifo_out m f buf len))}.
        kfifo_wf f' \<and> kf_mask f' = kf_mask f \<and> kf_esize f' = kf_esize f \<and> kf_data f' = kf_data f"
    using kfifo_in_ring [OF assms, of m buf len] kfifo_out_ring [OF assms, of m buf len] by auto
qed (rule unused_eq)

theorem kfifo_well_typed_witness:
  "kfifo_wf (snd (snd (kfifo_in sample_mem sample_ring 8192 100))) \<and> \<not> kfifo_is_full sample_ring"
  using kfifo_well_typed [OF sample_ring_wf, of sample_mem 8192 100]
  by (simp add: sample_ring_def kfifo_cap_def kfifo_len_def)

end
