(* ===== verification/Syscalls.thy ===== *)
theory Syscalls
  imports Prelude
begin

text \<open>
  Sequential C code and its environment.  A program is a function on a \<open>world\<close> that either halts
  (\<open>throw\<close>, \<open>exit\<close>, a failed \<open>assert\<close>, undefined behaviour) or returns a value.  Every library or
  system call is an event: the world records it, and its reply comes from the operating system, an
  arbitrary function of the calls made so far and of the call at hand.  A theorem about all worlds
  is thus a theorem about all behaviours of the operating system; what a program relies on (the
  documented range of a return code, say) is a hypothesis about that function.
\<close>

section \<open>Calls and replies\<close>

record addrinfo =
  ai_family :: int
  ai_socktype :: int
  ai_protocol :: int
  ai_addr :: "u8 list"

datatype timeval = Timeval (tv_sec: int) (tv_usec: int)

text \<open>The options \<open>setsockopt\<close> and \<open>getsockopt\<close> are used with.\<close>

datatype sockopt = SO_SNDBUF | SO_RCVBUF | SO_SNDTIMEO | SO_RCVTIMEO | SO_REUSEADDR

datatype signal = SIGUSR1 | SIGUSR2

datatype handler = Handler_default | Handler_empty

datatype (plugins only: code) sock_call =
    Socket int int int | Bind int "u8 list" | Bind_un int string | Listen int int
  | Accept int | Connect int "u8 list" | Connect_un int string
  | Getsockopt int sockopt | Setsockopt int sockopt "int list"
  | Fcntl_getfl int | Fcntl_setfl int c_int | Send int "u8 list" | Recv int int
  | Getaddrinfo string string int int | Freeaddrinfo
  | Sendmsg_fd int string int | Recvmsg_fd int | Gethostbyname string

datatype (plugins only: code) file_call =
    Open_file string | Close int | Lseek int int | Write int "u8 list" | Read int nat
  | Remove string | Unlink string | Mkfifo string | Fopen string string | Fdopen int string
  | Fclose int | Fread int | Fwrite int "u8 list" | Fflush int | Pipe | Eventfd int

text \<open>
  Shared memory (\<open>shmat\<close>, \<open>mmap\<close>) is accessed through events as well, since another process may
  change it at any time: \<open>Shm_load\<close> and \<open>Shm_store\<close> name the segment's address and an offset.
\<close>

datatype (plugins only: code) ipc_call =
    Ftok string char | Shmget int int bool | Shmat int | Shmdt int | Shmctl_rmid int
  | Mmap int int | Munmap int int | Shm_load int nat nat | Shm_store int nat "u8 list"
  | Msgget int bool | Msgsnd int int "u8 list" bool | Msgrcv int int int | Msgctl_rmid int

text \<open>\<open>Uintr_deliver\<close> is no call of the program: the processor accepts a posted user interrupt and enters the handler.\<close>

datatype (plugins only: code) proc_call =
    Sigaction signal handler | Sigprocmask_block "signal list" | Kill_group signal
  | Sigwait "signal list" | Getpid | Fork | Setpgid int int | Execv "string list"
  | Uintr_register_handler | Uintr_unregister_handler | Uintr_create_fd int
  | Uintr_register_sender int | Senduipi int | Stui | Pthread_create | Pthread string int
  | Waitpid | Sigaction_chld | Uintr_deliver

datatype (plugins only: code) misc_call =
    Timespec_get | Gettimeofday | Nanosleep int | Usleep int | Malloc int | Free int
  | Printf string | Perror string | Input_word

text \<open>The calls into the ZeroMQ library, whose code is not part of the sources.\<close>

datatype (plugins only: code) zmq_call =
    Zmq_ctx_new | Zmq_socket int bool | Zmq_bind int string | Zmq_connect int string
  | Zmq_send int "u8 list" | Zmq_recv int int | Zmq_close int | Zmq_ctx_destroy int

datatype (plugins only: code) call =
    Sock sock_call | File file_call | Ipc ipc_call | Proc proc_call | Misc misc_call | Zmq zmq_call

text \<open>
  A reply: the return value, the value of \<open>errno\<close> should the call fail, the bytes and numbers it
  stores through pointer arguments, and the list \<open>getaddrinfo\<close> returns.
\<close>

record reply =
  ret :: int
  err :: int
  dat :: "u8 list"
  nums :: "int list"
  addrs :: "addrinfo list"

abbreviation ok_reply :: "int \<Rightarrow> reply" where
  "ok_reply r \<equiv> \<lparr>ret = r, err = 0, dat = [], nums = [], addrs = []\<rparr>"

abbreviation fail_reply :: "int \<Rightarrow> reply" where
  "fail_reply e \<equiv> \<lparr>ret = -1, err = e, dat = [], nums = [], addrs = []\<rparr>"

text \<open>The \<open>ret\<close> bytes a call has stored, for calls that return their number.\<close>

definition payload :: "reply \<Rightarrow> u8 list" where
  "payload r = take (nat (ret r)) (dat r @ replicate (nat (ret r)) 0)"

lemma length_payload [simp]: "length (payload r) = nat (ret r)"
  by (simp add: payload_def)

lemma payload_none [simp]: "ret r \<le> 0 \<Longrightarrow> payload r = []"
  by (simp add: payload_def)

lemma payload_exact [simp]: "ret r = int (length (dat r)) \<Longrightarrow> payload r = dat r"
  by (simp add: payload_def)

type_synonym os = "call list \<Rightarrow> call \<Rightarrow> reply"

record world =
  w_os :: os
  w_calls :: "call list"
  w_errno :: int

section \<open>Programs\<close>

text \<open>
  How a program stops early: \<open>throw(message)\<close>, \<open>terminate(message)\<close>, \<open>exit(code)\<close>, a failed
  \<open>assert\<close>, behaviour the C standard leaves undefined, and the replacement of the process image by
  \<open>execv\<close>.  \<open>Running\<close> is not a way to stop: it marks an
  execution cut after as many loop iterations as the fuel of a \<open>while (1)\<close> allowed.
\<close>

datatype halt =
    Thrown string | Terminated string | Exited int | Assertion | Undefined string
  | Replaced "string list" | Running

type_synonym 'a prog = "world \<Rightarrow> (halt + 'a) \<times> world"

definition return_c :: "'a \<Rightarrow> 'a prog" where
  "return_c x = (\<lambda>w. (Inr x, w))"

definition halt_c :: "halt \<Rightarrow> 'a prog" where
  "halt_c h = (\<lambda>w. (Inl h, w))"

definition bind_c :: "'a prog \<Rightarrow> ('a \<Rightarrow> 'b prog) \<Rightarrow> 'b prog" where
  "bind_c p k = (\<lambda>w. case p w of (Inl h, w') \<Rightarrow> (Inl h, w') | (Inr x, w') \<Rightarrow> k x w')"

definition seq_c :: "unit prog \<Rightarrow> 'b prog \<Rightarrow> 'b prog" where
  "seq_c p q = bind_c p (\<lambda>_. q)"

definition when_c :: "bool \<Rightarrow> unit prog \<Rightarrow> unit prog" where
  "when_c b p = (if b then p else return_c ())"

text \<open>One call; \<open>errno\<close> changes only when the call fails.\<close>

definition sys :: "call \<Rightarrow> reply prog" where
  "sys c = (\<lambda>w. let r = w_os w (w_calls w) c
                in (Inr r, w\<lparr>w_calls := w_calls w @ [c],
                             w_errno := (if ret r = -1 then err r else w_errno w)\<rparr>))"

definition sys_ret :: "call \<Rightarrow> int prog" where
  "sys_ret c = bind_c (sys c) (\<lambda>r. return_c (ret r))"

definition sys_do :: "call \<Rightarrow> unit prog" where
  "sys_do c = bind_c (sys c) (\<lambda>r. return_c ())"

definition get_errno :: "int prog" where
  "get_errno = (\<lambda>w. (Inr (w_errno w), w))"

text \<open>\<open>while (1) body\<close>, cut after the given number of iterations.\<close>

fun forever_c :: "nat \<Rightarrow> ('s \<Rightarrow> 's prog) \<Rightarrow> 's \<Rightarrow> 'b prog" where
  "forever_c 0 body s = halt_c Running"
| "forever_c (Suc n) body s = bind_c (body s) (forever_c n body)"

lemmas prog_defs [prog_simps] =
  return_c_def halt_c_def bind_c_def seq_c_def when_c_def sys_ret_def sys_do_def get_errno_def

lemma return_c_inject [simp]: "return_c x = return_c y \<longleftrightarrow> x = y"
  by (auto simp: return_c_def dest: fun_cong)

lemma bind_return [simp]: "bind_c (return_c x) k = k x"
  by (simp add: bind_c_def return_c_def)

lemma bind_halt [simp]: "bind_c (halt_c h) k = halt_c h"
  by (simp add: bind_c_def halt_c_def)

lemma bind_fst_halt: "fst (p w) = Inl h \<Longrightarrow> bind_c p k w = (Inl h, snd (p w))"
  by (cases "p w") (simp add: bind_c_def)

lemma seq_fst_halt: "fst (p w) = Inl h \<Longrightarrow> seq_c p q w = (Inl h, snd (p w))"
  by (simp add: seq_c_def bind_fst_halt)

lemma bind_fst_return: "p w = (Inr x, w') \<Longrightarrow> bind_c p k w = k x w'"
  by (simp add: bind_c_def)

lemma seq_run: "p w = (Inr (), w') \<Longrightarrow> seq_c p q w = q w'"
  by (simp add: seq_c_def bind_c_def)

lemma sys_do_run: "\<exists>w'. sys_do c w = (Inr (), w') \<and> w_calls w' = w_calls w @ [c] \<and> w_os w' = w_os w"
  by (simp add: sys_do_def bind_c_def return_c_def sys_def Let_def)

lemma bind_assoc: "bind_c (bind_c p k) l = bind_c p (\<lambda>x. bind_c (k x) l)"
  by (rule ext) (auto simp: bind_c_def split: prod.splits sum.splits)

section \<open>Programs that never return\<close>

definition never_returns :: "'a prog \<Rightarrow> bool" where
  "never_returns p \<longleftrightarrow> (\<forall>w x. fst (p w) \<noteq> Inr x)"

lemma never_returns_first: "never_returns p \<Longrightarrow> never_returns (bind_c p k)"
  unfolding never_returns_def bind_c_def by (auto split: prod.splits sum.splits) (metis fst_conv)

lemma never_returns_bind: "(\<And>x. never_returns (k x)) \<Longrightarrow> never_returns (bind_c p k)"
  by (auto simp: never_returns_def bind_c_def split: prod.splits sum.splits)

lemma never_returns_seq: "never_returns q \<Longrightarrow> never_returns (seq_c p q)"
  by (simp add: seq_c_def never_returns_bind)

section \<open>Programs do not change the operating system\<close>

definition keeps_os :: "'a prog \<Rightarrow> bool" where
  "keeps_os p = (\<forall>w. w_os (snd (p w)) = w_os w)"

named_theorems os_intros "programs that keep the operating system"

lemma keeps_return [os_intros]: "keeps_os (return_c x)"
  by (simp add: keeps_os_def return_c_def)

lemma keeps_halt [os_intros]: "keeps_os (halt_c h)"
  by (simp add: keeps_os_def halt_c_def)

lemma keeps_bind [os_intros]: "keeps_os p \<Longrightarrow> (\<And>x. keeps_os (k x)) \<Longrightarrow> keeps_os (bind_c p k)"
  unfolding keeps_os_def bind_c_def by (auto split: prod.splits sum.splits) (metis snd_conv)+

lemma keeps_seq [os_intros]: "keeps_os p \<Longrightarrow> keeps_os q \<Longrightarrow> keeps_os (seq_c p q)"
  by (simp add: seq_c_def os_intros)

lemma keeps_when [os_intros]: "keeps_os p \<Longrightarrow> keeps_os (when_c b p)"
  by (simp add: when_c_def os_intros)

lemma keeps_sys [os_intros]: "keeps_os (sys c)"
  by (simp add: keeps_os_def sys_def Let_def)

lemma keeps_sys_ret [os_intros]: "keeps_os (sys_ret c)"
  by (simp add: sys_ret_def os_intros)

lemma keeps_sys_do [os_intros]: "keeps_os (sys_do c)"
  by (simp add: sys_do_def os_intros)

lemma keeps_errno [os_intros]: "keeps_os get_errno"
  by (simp add: keeps_os_def get_errno_def)

lemma keeps_if [os_intros]: "keeps_os p \<Longrightarrow> keeps_os q \<Longrightarrow> keeps_os (if b then p else q)"
  by simp

lemma keeps_forever [os_intros]: "(\<And>s. keeps_os (body s)) \<Longrightarrow> keeps_os (forever_c n body s)"
  by (induction n arbitrary: s) (simp_all add: os_intros)

lemma keeps_osD: "keeps_os p \<Longrightarrow> p w = (r, w') \<Longrightarrow> w_os w' = w_os w"
  unfolding keeps_os_def by (metis snd_conv)

lemma forever_never_returns: "fst (forever_c n body s w) \<noteq> Inr x"
proof (induction n arbitrary: s w)
  case 0
  then show ?case by (simp add: halt_c_def)
next
  case (Suc n)
  then show ?case by (auto simp: bind_c_def split: prod.splits sum.splits)
qed

text \<open>A body that always completes, and appends to the calls so far as \<open>f\<close> says, is repeated to the end.\<close>

lemma forever_trace:
  assumes round: "\<And>s w. w_os w = os \<Longrightarrow> \<exists>s' w'. body s w = (Inr s', w') \<and> w_os w' = os \<and> w_calls w' = f (w_calls w)"
    and "w_os w = os"
  shows "fst (forever_c n body s w) = Inl Running \<and> w_calls (snd (forever_c n body s w)) = (f ^^ n) (w_calls w)"
  using assms(2)
proof (induction n arbitrary: s w)
  case 0
  then show ?case by (simp add: halt_c_def)
next
  case (Suc n)
  obtain s' w' where "body s w = (Inr s', w')" and "w_os w' = os" and "w_calls w' = f (w_calls w)"
    using round [OF Suc.prems] by blast
  then show ?case using Suc.IH [of w' s'] by (simp add: bind_c_def funpow_swap1)
qed

text \<open>Loops whose bodies agree on every world with this operating system agree.\<close>

lemma forever_cong:
  assumes "\<And>s w. w_os w = os \<Longrightarrow> body s w = body' s w" and "\<And>s. keeps_os (body s)" and "w_os w = os"
  shows "forever_c n body s w = forever_c n body' s w"
  using assms(3)
proof (induction n arbitrary: s w)
  case (Suc n)
  have "w_os w' = os" if "body s w = (r, w')" for r w' using keeps_osD [OF assms(2) that] Suc.prems by simp
  then show ?case using Suc.IH assms(1) [OF Suc.prems, of s] by (auto simp: bind_c_def split: prod.splits sum.splits)
qed simp

end
