(* ===== verification/Utility.thy ===== *)
theory Utility
  imports Syscalls
begin

text \<open>
  \<^verbatim>\<open>source/common/utility.c\<close>: the two ways the programs give up, their messages, the key of the
  shared objects, sleeping and the millisecond clock.
\<close>

definition throw :: "string \<Rightarrow> 'a prog" where
  "throw message = halt_c (Thrown message)"

definition terminate :: "string \<Rightarrow> 'a prog" where
  "terminate message = halt_c (Terminated message)"

definition print_error :: "string \<Rightarrow> unit prog" where
  "print_error message = sys_do (Misc (Printf (message @ [CHR 0x0A])))"

definition warn :: "string \<Rightarrow> unit prog" where
  "warn message = sys_do (Misc (Printf
     (CHR 0x1B # ''[33mWarning'' @ CHR 0x1B # ''[0m: '' @ message @ [CHR 0x0A])))"

definition generate_key :: "string \<Rightarrow> int prog" where
  "generate_key path = sys_ret (Ipc (Ftok path (CHR ''X'')))"

definition nsleep :: "int \<Rightarrow> unit prog" where
  "nsleep nanoseconds =
     bind_c (sys_ret (Misc (Nanosleep nanoseconds))) (\<lambda>r.
       if r = -1 then throw ''Sleep was interrupted'' else return_c ())"

text \<open>Integer division of C, truncating towards zero.\<close>

definition cdiv :: "int \<Rightarrow> int \<Rightarrow> int" where
  "cdiv a b = sgn a * sgn b * (\<bar>a\<bar> div \<bar>b\<bar>)"

text \<open>
  \<open>timeval_to_milliseconds\<close>: both assignments convert a \<open>long\<close> to \<open>int\<close>, which drops all but the low
  32 bits.  \<open>None\<close> is the null pointer.
\<close>

definition timeval_to_milliseconds :: "timeval option \<Rightarrow> c_int prog" where
  "timeval_to_milliseconds time =
     (case time of
        None \<Rightarrow> halt_c Assertion
      | Some t \<Rightarrow>
          (let milliseconds = of_int (tv_sec t * 1000) :: c_int;
               milliseconds = of_int (sint milliseconds + cdiv (tv_usec t) 1000)
           in return_c milliseconds))"

definition gettimeofday :: "(int \<times> timeval) prog" where
  "gettimeofday = bind_c (sys (Misc Gettimeofday)) (\<lambda>r.
     return_c (ret r, Timeval (nums r ! 0) (nums r ! 1)))"

definition current_milliseconds :: "c_int prog" where
  "current_milliseconds = bind_c gettimeofday (\<lambda>(r, current_time).
     if r = -1 then throw ''Error getting time'' else timeval_to_milliseconds (Some current_time))"

definition pin_thread :: "int \<Rightarrow> unit prog" where
  "pin_thread where' = return_c ()"

lemma keeps_throw [os_intros]: "keeps_os (throw m)"
  by (simp add: throw_def os_intros)

lemma keeps_gettimeofday [os_intros]: "keeps_os gettimeofday"
  by (simp add: gettimeofday_def os_intros)

lemma sint_of_int_exact: "-(2 ^ 31) \<le> x \<Longrightarrow> x < 2 ^ 31 \<Longrightarrow> sint (of_int x :: c_int) = x"
  by (simp add: signed_of_int signed_take_bit_int_eq_self)

lemma of_int_sint_u32 [simp]: "of_int (sint (w :: c_int)) = w"
  by simp

lemma timeval_ms_word:
  assumes "0 \<le> tv_usec t"
  shows "timeval_to_milliseconds (Some t) = return_c (of_int (tv_sec t * 1000 + tv_usec t div 1000))"
  using assms by (simp add: timeval_to_milliseconds_def cdiv_def sgn_if)

text \<open>
  \<open>timeval_to_milliseconds\<close> returns the time in milliseconds exactly when that number fits an
  \<open>int\<close>; every later time, in particular every present-day time since the epoch, comes back reduced
  modulo \<open>2 ^ 32\<close> into the signed range.
\<close>

theorem timeval_to_milliseconds_exact_iff:
  assumes "0 \<le> tv_sec t" and "0 \<le> tv_usec t" and "tv_usec t < 1000000"
  shows "\<exists>ms. timeval_to_milliseconds (Some t) = return_c ms \<and>
     (sint ms = tv_sec t * 1000 + tv_usec t div 1000 \<longleftrightarrow> tv_sec t * 1000 + tv_usec t div 1000 < 2 ^ 31) \<and>
     (sint ms - (tv_sec t * 1000 + tv_usec t div 1000)) mod 2 ^ 32 = 0"
proof -
  define v where "v = tv_sec t * 1000 + tv_usec t div 1000"
  define ms where "ms = (of_int v :: c_int)"
  have v: "0 \<le> v" using assms by (simp add: v_def)
  have "sint ms = v \<longleftrightarrow> v < 2 ^ 31"
  proof
    assume "sint ms = v"
    then show "v < 2 ^ 31" using sint_lt [of ms] by simp
  next
    assume "v < 2 ^ 31"
    then show "sint ms = v" unfolding ms_def using v by (intro sint_of_int_exact) simp_all
  qed
  moreover have "(sint ms - v) mod 2 ^ 32 = 0"
  proof -
    have "(of_int (sint ms) :: c_int) = of_int v" by (simp add: ms_def)
    then have "take_bit LENGTH(32) (sint ms) = take_bit LENGTH(32) v"
      by (rule word_of_int_eq_iff [THEN iffD1])
    then show ?thesis by (simp add: take_bit_eq_mod mod_eq_dvd_iff mod_eq_0_iff_dvd)
  qed
  moreover have "timeval_to_milliseconds (Some t) = return_c ms"
    unfolding ms_def v_def by (rule timeval_ms_word [OF assms(2)])
  ultimately show ?thesis unfolding v_def [symmetric] by (intro exI [of _ ms] conjI)
qed

theorem timeval_to_milliseconds_exact_iff_witness:
  "\<exists>ms. timeval_to_milliseconds (Some (Timeval 1700000000 5000)) = return_c ms \<and>
     sint ms \<noteq> 1700000000005"
  using timeval_to_milliseconds_exact_iff [of "Timeval 1700000000 5000"] by auto

end
