(* ===== verification/Signals.thy ===== *)
theory Signals
  imports Utility
begin

text \<open>
  \<^verbatim>\<open>source/common/signals.c\<close>: how the parent, the server and the client of a benchmark set up the two
  user signals, notify each other and wait, and what these calls mean for the process group.
\<close>

section \<open>The code\<close>

record sigaction =
  sa_restart :: bool
  sa_handler :: handler
  sa_mask :: "signal list"

definition IGNORE_USR1 :: c_int where "IGNORE_USR1 = 0"
definition IGNORE_USR2 :: c_int where "IGNORE_USR2 = 0"
definition BLOCK_USR1 :: c_int where "BLOCK_USR1 = 1"
definition BLOCK_USR2 :: c_int where "BLOCK_USR2 = 2"

definition WAIT :: int where "WAIT = 0"
definition NOTIFY :: int where "NOTIFY = 1"

definition setup_ignored_signals :: "sigaction \<Rightarrow> c_int \<Rightarrow> sigaction prog" where
  "setup_ignored_signals signal_action flags =
     (let sa = signal_action\<lparr>sa_handler := Handler_empty\<rparr> in
      seq_c (when_c (flags AND BLOCK_USR1 = 0)
              (bind_c (sys_ret (Proc (Sigaction SIGUSR1 (sa_handler sa)))) (\<lambda>r.
                 when_c (r \<noteq> 0) (throw ''Error registering SIGUSR1 signal handler for server''))))
     (seq_c (when_c (flags AND BLOCK_USR2 = 0)
              (bind_c (sys_ret (Proc (Sigaction SIGUSR2 (sa_handler sa)))) (\<lambda>r.
                 when_c (r \<noteq> 0) (throw ''Error registering SIGUSR2 signal handler for server''))))
      (return_c sa)))"

definition setup_blocked_signals :: "sigaction \<Rightarrow> c_int \<Rightarrow> sigaction prog" where
  "setup_blocked_signals signal_action flags =
     (let sa = signal_action\<lparr>sa_handler := Handler_default\<rparr>;
          sa = (if flags AND BLOCK_USR1 \<noteq> 0 then sa\<lparr>sa_mask := List.insert SIGUSR1 (sa_mask sa)\<rparr> else sa);
          sa = (if flags AND BLOCK_USR2 \<noteq> 0 then sa\<lparr>sa_mask := List.insert SIGUSR2 (sa_mask sa)\<rparr> else sa)
      in seq_c (sys_do (Proc (Sigprocmask_block (sa_mask sa)))) (return_c sa))"

definition setup_signals :: "sigaction \<Rightarrow> c_int \<Rightarrow> sigaction prog" where
  "setup_signals signal_action flags =
     bind_c (setup_ignored_signals (signal_action\<lparr>sa_restart := True, sa_mask := []\<rparr>) flags) (\<lambda>sa.
     setup_blocked_signals (sa\<lparr>sa_mask := []\<rparr>) flags)"

text \<open>\<open>sa0\<close> is the indeterminate initial value of the local structure.\<close>

definition setup_parent_signals :: "sigaction \<Rightarrow> unit prog" where
  "setup_parent_signals sa0 =
     bind_c (setup_signals sa0 (IGNORE_USR1 OR IGNORE_USR2)) (\<lambda>_. return_c ())"

definition setup_server_signals :: "sigaction \<Rightarrow> sigaction prog" where
  "setup_server_signals signal_action =
     bind_c (setup_signals signal_action (BLOCK_USR1 OR IGNORE_USR2)) (\<lambda>sa.
     seq_c (sys_do (Misc (Usleep 1000))) (return_c sa))"

definition setup_client_signals :: "sigaction \<Rightarrow> sigaction prog" where
  "setup_client_signals signal_action =
     bind_c (setup_signals signal_action (IGNORE_USR1 OR BLOCK_USR2)) (\<lambda>sa.
     seq_c (sys_do (Misc (Usleep 1000))) (return_c sa))"

definition notify_server :: "unit prog" where
  "notify_server = sys_do (Proc (Kill_group SIGUSR1))"

definition notify_client :: "unit prog" where
  "notify_client = sys_do (Proc (Kill_group SIGUSR2))"

definition wait_for_signal :: "sigaction \<Rightarrow> unit prog" where
  "wait_for_signal signal_action = sys_do (Proc (Sigwait (sa_mask signal_action)))"

definition client_once :: "sigaction \<Rightarrow> int \<Rightarrow> unit prog" where
  "client_once sa0 operation =
     bind_c (setup_client_signals sa0) (\<lambda>sa.
       if operation = WAIT then wait_for_signal sa else notify_server)"

definition server_once :: "sigaction \<Rightarrow> int \<Rightarrow> unit prog" where
  "server_once sa0 operation =
     bind_c (setup_server_signals sa0) (\<lambda>sa.
       if operation = WAIT then wait_for_signal sa else notify_client)"

section \<open>What the calls mean for a process\<close>

text \<open>
  The signal state of a process: which signals are blocked, which action each signal has, which
  signals are pending, and whether the process is still alive.  A fresh process image (after
  \<open>execv\<close>) has the default action for every signal, which for the user signals is to terminate.
\<close>

record sigstate =
  st_blocked :: "signal list"
  st_action :: "signal \<Rightarrow> handler"
  st_pending :: "signal list"
  st_alive :: bool

definition fresh :: sigstate where
  "fresh = \<lparr>st_blocked = [], st_action = (\<lambda>_. Handler_default), st_pending = [], st_alive = True\<rparr>"

fun call_effect :: "call \<Rightarrow> sigstate \<Rightarrow> sigstate" where
  "call_effect (Proc (Sigaction s h)) st = st\<lparr>st_action := (st_action st)(s := h)\<rparr>"
| "call_effect (Proc (Sigprocmask_block ss)) st = st\<lparr>st_blocked := List.union ss (st_blocked st)\<rparr>"
| "call_effect _ st = st"

definition after_calls :: "call list \<Rightarrow> sigstate \<Rightarrow> sigstate" where
  "after_calls cs st = fold call_effect cs st"

text \<open>The arrival of a signal; a pending standard signal does not queue.\<close>

definition deliver :: "signal \<Rightarrow> sigstate \<Rightarrow> sigstate" where
  "deliver s st =
     (if s \<in> set (st_blocked st) then st\<lparr>st_pending := List.insert s (st_pending st)\<rparr>
      else case st_action st s of
        Handler_empty \<Rightarrow> st
      | Handler_default \<Rightarrow> st\<lparr>st_alive := False\<rparr>)"

text \<open>
  What the calls of another process of the group do to a process, and \<open>sigwait\<close>, which takes a pending
  signal of its set, or blocks (\<open>None\<close>) while there is none.
\<close>

fun group_effect :: "call \<Rightarrow> sigstate \<Rightarrow> sigstate" where
  "group_effect (Proc (Kill_group s)) st = deliver s st"
| "group_effect _ st = st"

definition notified :: "call list \<Rightarrow> sigstate \<Rightarrow> sigstate" where
  "notified cs st = fold group_effect cs st"

fun sigwait_effect :: "call \<Rightarrow> sigstate \<Rightarrow> sigstate option" where
  "sigwait_effect (Proc (Sigwait ss)) st =
     (case filter (\<lambda>s. s \<in> set ss) (st_pending st) of
        [] \<Rightarrow> None
      | s # _ \<Rightarrow> Some (st\<lparr>st_pending := removeAll s (st_pending st)\<rparr>))"
| "sigwait_effect _ st = Some st"

fun waits :: "call list \<Rightarrow> sigstate \<Rightarrow> sigstate option" where
  "waits [] st = Some st"
| "waits (c # cs) st = (case sigwait_effect c st of None \<Rightarrow> None | Some st' \<Rightarrow> waits cs st')"

lemmas signal_setup_defs =
  setup_signals_def setup_ignored_signals_def setup_blocked_signals_def
  BLOCK_USR1_def BLOCK_USR2_def IGNORE_USR1_def IGNORE_USR2_def

text \<open>Registering a handler succeeds: the signals and the handler the sources pass are valid.\<close>

definition sigaction_works :: "os \<Rightarrow> bool" where
  "sigaction_works os \<longleftrightarrow> (\<forall>calls s h. ret (os calls (Proc (Sigaction s h))) = 0)"

abbreviation calls_of :: "'a prog \<Rightarrow> world \<Rightarrow> call list" where
  "calls_of p w \<equiv> drop (length (w_calls w)) (w_calls (snd (p w)))"

lemma setup_server_calls:
  assumes "sigaction_works (w_os w)"
  shows "fst (setup_server_signals sa w) =
      Inr \<lparr>sa_restart = True, sa_handler = Handler_default, sa_mask = [SIGUSR1]\<rparr>"
    and "calls_of (setup_server_signals sa) w =
      [Proc (Sigaction SIGUSR2 Handler_empty), Proc (Sigprocmask_block [SIGUSR1]), Misc (Usleep 1000)]"
  using assms
  by (simp_all add: setup_server_signals_def signal_setup_defs sys_def Let_def prog_simps throw_def
      sigaction_works_def)

lemma setup_client_calls:
  assumes "sigaction_works (w_os w)"
  shows "fst (setup_client_signals sa w) =
      Inr \<lparr>sa_restart = True, sa_handler = Handler_default, sa_mask = [SIGUSR2]\<rparr>"
    and "calls_of (setup_client_signals sa) w =
      [Proc (Sigaction SIGUSR1 Handler_empty), Proc (Sigprocmask_block [SIGUSR2]), Misc (Usleep 1000)]"
  using assms
  by (simp_all add: setup_client_signals_def signal_setup_defs sys_def Let_def prog_simps throw_def
      sigaction_works_def)

lemma setup_parent_calls:
  assumes "sigaction_works (w_os w)"
  shows "calls_of (setup_parent_signals sa) w =
      [Proc (Sigaction SIGUSR1 Handler_empty), Proc (Sigaction SIGUSR2 Handler_empty),
       Proc (Sigprocmask_block [])]"
  using assms
  by (simp add: setup_parent_signals_def signal_setup_defs sys_def Let_def prog_simps throw_def
      sigaction_works_def)

lemma notify_calls:
  "calls_of notify_server w = [Proc (Kill_group SIGUSR1)]" "calls_of notify_client w = [Proc (Kill_group SIGUSR2)]"
  "calls_of (wait_for_signal sa) w = [Proc (Sigwait (sa_mask sa))]"
  by (simp_all add: notify_server_def notify_client_def wait_for_signal_def sys_def Let_def prog_simps)

text \<open>
  C26: Notifications reach their addressee and harm nobody.  Once the parent, the server and the client
  have set up their signals, each starting from a fresh process image and from any contents of the
  structure passed in, the calls of \<open>notify_server\<close>, which go to the whole group, let exactly the server's
  \<open>wait_for_signal\<close> return, with nothing left pending, and change nothing at the client and the parent, and
  those of \<open>notify_client\<close> let exactly the client's return and change nothing at the server and the parent.
  Without a notification both block.  A process that has not set up its signals yet is terminated by
  either notification.
\<close>

theorem notifications_reach_addressee:
  fixes sa1 sa2 sa3 :: sigaction and u v :: world
  assumes "sigaction_works (w_os w)"
  defines "server \<equiv> after_calls (calls_of (setup_server_signals sa1) w) fresh"
    and "client \<equiv> after_calls (calls_of (setup_client_signals sa2) w) fresh"
    and "parent \<equiv> after_calls (calls_of (setup_parent_signals sa3) w) fresh"
    and "to_server \<equiv> calls_of notify_server v" and "to_client \<equiv> calls_of notify_client u"
  shows "\<exists>sa sa'. fst (setup_server_signals sa1 w) = Inr sa \<and> fst (setup_client_signals sa2 w) = Inr sa' \<and>
     waits (calls_of (wait_for_signal sa) x) (notified to_server server) = Some server \<and>
     waits (calls_of (wait_for_signal sa') y) (notified to_client client) = Some client \<and>
     notified to_server client = client \<and> notified to_server parent = parent \<and>
     notified to_client server = server \<and> notified to_client parent = parent \<and>
     waits (calls_of (wait_for_signal sa) x) server = None \<and> waits (calls_of (wait_for_signal sa') y) client = None \<and>
     st_alive server \<and> st_alive client \<and> st_alive parent \<and>
     \<not> st_alive (notified to_server fresh) \<and> \<not> st_alive (notified to_client fresh)"
  unfolding server_def client_def parent_def to_server_def to_client_def
  using setup_server_calls [OF assms(1)] setup_client_calls [OF assms(1)] setup_parent_calls [OF assms(1)]
  by (simp add: after_calls_def deliver_def fresh_def List.union_def notified_def notify_calls)

definition sample_sa :: sigaction where
  "sample_sa = \<lparr>sa_restart = False, sa_handler = Handler_default, sa_mask = [SIGUSR2]\<rparr>"

definition quiet_world :: world where
  "quiet_world = \<lparr>w_os = (\<lambda>calls c. ok_reply 0), w_calls = [], w_errno = 0\<rparr>"

theorem notifications_reach_addressee_witness:
  "\<not> st_alive (notified (calls_of notify_server quiet_world) fresh) \<and>
   notified (calls_of notify_server quiet_world)
     (after_calls (calls_of (setup_client_signals sample_sa) quiet_world) fresh) =
   after_calls (calls_of (setup_client_signals sample_sa) quiet_world) fresh"
proof -
  have "sigaction_works (w_os quiet_world)" by (simp add: sigaction_works_def quiet_world_def)
  from notifications_reach_addressee [OF this, where ?sa1.0 = sample_sa and ?sa2.0 = sample_sa and v = quiet_world]
  show ?thesis by blast
qed

text \<open>
  The error branches of the set-up, and what the one-shot operations do.  A failing \<open>sigaction\<close>
  ends the process with the message of the signal concerned; otherwise \<open>client_once(WAIT)\<close> ends in a
  wait for SIGUSR2 and \<open>server_once(NOTIFY)\<close> ends by sending exactly that signal, and likewise with
  the roles exchanged.
\<close>

theorem once_pairs_up:
  "((\<forall>calls. ret (w_os w calls (Proc (Sigaction SIGUSR2 Handler_empty))) \<noteq> 0) \<longrightarrow>
      fst (server_once sa1 op w) = Inl (Thrown ''Error registering SIGUSR2 signal handler for server'')) \<and>
   ((\<forall>calls. ret (w_os w calls (Proc (Sigaction SIGUSR1 Handler_empty))) \<noteq> 0) \<longrightarrow>
      fst (client_once sa2 op w) = Inl (Thrown ''Error registering SIGUSR1 signal handler for server'')) \<and>
   (sigaction_works (w_os w) \<longrightarrow>
      last (w_calls (snd (client_once sa2 WAIT w))) = Proc (Sigwait [SIGUSR2]) \<and>
      last (w_calls (snd (server_once sa1 NOTIFY w))) = Proc (Kill_group SIGUSR2) \<and>
      last (w_calls (snd (server_once sa1 WAIT w))) = Proc (Sigwait [SIGUSR1]) \<and>
      last (w_calls (snd (client_once sa2 NOTIFY w))) = Proc (Kill_group SIGUSR1))"
  by (simp add: client_once_def server_once_def setup_server_signals_def setup_client_signals_def
      signal_setup_defs sys_def Let_def prog_simps throw_def sigaction_works_def wait_for_signal_def
      notify_server_def notify_client_def WAIT_def NOTIFY_def)

theorem once_pairs_up_witness:
  "last (w_calls (snd (client_once sample_sa WAIT quiet_world))) = Proc (Sigwait [SIGUSR2])"
  using once_pairs_up [of quiet_world sample_sa WAIT sample_sa]
  by (simp add: sigaction_works_def quiet_world_def)

end
