(* ===== verification/Benchmarks.thy ===== *)
theory Benchmarks
  imports Complex_Main Utility
begin

text \<open>
  \<^verbatim>\<open>source/common/benchmarks.c\<close> and \<^verbatim>\<open>benchmarks.h\<close>: the clock, the running statistics and the
  report.  The clock and the report go through C doubles, modelled as rationals rounded to 53
  significant bits, nearest with ties to even (no intermediate result of this code is subnormal or
  exceeds the exponent range).
\<close>

section \<open>Doubles\<close>

fun nbits :: "nat \<Rightarrow> nat" where
  "nbits n = (if n = 0 then 0 else Suc (nbits (n div 2)))"

declare nbits.simps [simp del]

text \<open>Rounding to the nearest integer, ties to even.\<close>

definition rne :: "rat \<Rightarrow> int" where
  "rne x = (let m = \<lfloor>x\<rfloor>; r = x - of_int m
            in if r < 1 / 2 \<or> (r = 1 / 2 \<and> even m) then m else m + 1)"

text \<open>The exponent \<open>e\<close> of a positive number: \<open>2 powi e \<le> x < 2 powi (e + 1)\<close>.\<close>

definition dexp :: "rat \<Rightarrow> int" where
  "dexp x = (let (n, d) = quotient_of x; k = int (nbits (nat n)) - int (nbits (nat d))
             in if x < 2 powi k then k - 1 else k)"

definition round_double :: "rat \<Rightarrow> rat" where
  "round_double x =
     (if x = 0 then 0
      else (let ulp = 2 powi (dexp x - 52) in of_int (rne (x / ulp)) * ulp))"

datatype dbl = NaN | Infinity | Finite rat

text \<open>Division of a non-negative double by a non-negative double.\<close>

fun div_dbl :: "dbl \<Rightarrow> dbl \<Rightarrow> dbl" where
  "div_dbl (Finite x) (Finite y) =
     (if y = 0 then (if x = 0 then NaN else Infinity) else Finite (round_double (x / y)))"
| "div_dbl NaN _ = NaN"
| "div_dbl _ NaN = NaN"
| "div_dbl Infinity Infinity = NaN"
| "div_dbl Infinity _ = Infinity"
| "div_dbl (Finite x) Infinity = Finite 0"

text \<open>Conversion to \<open>int\<close>: undefined unless the truncated value is representable.\<close>

fun int_of_dbl :: "dbl \<Rightarrow> int option" where
  "int_of_dbl (Finite x) =
     (let t = (if x < 0 then \<lceil>x\<rceil> else \<lfloor>x\<rfloor>)
      in if -(2 ^ 31) \<le> t \<and> t < 2 ^ 31 then Some t else None)"
| "int_of_dbl _ = None"

section \<open>The code\<close>

record Arguments =
  a_size :: c_int
  a_count :: c_int

record Benchmarks =
  b_total_start :: u64
  b_single_start :: u64
  b_minimum :: u64
  b_maximum :: u64
  b_sum :: u64
  b_squared_sum :: u64
  b_count :: c_int

text \<open>
  \<open>ts.tv_sec * 1e9 + ts.tv_nsec\<close>: the seconds are converted to double, multiplied, the nanoseconds
  added, and the result truncated to \<open>unsigned long\<close>.
\<close>

definition now_value :: "int \<Rightarrow> int \<Rightarrow> u64" where
  "now_value sec nsec =
     of_int \<lfloor>round_double (round_double (round_double (of_int sec) * 1000000000) + round_double (of_int nsec))\<rfloor>"

definition now :: "u64 prog" where
  "now = bind_c (sys (Misc Timespec_get)) (\<lambda>r. return_c (now_value (nums r ! 0) (nums r ! 1)))"

definition INT32_MAX :: u64 where "INT32_MAX = 2147483647"

definition setup_benchmarks_at :: "Benchmarks \<Rightarrow> u64 \<Rightarrow> Benchmarks" where
  "setup_benchmarks_at bench t =
     bench\<lparr>b_minimum := INT32_MAX, b_maximum := 0, b_sum := 0, b_squared_sum := 0,
           b_total_start := t, b_count := 0\<rparr>"

definition setup_benchmarks :: "Benchmarks \<Rightarrow> Benchmarks prog" where
  "setup_benchmarks bench = bind_c now (\<lambda>t. return_c (setup_benchmarks_at bench t))"

text \<open>\<open>benchmark\<close> at clock reading \<open>t\<close>.\<close>

definition benchmark_at :: "Benchmarks \<Rightarrow> u64 \<Rightarrow> Benchmarks" where
  "benchmark_at bench t =
     (let time = t - b_single_start bench;
          bench = (if time < b_minimum bench then bench\<lparr>b_minimum := time\<rparr> else bench);
          bench = (if time > b_maximum bench then bench\<lparr>b_maximum := time\<rparr> else bench)
      in bench\<lparr>b_sum := b_sum bench + time, b_count := b_count bench + 1\<rparr>)"

definition benchmark :: "Benchmarks \<Rightarrow> Benchmarks prog" where
  "benchmark bench = bind_c now (\<lambda>t. return_c (benchmark_at bench t))"

text \<open>The values \<open>evaluate\<close> prints.\<close>

record report =
  r_size :: int
  r_count :: int
  r_total_ms :: dbl
  r_average_us :: dbl
  r_minimum_us :: dbl
  r_maximum_us :: dbl
  r_rate :: int

abbreviation dbl_u64 :: "u64 \<Rightarrow> dbl" where
  "dbl_u64 x \<equiv> Finite (round_double (of_nat (unat x)))"

definition evaluate :: "Benchmarks \<Rightarrow> Arguments \<Rightarrow> report prog" where
  "evaluate bench args =
     (if sint (a_count args) \<le> 0 then halt_c Assertion else
      (let average = div_dbl (dbl_u64 (b_sum bench)) (Finite (of_int (sint (b_count bench)))) in
       case int_of_dbl (div_dbl (Finite (of_int (sint (b_count bench))))
                                (div_dbl (dbl_u64 (b_sum bench)) (Finite 1000000000))) of
         None \<Rightarrow> halt_c (Undefined ''message rate out of range'')
       | Some messageRate \<Rightarrow>
           return_c
             \<lparr>r_size = sint (a_size args),
              r_count = sint (b_count bench),
              r_total_ms = div_dbl (dbl_u64 (b_sum bench)) (Finite 1000000),
              r_average_us = div_dbl average (Finite 1000),
              r_minimum_us = div_dbl (dbl_u64 (b_minimum bench)) (Finite 1000),
              r_maximum_us = div_dbl (dbl_u64 (b_maximum bench)) (Finite 1000),
              r_rate = messageRate\<rparr>))"

lemma now_run: "\<exists>t w'. now w = (Inr t, w') \<and> w_calls w' = w_calls w @ [Misc Timespec_get] \<and> w_os w' = w_os w"
  by (simp add: now_def bind_c_def return_c_def sys_def Let_def)

lemma benchmark_run:
  "\<exists>t w'. benchmark bench w = (Inr (benchmark_at bench t), w') \<and> w_calls w' = w_calls w @ [Misc Timespec_get] \<and>
     w_os w' = w_os w"
  unfolding benchmark_def by (metis now_run bind_fst_return return_c_def)

lemma b_count_benchmark_at [simp]: "b_count (benchmark_at bench t) = b_count bench + 1"
  by (simp add: benchmark_at_def Let_def)

lemma bind_setup_benchmarks:
  "bind_c (setup_benchmarks b) k = bind_c now (\<lambda>t. k (setup_benchmarks_at b t))"
  by (simp add: setup_benchmarks_def bind_assoc)

lemma keeps_now [os_intros]: "keeps_os now"
  by (simp add: now_def os_intros)

lemma keeps_benchmark [os_intros]: "keeps_os (benchmark b)"
  by (simp add: benchmark_def os_intros)

section \<open>The running statistics\<close>

text \<open>What the structure has to say after the measurements \<open>xs\<close>.\<close>

definition bench_stats :: "Benchmarks \<Rightarrow> u64 list \<Rightarrow> bool" where
  "bench_stats b xs \<longleftrightarrow>
     b_minimum b = fold min xs INT32_MAX \<and> b_maximum b = fold max xs 0 \<and>
     b_sum b = sum_list xs \<and> b_squared_sum b = 0 \<and> b_count b = of_nat (length xs)"

lemma bench_stats_setup: "bench_stats (setup_benchmarks_at b t) []"
  by (simp add: bench_stats_def setup_benchmarks_at_def)

lemma bench_stats_benchmark:
  "bench_stats b xs \<Longrightarrow> bench_stats (benchmark_at b t) (xs @ [t - b_single_start b])"
  by (auto simp: bench_stats_def benchmark_at_def Let_def min_def max_def)

text \<open>A benchmark run: each message has a start time stored in the structure and a stop reading.\<close>

fun measure_all :: "Benchmarks \<Rightarrow> (u64 \<times> u64) list \<Rightarrow> Benchmarks" where
  "measure_all b [] = b"
| "measure_all b ((start, stop) # ms) = measure_all (benchmark_at (b\<lparr>b_single_start := start\<rparr>) stop) ms"

definition elapsed :: "(u64 \<times> u64) list \<Rightarrow> u64 list" where
  "elapsed ms = map (\<lambda>(start, stop). stop - start) ms"

lemma bench_stats_measure_all:
  "bench_stats b xs \<Longrightarrow> bench_stats (measure_all b ms) (xs @ elapsed ms)"
proof (induction ms arbitrary: b xs)
  case Nil
  then show ?case by (simp add: elapsed_def)
next
  case (Cons m ms)
  obtain start stop where m: "m = (start, stop)" by (cases m)
  have "bench_stats (b\<lparr>b_single_start := start\<rparr>) xs" using Cons.prems by (simp add: bench_stats_def)
  from Cons.IH [OF bench_stats_benchmark [OF this, of stop]] show ?case
    by (simp add: m elapsed_def)
qed

lemma bench_minimum: "bench_stats b xs \<Longrightarrow> b_minimum b = Min (insert INT32_MAX (set xs))"
  by (simp add: bench_stats_def flip: Min.set_eq_fold)

lemma bench_maximum: "bench_stats b xs \<Longrightarrow> b_maximum b = Max (insert 0 (set xs))"
  by (simp add: bench_stats_def flip: Max.set_eq_fold)

lemma unat_sum_list: "unat (sum_list xs) = sum_list (map unat xs) mod 2 ^ 64" for xs :: "u64 list"
  by (induction xs) (simp_all add: unat_word_ariths mod_add_right_eq)

lemma sum_list_between:
  fixes xs :: "u64 list"
  assumes "\<forall>x\<in>set xs. lo \<le> unat x \<and> unat x \<le> hi"
  shows "length xs * lo \<le> sum_list (map unat xs) \<and> sum_list (map unat xs) \<le> length xs * hi"
  using assms by (induction xs) auto

lemma sint_count: "length xs < 2 ^ 31 \<Longrightarrow> sint (of_nat (length xs) :: c_int) = int (length xs)"
  using sint_of_int_exact [of "int (length xs)"] by simp

text \<open>
  C20: The statistics are those of the measured intervals.  After \<open>setup_benchmarks\<close> and any sequence
  of measurements (fewer than \<open>2 ^ 31\<close>) the structure holds their number, their sum modulo \<open>2 ^ 64\<close>,
  their maximum, and the minimum of them and \<open>INT32_MAX\<close>: a run in which every interval exceeds
  about 2.147 seconds reports a minimum that never occurred.  As long as the sum does not overflow,
  count times minimum is at most the sum and the sum at most count times maximum, so the printed
  average lies between the extremes.
\<close>

theorem benchmark_statistics:
  fixes b0 :: Benchmarks and t :: u64
  assumes "length ms < 2 ^ 31"
  defines "b \<equiv> measure_all (setup_benchmarks_at b0 t) ms"
  shows "sint (b_count b) = int (length ms) \<and>
     unat (b_sum b) = sum_list (map unat (elapsed ms)) mod 2 ^ 64 \<and>
     b_maximum b = Max (insert 0 (set (elapsed ms))) \<and>
     b_minimum b = Min (insert INT32_MAX (set (elapsed ms))) \<and>
     (sum_list (map unat (elapsed ms)) < 2 ^ 64 \<longrightarrow>
        length ms * unat (b_minimum b) \<le> unat (b_sum b) \<and>
        unat (b_sum b) \<le> length ms * unat (b_maximum b))"
proof -
  have st: "bench_stats b (elapsed ms)"
    unfolding b_def using bench_stats_measure_all [OF bench_stats_setup] by simp
  have len: "length (elapsed ms) = length ms" by (simp add: elapsed_def)
  have "\<forall>x\<in>set (elapsed ms). unat (b_minimum b) \<le> unat x \<and> unat x \<le> unat (b_maximum b)"
    by (simp add: bench_minimum [OF st] bench_maximum [OF st] flip: word_le_nat_alt)
  from sum_list_between [OF this] have "length ms * unat (b_minimum b) \<le> sum_list (map unat (elapsed ms))"
    and "sum_list (map unat (elapsed ms)) \<le> length ms * unat (b_maximum b)" by (simp_all add: len)
  moreover have "unat (b_sum b) = sum_list (map unat (elapsed ms)) mod 2 ^ 64"
    using st by (simp add: bench_stats_def unat_sum_list)
  moreover have "sint (b_count b) = int (length ms)"
    using st sint_count [of "elapsed ms"] assms(1) by (simp add: bench_stats_def len)
  ultimately show ?thesis using bench_minimum [OF st] bench_maximum [OF st] by simp
qed

definition sample_bench :: Benchmarks where
  "sample_bench = \<lparr>b_total_start = 0, b_single_start = 0, b_minimum = 0, b_maximum = 0, b_sum = 0,
                   b_squared_sum = 0, b_count = 0\<rparr>"

theorem benchmark_statistics_witness:
  "sint (b_count (measure_all (setup_benchmarks_at sample_bench 7) [(10, 25), (30, 35), (40, 50)])) = 3 \<and>
   unat (b_sum (measure_all (setup_benchmarks_at sample_bench 7) [(10, 25), (30, 35), (40, 50)])) = 30"
  using benchmark_statistics [of "[(10, 25), (30, 35), (40, 50)]" sample_bench 7]
  by (simp add: elapsed_def)

section \<open>The clock\<close>

lemma nbits_bounds: "0 < n \<Longrightarrow> 2 ^ nbits n \<le> 2 * n \<and> n < 2 ^ nbits n"
proof (induction n rule: nbits.induct)
  case (1 n)
  show ?case
  proof (cases "n div 2 = 0")
    case True
    then have "n = 1" using "1.prems" by simp
    then show ?thesis by (simp add: nbits.simps)
  next
    case False
    have "nbits n = Suc (nbits (n div 2))" using "1.prems" by (subst nbits.simps) simp
    moreover have "2 ^ nbits (n div 2) \<le> 2 * (n div 2) \<and> n div 2 < 2 ^ nbits (n div 2)"
      using "1.IH" "1.prems" False by simp
    ultimately show ?thesis by auto
  qed
qed

lemma powi_less_iff: "(2::rat) powi a < 2 powi b \<longleftrightarrow> a < b"
  using power_int_strict_increasing [of a b "2::rat"] power_int_increasing [of b a "2::rat"]
  by (auto simp: not_less [symmetric])

lemma powi_interval_unique:
  assumes "(2::rat) powi e \<le> x" and "x < 2 powi (e + 1)" and "2 powi f \<le> x" and "x < 2 powi (f + 1)"
  shows "e = f"
proof -
  have "(2::rat) powi e < 2 powi (f + 1)" and "(2::rat) powi f < 2 powi (e + 1)"
    using assms by linarith+
  then show ?thesis by (simp only: powi_less_iff)
qed

lemma dexp_bounds:
  assumes "0 < x"
  shows "2 powi dexp x \<le> x \<and> x < 2 powi (dexp x + 1)"
proof -
  obtain n d where q: "quotient_of x = (n, d)" by (cases "quotient_of x")
  have d: "0 < d" using quotient_of_denom_pos [OF q] .
  have x: "x = of_int n / of_int d" using quotient_of_div [OF q] .
  have n: "0 < n" using assms d unfolding x by (simp add: zero_less_divide_iff)
  define a b where "a = nbits (nat n)" and "b = nbits (nat d)"
  define k where "k = int a - int b"
  have "(2::nat) ^ a \<le> 2 * nat n \<and> nat n < 2 ^ a" and "(2::nat) ^ b \<le> 2 * nat d \<and> nat d < 2 ^ b"
    unfolding a_def b_def using nbits_bounds [of "nat n"] nbits_bounds [of "nat d"] n d by simp_all
  then have "(of_nat (2 ^ a) :: rat) \<le> of_nat (2 * nat n) \<and> (of_nat (nat n) :: rat) < of_nat (2 ^ a)"
    and "(of_nat (2 ^ b) :: rat) \<le> of_nat (2 * nat d) \<and> (of_nat (nat d) :: rat) < of_nat (2 ^ b)"
    unfolding of_nat_le_iff of_nat_less_iff by blast+
  then have na: "(2::rat) ^ a \<le> 2 * of_int n" "of_int n < (2::rat) ^ a"
    and db: "(2::rat) ^ b \<le> 2 * of_int d" "of_int d < (2::rat) ^ b"
    using n d by simp_all
  have pk: "(2::rat) powi k = 2 ^ a / 2 ^ b" by (simp add: k_def power_int_diff)
  have "(2::rat) ^ a * of_int d < 2 * of_int n * 2 ^ b"
    using na db n d by (intro mult_le_less_imp_less) simp_all
  then have lo: "(2::rat) powi k < 2 * x" using d by (simp add: pk x field_simps)
  have "(of_int n :: rat) * 2 ^ b < 2 ^ a * (2 * of_int d)"
    using na db n d by (intro mult_less_le_imp_less) simp_all
  then have hi: "x < 2 * 2 powi k" using d by (simp add: pk x field_simps)
  have "dexp x = (if x < 2 powi k then k - 1 else k)"
    by (simp add: dexp_def q k_def a_def b_def)
  then show ?thesis using lo hi by (auto simp: power_int_diff power_int_add)
qed

lemma dexp_eq:
  assumes "(2::rat) powi e \<le> x" and "x < 2 powi (e + 1)"
  shows "dexp x = e"
proof -
  have "(0::rat) < 2 powi e" by simp
  then have "0 < x" using assms by linarith
  with assms show ?thesis using dexp_bounds powi_interval_unique by blast
qed

lemma rne_of_int [simp]: "rne (of_int m) = m"
  by (simp add: rne_def)

lemma rne_error: "\<bar>of_int (rne x) - x\<bar> \<le> 1 / 2"
proof -
  have "of_int \<lfloor>x\<rfloor> \<le> x" and "x < of_int \<lfloor>x\<rfloor> + 1" by linarith+
  then show ?thesis unfolding rne_def Let_def by (auto simp: abs_le_iff)
qed

lemma rne_256: "\<bar>rne (of_int u / 256) * 256 - u\<bar> \<le> 128"
proof -
  have scale: "\<bar>r * 256 - x\<bar> \<le> 128" if "\<bar>r - x / 256\<bar> \<le> 1 / 2" for r x :: rat
    using that by linarith
  have "\<bar>of_int (rne (of_int u / 256) * 256 - u) :: rat\<bar> \<le> of_int 128"
    using scale [OF rne_error [of "of_int u / 256"]] by simp
  then show ?thesis by linarith
qed

lemma rne_mono: "x \<le> y \<Longrightarrow> rne x \<le> rne y"
proof -
  assume le: "x \<le> y"
  then have f: "\<lfloor>x\<rfloor> \<le> \<lfloor>y\<rfloor>" by (rule floor_mono)
  show ?thesis
  proof (cases "\<lfloor>x\<rfloor> = \<lfloor>y\<rfloor>")
    case True
    then show ?thesis using le unfolding rne_def Let_def by auto
  next
    case False
    with f have "\<lfloor>x\<rfloor> + 1 \<le> \<lfloor>y\<rfloor>" by simp
    then show ?thesis unfolding rne_def Let_def by auto
  qed
qed

lemma round_double_exact:
  assumes "x = of_int m * 2 powi (dexp x - 52)"
  shows "round_double x = x"
proof -
  have "x / 2 powi (dexp x - 52) = of_int m" by (subst assms) simp
  then show ?thesis using assms by (simp add: round_double_def Let_def)
qed

lemma round_double_small_int:
  assumes "0 \<le> n" and "n < 2 ^ 53"
  shows "round_double (of_int n) = of_int n"
proof (cases "n = 0")
  case True
  then show ?thesis by (simp add: round_double_def)
next
  case False
  define e where "e = dexp (of_int n)"
  have "(2::rat) powi e \<le> of_int n"
    using dexp_bounds [of "of_int n"] assms False unfolding e_def by simp
  also have "\<dots> < (2::rat) ^ 53" using of_int_less_iff [of n "2 ^ 53", where ?'a = rat] assms(2) by simp
  finally have "(2::rat) powi e < 2 powi 53" by simp
  then have "e < 53" by (simp only: powi_less_iff)
  define k where "k = nat (52 - e)"
  have k: "e - 52 = - int k" using \<open>e < 53\<close> by (simp add: k_def)
  have "(of_int n :: rat) = of_int (n * 2 ^ k) * 2 powi (e - 52)"
    by (simp add: k power_int_minus)
  then show ?thesis unfolding e_def by (rule round_double_exact)
qed

lemma round_double_2_60:
  assumes "2 ^ 60 \<le> x" and "x < 2 ^ 61"
  shows "round_double x = of_int (rne (x / 256) * 256)"
proof -
  have "dexp x = 60" using assms by (intro dexp_eq) simp_all
  moreover have "x \<noteq> 0" using assms by auto
  ultimately show ?thesis by (simp add: round_double_def)
qed

lemma now_value_2_60:
  assumes "1152921505 \<le> sec" and "sec < 2305843009" and "0 \<le> nsec" and "nsec < 1000000000"
  shows "unat (now_value sec nsec) = nat (rne (of_int (sec * 1000000000 + nsec) / 256) * 256)"
    and "0 \<le> rne (of_int (sec * 1000000000 + nsec) / 256)"
proof -
  define t where "t = sec * 1000000000 + nsec"
  define q where "q = rne (of_int t / 256)"
  have sec: "round_double (of_int sec) = of_int sec" and nsec: "round_double (of_int nsec) = of_int nsec"
    using assms by (intro round_double_small_int; simp)+
  have "round_double (of_int sec * 1000000000) = of_int (rne ((of_int sec * 1000000000) / 256) * 256)"
    using assms by (intro round_double_2_60) simp_all
  also have "(of_int sec * 1000000000) / 256 = (of_int (sec * 3906250) :: rat)" by simp
  finally have prod: "round_double (of_int sec * 1000000000) = of_int (sec * 1000000000)"
    by (simp only: rne_of_int)
  have t: "2 ^ 60 \<le> t" "t < 2 ^ 61 - 256" using assms by (simp_all add: t_def)
  have "(2::rat) ^ 60 \<le> of_int t" "of_int t < (2::rat) ^ 61"
    using t of_int_le_iff [of "2 ^ 60" t, where ?'a = rat] of_int_less_iff [of t "2 ^ 61", where ?'a = rat]
    by simp_all
  then have "round_double (of_int t) = of_int (q * 256)" unfolding q_def by (rule round_double_2_60)
  then have now: "now_value sec nsec = of_int (q * 256)"
    unfolding now_value_def sec nsec prod by (simp only: t_def of_int_add floor_of_int)
  have "\<bar>q * 256 - t\<bar> \<le> 128" unfolding q_def by (rule rne_256)
  then have q: "0 \<le> q" "q * 256 < 2 ^ 64" using t by simp_all
  have "unat (of_nat (nat (q * 256)) :: u64) = nat (q * 256)"
    using q by (intro unat_of_nat_u64) simp
  then show "unat (now_value sec nsec) = nat (rne (of_int (sec * 1000000000 + nsec) / 256) * 256)"
    and "0 \<le> rne (of_int (sec * 1000000000 + nsec) / 256)"
    using q now by (simp_all flip: t_def q_def)
qed

text \<open>
  C36: The clock \<open>now\<close> has a resolution of 256 ns.  For every time between July 2006 and January 2043
  the result is a multiple of 256 within 128 ns of the true time: the sum of seconds and
  nanoseconds is formed in a \<open>double\<close>, whose 53 significant bits do not hold a present-day count of
  nanoseconds.  The clock still never runs backwards, and the interval \<open>benchmark\<close> takes between two
  readings is a multiple of 256 that is off by at most 256 ns, so a shorter latency may be measured
  as nothing at all.
\<close>

theorem now_resolution:
  assumes "1152921505 \<le> sec" and "sec < 2305843009" and "0 \<le> nsec" and "nsec < 1000000000"
    and "1152921505 \<le> sec'" and "sec' < 2305843009" and "0 \<le> nsec'" and "nsec' < 1000000000"
    and "sec * 1000000000 + nsec \<le> sec' * 1000000000 + nsec'"
  shows "256 dvd unat (now_value sec nsec) \<and>
     \<bar>uint (now_value sec nsec) - (sec * 1000000000 + nsec)\<bar> \<le> 128 \<and>
     now_value sec nsec \<le> now_value sec' nsec' \<and>
     256 dvd unat (now_value sec' nsec' - now_value sec nsec) \<and>
     \<bar>uint (now_value sec' nsec' - now_value sec nsec)
       - ((sec' * 1000000000 + nsec') - (sec * 1000000000 + nsec))\<bar> \<le> 256"
proof -
  define t t' where "t = sec * 1000000000 + nsec" and "t' = sec' * 1000000000 + nsec'"
  define q q' where "q = rne (of_int t / 256)" and "q' = rne (of_int t' / 256)"
  have n: "unat (now_value sec nsec) = nat (q * 256)" "0 \<le> q"
    using now_value_2_60 [of sec nsec] assms by (simp_all add: q_def t_def)
  have n': "unat (now_value sec' nsec') = nat (q' * 256)" "0 \<le> q'"
    using now_value_2_60 [of sec' nsec'] assms by (simp_all add: q'_def t'_def)
  have qq: "q \<le> q'" unfolding q_def q'_def
    using assms(9) by (intro rne_mono divide_right_mono) (simp_all add: t_def t'_def del: of_int_add)
  then have le: "now_value sec nsec \<le> now_value sec' nsec'"
    using n n' by (simp add: word_le_nat_alt)
  then have d: "unat (now_value sec' nsec' - now_value sec nsec) = nat ((q' - q) * 256)"
    using n n' by (simp add: unat_sub left_diff_distrib nat_diff_distrib)
  have dv: "256 dvd nat (k * 256)" for k :: int
    by (cases "0 \<le> k") (simp_all add: nat_mult_distrib)
  have u: "uint (now_value sec nsec) = q * 256"
    and u': "uint (now_value sec' nsec' - now_value sec nsec) = (q' - q) * 256"
    using n n' d qq by (simp_all add: uint_nat)
  have "\<bar>q * 256 - t\<bar> \<le> 128" and "\<bar>q' * 256 - t'\<bar> \<le> 128"
    unfolding q_def q'_def by (rule rne_256)+
  moreover from this have "\<bar>(q' - q) * 256 - (t' - t)\<bar> \<le> 256" unfolding left_diff_distrib by arith
  ultimately show ?thesis
    unfolding t_def [symmetric] t'_def [symmetric] n(1) d u u' using le dv [of q] dv [of "q' - q"]
    by (intro conjI)
qed

theorem now_resolution_witness:
  "256 dvd unat (now_value 1700000000 100 - now_value 1700000000 0) \<and>
   now_value 1700000000 0 \<le> now_value 1700000000 100"
  using now_resolution [of 1700000000 0 1700000000 100] by simp

section \<open>The report\<close>

lemma round_double_error:
  assumes "0 < x"
  shows "\<bar>round_double x - x\<bar> \<le> x / 9007199254740992"
proof -
  define ulp :: rat where "ulp = 2 powi (dexp x - 52)"
  have ulp: "0 < ulp" by (simp add: ulp_def)
  have "2 powi dexp x = ulp * 4503599627370496" by (simp add: ulp_def power_int_diff)
  then have le: "ulp * 4503599627370496 \<le> x" using dexp_bounds [OF assms] by simp
  have "\<bar>of_int (rne (x / ulp)) - x / ulp\<bar> * ulp \<le> 1 / 2 * ulp"
    using ulp by (intro mult_right_mono rne_error) simp
  moreover have "\<bar>of_int (rne (x / ulp)) - x / ulp\<bar> * ulp = \<bar>(of_int (rne (x / ulp)) - x / ulp) * ulp\<bar>"
    using ulp by (simp add: abs_mult)
  moreover have "(of_int (rne (x / ulp)) - x / ulp) * ulp = round_double x - x"
    using assms ulp by (simp add: round_double_def Let_def left_diff_distrib flip: ulp_def)
  ultimately show ?thesis using le by simp
qed

lemma round_double_pos: "0 < x \<Longrightarrow> 0 < round_double x"
  using round_double_error [of x] by linarith

text \<open>The quotient \<open>count / (sum / 1e9)\<close>, with its three roundings.\<close>

definition rate_dbl :: "rat \<Rightarrow> rat \<Rightarrow> rat" where
  "rate_dbl n S = round_double (n / round_double (round_double S / 1000000000))"

lemma rate_close:
  fixes n S :: rat
  assumes "0 < n" and "0 < S" and "n * 1000000000 \<le> 2147483648 * S"
  defines "b \<equiv> round_double (round_double S / 1000000000)"
  shows "0 < rate_dbl n S" and "\<bar>rate_dbl n S - n * 1000000000 / S\<bar> \<le> 1 / 1000000"
proof -
  define a where "a = round_double S"
  define x where "x = n * 1000000000 / S"
  define y where "y = n / b"
  note S = assms(2)
  have a: "0 < a" "\<bar>a - S\<bar> \<le> S / 9007199254740992"
    using round_double_pos [OF S] round_double_error [OF S] by (simp_all add: a_def)
  then have b: "0 < b" "\<bar>b - a / 1000000000\<bar> \<le> a / 1000000000 / 9007199254740992"
    using round_double_pos [of "a / 1000000000"] round_double_error [of "a / 1000000000"]
    by (simp_all add: b_def a_def)
  have y: "0 < y" using assms(1) b(1) by (simp add: y_def)
  have c: "0 < round_double y" "\<bar>round_double y - y\<bar> \<le> y / 9007199254740992"
    using round_double_pos [OF y] round_double_error [OF y] by simp_all
  have "S - S / 4503599627370000 \<le> 1000000000 * b" and "1000000000 * b \<le> S + S / 4503599627370000"
    using a b S unfolding abs_le_iff by (auto simp: field_simps)
  then have "S * (1 - 1 / 4503599627370000) \<le> 1000000000 * b" and "1000000000 * b \<le> S * (1 + 1 / 4503599627370000)"
    by (simp_all only: right_diff_distrib distrib_left mult_1_right times_divide_eq_right)
  then have "y * (S * (1 - 1 / 4503599627370000)) \<le> y * (1000000000 * b)"
    and "y * (1000000000 * b) \<le> y * (S * (1 + 1 / 4503599627370000))"
    using y by (auto intro: mult_left_mono)
  moreover have "y * (1000000000 * b) = x * S" using b(1) S by (simp add: y_def x_def)
  ultimately have "(y * (1 - 1 / 4503599627370000)) * S \<le> x * S" and "x * S \<le> (y * (1 + 1 / 4503599627370000)) * S"
    by (simp_all only: mult.assoc mult.commute [of S])
  then have "y * (1 - 1 / 4503599627370000) \<le> x" and "x \<le> y * (1 + 1 / 4503599627370000)"
    using S by (simp_all only: mult_le_cancel_right_pos)
  moreover have "x \<le> 2147483648" using assms(3) S by (simp add: x_def pos_divide_le_eq)
  ultimately have "\<bar>round_double y - x\<bar> \<le> 1 / 1000000"
    using c(2) y unfolding abs_le_iff by (auto simp: field_simps)
  then show "\<bar>rate_dbl n S - n * 1000000000 / S\<bar> \<le> 1 / 1000000"
    by (simp add: x_def y_def rate_dbl_def b_def)
  show "0 < rate_dbl n S" using c(1) by (simp add: y_def rate_dbl_def b_def)
qed

text \<open>
  The conversion of the rate is decided exactly by the numbers themselves: near \<open>2 ^ 31\<close> the sum is small
  enough to be exact, and the quotient differs from \<open>2 ^ 31\<close> by more than the two roundings left, or not at
  all.
\<close>

lemma rate_near:
  fixes n S :: int
  assumes "0 < n" and "0 < S" and "S < 2 ^ 53"
  shows "n * 1000000000 + 512 \<le> 2147483648 * S \<Longrightarrow> S \<le> 1000000000 \<Longrightarrow> rate_dbl (of_int n) (of_int S) < 2147483648"
    and "2147483648 * S + 512 \<le> n * 1000000000 \<Longrightarrow> S \<le> 1000000000 \<Longrightarrow> 2147483648 \<le> rate_dbl (of_int n) (of_int S)"
proof -
  define x :: rat where "x = of_int S / 1000000000"
  define b where "b = round_double x"
  define y where "y = of_int n / b"
  have x: "0 < x" using assms(2) by (simp add: x_def)
  have b: "0 < b" "\<bar>b - x\<bar> \<le> x / 9007199254740992"
    using round_double_pos [OF x] round_double_error [OF x] by (simp_all add: b_def)
  have y: "0 < y" "y * b = of_int n" using assms(1) b(1) by (simp_all add: y_def)
  have c: "\<bar>round_double y - y\<bar> \<le> y / 9007199254740992" using round_double_error [OF y(1)] .
  have rate: "rate_dbl (of_int n) (of_int S) = round_double y"
    using assms by (simp add: rate_dbl_def y_def b_def x_def round_double_small_int)
  have "x * (1 - 1 / 9007199254740992) \<le> b" and "b \<le> x * (1 + 1 / 9007199254740992)"
    using b(2) unfolding abs_le_iff by (auto simp: field_simps)
  then have "y * (x * (1 - 1 / 9007199254740992)) \<le> y * b" and "y * b \<le> y * (x * (1 + 1 / 9007199254740992))"
    using y(1) by (auto intro: mult_left_mono)
  then have low: "(y * (1 - 1 / 9007199254740992)) * of_int S \<le> of_int n * 1000000000"
    and high: "of_int n * 1000000000 \<le> (y * (1 + 1 / 9007199254740992)) * of_int S"
    unfolding y(2) x_def by (simp_all add: field_simps)
  have S: "(0::rat) < of_int S" using assms(2) by simp
  show "rate_dbl (of_int n) (of_int S) < 2147483648"
    if "n * 1000000000 + 512 \<le> 2147483648 * S" and "S \<le> 1000000000"
  proof -
    have "(of_int (n * 1000000000 + 512) :: rat) \<le> of_int (2147483648 * S)" and small: "(of_int S :: rat) \<le> 1000000000"
      using that by (simp_all only: of_int_le_iff of_int_le_numeral_iff)
    then have "(y * (1 - 1 / 9007199254740992)) * of_int S \<le> (2147483648 - 512 / 1000000000) * of_int S"
      using low by (simp add: field_simps)
    then have "y * (1 - 1 / 9007199254740992) \<le> 2147483648 - 512 / 1000000000"
      using S by (simp only: mult_le_cancel_right_pos)
    then show ?thesis using c unfolding rate abs_le_iff by (auto simp: field_simps)
  qed
  show "2147483648 \<le> rate_dbl (of_int n) (of_int S)"
    if "2147483648 * S + 512 \<le> n * 1000000000" and "S \<le> 1000000000"
  proof -
    have "(of_int (2147483648 * S + 512) :: rat) \<le> of_int (n * 1000000000)" and small: "(of_int S :: rat) \<le> 1000000000"
      using that by (simp_all only: of_int_le_iff of_int_le_numeral_iff)
    then have "(2147483648 + 512 / 1000000000) * of_int S \<le> (y * (1 + 1 / 9007199254740992)) * of_int S"
      using high by (simp add: field_simps)
    then have "2147483648 + 512 / 1000000000 \<le> y * (1 + 1 / 9007199254740992)"
      using S by (simp only: mult_le_cancel_right_pos)
    then show ?thesis using c unfolding rate abs_le_iff by (auto simp: field_simps)
  qed
qed

lemma rate_exact:
  assumes "n * 1000000000 = 2147483648 * S" and "0 < n" and "n < 2 ^ 31"
  shows "rate_dbl (of_int n) (of_int S) = 2147483648"
proof -
  have eq: "n * 1953125 = 4194304 * S" using assms(1) by simp
  have "coprime ((5::int) ^ 9) (2 ^ 22)" by (intro coprime_power_left_iff [THEN iffD2] coprime_power_right_iff [THEN iffD2] disjI1) simp
  then have "coprime (1953125 :: int) 4194304" by simp
  moreover have "1953125 dvd 4194304 * S" using eq by (metis dvd_triv_right)
  ultimately obtain k where S: "S = 1953125 * k" by (metis coprime_dvd_mult_right_iff dvdE)
  then have n: "n = 4194304 * k" using eq by simp
  then have k: "0 < k" "k < 512" using assms(2,3) by simp_all
  define e where "e = dexp (of_int k / 512)"
  have "(2::rat) powi e \<le> of_int k / 512" using dexp_bounds [of "of_int k / 512"] k unfolding e_def by simp
  also have "\<dots> < 1" using k by simp
  finally have "(2::rat) powi e < 2 powi 0" by simp
  then have "e < 0" by (simp only: powi_less_iff)
  define j where "j = nat (43 - e)"
  have j: "e - 52 = - int j - 9" using \<open>e < 0\<close> by (simp add: j_def)
  have "(of_int k / 512 :: rat) = of_int (k * 2 ^ j) * 2 powi (e - 52)"
    by (simp add: j power_int_diff power_int_minus)
  then have b: "round_double (of_int k / 512) = (of_int k / 512 :: rat)" unfolding e_def by (rule round_double_exact)
  have "round_double (of_int S) = of_int S" using S k by (intro round_double_small_int) simp_all
  moreover have "(of_int S / 1000000000 :: rat) = of_int k / 512" by (simp add: S)
  moreover have "of_int n / (of_int k / 512) = (of_int 2147483648 :: rat)" using k by (simp add: n)
  ultimately show ?thesis unfolding rate_dbl_def using round_double_small_int [of 2147483648] by (simp only: b) simp
qed

lemma gap_512:
  fixes n S :: int
  shows "n * 1000000000 < 2147483648 * S \<Longrightarrow> n * 1000000000 + 512 \<le> 2147483648 * S"
    and gap_512': "2147483648 * S < n * 1000000000 \<Longrightarrow> 2147483648 * S + 512 \<le> n * 1000000000"
proof -
  have eq: "n * 1000000000 = 512 * (n * 1953125)" "2147483648 * S = 512 * (4194304 * S)" by simp_all
  show "n * 1000000000 + 512 \<le> 2147483648 * S" if "n * 1000000000 < 2147483648 * S"
    using that unfolding eq by simp
  show "2147483648 * S + 512 \<le> n * 1000000000" if "2147483648 * S < n * 1000000000"
    using that unfolding eq by simp
qed

lemma rate_threshold:
  fixes n S :: int
  assumes "0 < n" and "n < 2 ^ 31" and "0 < S"
  shows "rate_dbl (of_int n) (of_int S) < 2147483648 \<longleftrightarrow> n * 1000000000 < 2147483648 * S"
proof (cases "n * 1000000000 < 2147483648 * S")
  case True
  then have gap: "n * 1000000000 + 512 \<le> 2147483648 * S" by (rule gap_512)
  show ?thesis
  proof (cases "S \<le> 1000000000")
    case small: True
    then show ?thesis using rate_near(1) [OF assms(1,3) _ gap small] True by simp
  next
    case False
    have "n * 1000000000 \<le> 2147483647 * S" using assms(2) False by auto
    then have "(of_int (n * 1000000000) :: rat) \<le> of_int (2147483647 * S)" by (simp only: of_int_le_iff)
    then have "of_int n * 1000000000 / of_int S \<le> (2147483647 :: rat)" using assms(3) by (simp add: pos_divide_le_eq)
    moreover have "(of_int n * 1000000000 :: rat) \<le> 2147483648 * of_int S"
      using \<open>of_int (n * 1000000000) \<le> of_int (2147483647 * S)\<close> assms(3) by simp
    ultimately have "rate_dbl (of_int n) (of_int S) \<le> 2147483647 + 1 / 1000000"
      using rate_close(2) [of "of_int n" "of_int S"] assms(1,3) unfolding abs_le_iff by auto
    then show ?thesis using True by auto
  qed
next
  case False
  then have S: "S \<le> 1000000000" using assms(2) by auto
  consider "n * 1000000000 = 2147483648 * S" | "2147483648 * S + 512 \<le> n * 1000000000"
    using False gap_512' [of S n] by linarith
  then have "2147483648 \<le> rate_dbl (of_int n) (of_int S)"
    using rate_exact [OF _ assms(1,2)] rate_near(2) [OF assms(1,3) _ _ S] S by cases simp_all
  then show ?thesis using False by simp
qed

text \<open>
  C37: What \<open>evaluate\<close> does with any statistics of at least one message.  A non-positive \<open>args->count\<close>
  fails the assertion.  Otherwise the conversion of the message rate to \<open>int\<close> is undefined exactly when
  nothing was summed up (then also with nothing counted, \<open>0 / 0\<close>) or the rate, \<open>count\<close> times a thousand million
  over \<open>sum\<close>, is at least \<open>2 ^ 31\<close>; rounding never shifts this border.  In all other cases a report is printed
  whose count is the number of measurements and whose rate is \<open>count / sum\<close> in messages per second, up to
  the truncation and a rounding error below one millionth.
\<close>

theorem evaluate_outcome:
  "(sint (a_count args) \<le> 0 \<longrightarrow> evaluate b args w = (Inl Assertion, w)) \<and>
   (0 < sint (a_count args) \<and> b_sum b = 0 \<longrightarrow>
      evaluate b args w = (Inl (Undefined ''message rate out of range''), w)) \<and>
   (0 < sint (a_count args) \<and> 0 < sint (b_count b) \<and> b_sum b \<noteq> 0 \<longrightarrow>
      (if sint (b_count b) * 1000000000 < 2 ^ 31 * uint (b_sum b)
       then \<exists>r. evaluate b args w = (Inr r, w) \<and> r_size r = sint (a_size args) \<and>
         r_count r = sint (b_count b) \<and>
         \<bar>of_int (r_rate r) - of_int (sint (b_count b)) * 1000000000 / (of_int (uint (b_sum b)) :: rat)\<bar>
           \<le> 1 + 1 / 1000000
       else evaluate b args w = (Inl (Undefined ''message rate out of range''), w)))"
proof (intro conjI impI)
  assume "sint (a_count args) \<le> 0"
  then show "evaluate b args w = (Inl Assertion, w)" by (simp add: evaluate_def halt_c_def)
next
  assume "0 < sint (a_count args) \<and> b_sum b = 0"
  then show "evaluate b args w = (Inl (Undefined ''message rate out of range''), w)"
    by (simp add: evaluate_def round_double_def halt_c_def Let_def)
next
  assume pre: "0 < sint (a_count args) \<and> 0 < sint (b_count b) \<and> b_sum b \<noteq> 0"
  define n S where "n = sint (b_count b)" and "S = uint (b_sum b)"
  define c where "c = rate_dbl (of_int n) (of_int S)"
  have nS: "0 < n" "n < 2 ^ 31" "0 < S"
    using pre sint_lt [of "b_count b"] by (simp_all add: n_def S_def less_le uint_0_iff)
  note threshold = rate_threshold [OF nS, folded c_def]
  have d: "0 < round_double (round_double (of_int S) / 1000000000)" using nS(3) by (simp add: round_double_pos)
  have "0 < c" using round_double_pos [of "of_int n / round_double (round_double (of_int S) / 1000000000)"] nS(1) d
    by (simp add: c_def rate_dbl_def)
  then have fl: "0 \<le> \<lfloor>c\<rfloor>" "of_int \<lfloor>c\<rfloor> \<le> c" "c < of_int \<lfloor>c\<rfloor> + 1" by (simp, linarith+)
  have conv: "int_of_dbl (div_dbl (Finite (of_int n)) (div_dbl (Finite (round_double (of_int S))) (Finite 1000000000))) =
      (if c < 2147483648 then Some \<lfloor>c\<rfloor> else None)"
    using d \<open>0 < c\<close> fl(1) by (simp add: Let_def floor_less_iff rate_dbl_def flip: c_def) (simp add: c_def rate_dbl_def)
  have ev: "evaluate b args w = (case (if c < 2147483648 then Some \<lfloor>c\<rfloor> else None) of
      None \<Rightarrow> (Inl (Undefined ''message rate out of range''), w)
    | Some k \<Rightarrow> (Inr \<lparr>r_size = sint (a_size args), r_count = n,
        r_total_ms = div_dbl (dbl_u64 (b_sum b)) (Finite 1000000),
        r_average_us = div_dbl (div_dbl (dbl_u64 (b_sum b)) (Finite (of_int n))) (Finite 1000),
        r_minimum_us = div_dbl (dbl_u64 (b_minimum b)) (Finite 1000),
        r_maximum_us = div_dbl (dbl_u64 (b_maximum b)) (Finite 1000), r_rate = k\<rparr>, w))"
    using pre conv unfolding evaluate_def n_def S_def
    by (simp del: int_of_dbl.simps div_dbl.simps add: Let_def return_c_def halt_c_def)
  show "if sint (b_count b) * 1000000000 < 2 ^ 31 * uint (b_sum b)
       then \<exists>r. evaluate b args w = (Inr r, w) \<and> r_size r = sint (a_size args) \<and> r_count r = sint (b_count b) \<and>
         \<bar>of_int (r_rate r) - of_int (sint (b_count b)) * 1000000000 / (of_int (uint (b_sum b)) :: rat)\<bar>
           \<le> 1 + 1 / 1000000
       else evaluate b args w = (Inl (Undefined ''message rate out of range''), w)"
  proof (cases "c < 2147483648")
    case True
    then have "n * 1000000000 < 2147483648 * S" using threshold by simp
    moreover from this have "(of_int (n * 1000000000) :: rat) \<le> of_int (2147483648 * S)" by (simp only: of_int_le_iff)
    then have "\<bar>c - of_int n * 1000000000 / of_int S\<bar> \<le> 1 / 1000000"
      using rate_close(2) [of "of_int n" "of_int S"] nS by (simp add: c_def)
    then have "\<bar>of_int \<lfloor>c\<rfloor> - of_int n * 1000000000 / (of_int S :: rat)\<bar> \<le> 1 + 1 / 1000000" using fl(2,3) by linarith
    ultimately show ?thesis using True by (simp add: ev flip: n_def S_def)
  next
    case False
    then show ?thesis using threshold by (simp add: ev flip: n_def S_def)
  qed
qed

definition idle_os :: os where "idle_os calls c = ok_reply 0"

definition idle_world :: world where "idle_world = \<lparr>w_os = idle_os, w_calls = [], w_errno = 0\<rparr>"

text \<open>A message in 256 ns is reported; five in one nanosecond, and nothing at all, are undefined.\<close>

theorem evaluate_outcome_witness:
  "(\<exists>r. evaluate (sample_bench\<lparr>b_count := 1, b_sum := 256\<rparr>) \<lparr>a_size = 1, a_count = 1\<rparr> idle_world = (Inr r, idle_world) \<and>
      r_count r = 1) \<and>
   evaluate (sample_bench\<lparr>b_count := 5, b_sum := 1\<rparr>) \<lparr>a_size = 1, a_count = 1\<rparr> idle_world =
     (Inl (Undefined ''message rate out of range''), idle_world) \<and>
   evaluate (sample_bench\<lparr>b_sum := 0\<rparr>) \<lparr>a_size = 1, a_count = 1\<rparr> idle_world =
     (Inl (Undefined ''message rate out of range''), idle_world)"
  using evaluate_outcome [of "\<lparr>a_size = 1, a_count = 1\<rparr>" "sample_bench\<lparr>b_count := 1, b_sum := 256\<rparr>" idle_world]
    evaluate_outcome [of "\<lparr>a_size = 1, a_count = 1\<rparr>" "sample_bench\<lparr>b_count := 5, b_sum := 1\<rparr>" idle_world]
    evaluate_outcome [of "\<lparr>a_size = 1, a_count = 1\<rparr>" "sample_bench\<lparr>b_sum := 0\<rparr>" idle_world]
  by auto

end
