(* ===== verification/Options.thy ===== *)
theory Options
  imports Benchmarks
begin

text \<open>
  \<^verbatim>\<open>source/common/arguments.c\<close>: the command line.  \<open>getopt_long\<close> and \<open>atoi\<close> are those of the GNU C
  library as far as the two callers use them: option strings starting with \<open>+:\<close> (no reordering,
  silent, a colon for a missing argument), abbreviated and exact long options, arguments attached or
  in the next word, clusters of short options.
\<close>

section \<open>The C library\<close>

datatype has_arg = no_argument | required_argument | optional_argument

datatype opt_result = Done | Found char "string option" | Unrecognised | Missing

text \<open>The rest of \<open>argv\<close> from \<open>optind\<close>, and what is left of a cluster in its first word.\<close>

type_synonym getopt_state = "string list \<times> string"

fun short_spec :: "string \<Rightarrow> char \<Rightarrow> has_arg option" where
  "short_spec [] c = None"
| "short_spec (x # xs) c =
     (if x = c
      then Some (if take 2 xs = ''::'' then optional_argument
                 else if take 1 xs = '':'' then required_argument else no_argument)
      else short_spec xs c)"

definition short_opt :: "string \<Rightarrow> char \<Rightarrow> string \<Rightarrow> string list \<Rightarrow> opt_result \<times> getopt_state" where
  "short_opt optstring c cl as =
     (let next = (if cl = [] then (tl as, []) else (as, cl)) in
      if c = CHR '':'' \<or> c = CHR '';'' then (Unrecognised, next) else
      case short_spec optstring c of
        None \<Rightarrow> (Unrecognised, next)
      | Some no_argument \<Rightarrow> (Found c None, next)
      | Some required_argument \<Rightarrow>
          (if cl \<noteq> [] then (Found c (Some cl), (tl as, []))
           else case tl as of
             [] \<Rightarrow> (Missing, ([], []))
           | v # as' \<Rightarrow> (Found c (Some v), (as', [])))
      | Some optional_argument \<Rightarrow> (Found c (if cl = [] then None else Some cl), (tl as, [])))"

type_synonym long_table = "(string \<times> has_arg \<times> char) list"

text \<open>An exact name, or else the only entry it abbreviates.\<close>

definition long_lookup :: "long_table \<Rightarrow> string \<Rightarrow> (has_arg \<times> char) option" where
  "long_lookup table name =
     (case map_of table name of
        Some e \<Rightarrow> Some e
      | None \<Rightarrow> (case filter (\<lambda>(n, _). take (length name) n = name) table of
                  [(_, e)] \<Rightarrow> Some e
                | _ \<Rightarrow> None))"

definition long_opt :: "long_table \<Rightarrow> string \<Rightarrow> string list \<Rightarrow> opt_result \<times> getopt_state" where
  "long_opt table word as =
     (let name = takeWhile (\<lambda>c. c \<noteq> CHR ''='') word; value = dropWhile (\<lambda>c. c \<noteq> CHR ''='') word in
      case long_lookup table name of
        None \<Rightarrow> (Unrecognised, (as, []))
      | Some (arg, v) \<Rightarrow>
          (if value \<noteq> [] then (if arg = no_argument then (Unrecognised, (as, []))
                               else (Found v (Some (tl value)), (as, [])))
           else if arg = required_argument
                then (case as of [] \<Rightarrow> (Missing, ([], [])) | w # as' \<Rightarrow> (Found v (Some w), (as', [])))
                else (Found v None, (as, []))))"

fun getopt_long :: "string \<Rightarrow> long_table \<Rightarrow> getopt_state \<Rightarrow> opt_result \<times> getopt_state" where
  "getopt_long optstring table (as, c # cl) = short_opt optstring c cl as"
| "getopt_long optstring table ([], []) = (Done, ([], []))"
| "getopt_long optstring table (w # as, []) =
     (if take 1 w \<noteq> ''-'' \<or> w = ''-'' then (Done, (w # as, []))
      else if w = ''--'' then (Done, (as, []))
      else if take 2 w = ''--'' then long_opt table (drop 2 w) as
      else short_opt optstring (w ! 1) (drop 2 w) (w # as))"

text \<open>The character \<open>getopt_long\<close> returns, \<open>None\<close> for \<open>-1\<close>.\<close>

fun opt_char :: "opt_result \<Rightarrow> char option" where
  "opt_char Done = None"
| "opt_char (Found c _) = Some c"
| "opt_char Unrecognised = Some (CHR ''?'')"
| "opt_char Missing = Some (CHR '':'')"

fun optarg :: "opt_result \<Rightarrow> string" where
  "optarg (Found _ (Some v)) = v"
| "optarg _ = []"

definition is_space :: "char \<Rightarrow> bool" where
  "is_space c \<longleftrightarrow> c = CHR '' '' \<or> (9 \<le> (of_char c :: nat) \<and> (of_char c :: nat) \<le> 13)"

definition is_digit :: "char \<Rightarrow> bool" where
  "is_digit c \<longleftrightarrow> 48 \<le> (of_char c :: nat) \<and> (of_char c :: nat) \<le> 57"

definition digits_value :: "string \<Rightarrow> int" where
  "digits_value ds = foldl (\<lambda>acc c. acc * 10 + (of_char c - 48)) 0 ds"

text \<open>\<open>atoi\<close> is \<open>(int) strtol(s, NULL, 10)\<close>: \<open>strtol\<close> saturates, the conversion keeps 32 bits.\<close>

definition atoi :: "string \<Rightarrow> c_int" where
  "atoi s =
     (let s = dropWhile is_space s;
          negative = (take 1 s = ''-'');
          s = (if take 1 s = ''-'' \<or> take 1 s = ''+'' then tl s else s);
          v = digits_value (takeWhile is_digit s);
          v = (if negative then - v else v)
      in of_int (max (-(2 ^ 63)) (min (2 ^ 63 - 1) v)))"

section \<open>The code\<close>

definition DEFAULT_MESSAGE_SIZE :: c_int where "DEFAULT_MESSAGE_SIZE = 4096"

definition print_usage :: "'a prog" where
  "print_usage =
     seq_c (sys_do (Misc (Printf (''Usage: fifos -s/--size <bytes> -c/--count <number>'' @ [CHR 0x0A]))))
       (halt_c (Exited 1))"

definition long_options :: long_table where
  "long_options = [(''size'', required_argument, CHR ''s''), (''count'', required_argument, CHR ''c'')]"

text \<open>How much of the command line a state of the scan has left.\<close>

definition words_size :: "string list \<Rightarrow> nat" where
  "words_size as = sum_list (map (\<lambda>w. Suc (length w)) as)"

fun scan_left :: "getopt_state \<Rightarrow> nat" where
  "scan_left (as, cl) = (if cl = [] then words_size as else length cl + words_size (tl as))"

lemma words_size_simps [simp]:
  "words_size [] = 0" "words_size (w # as) = Suc (length w) + words_size as"
  by (simp_all add: words_size_def)

lemma short_opt_left:
  "short_opt os c cl as = (r, st) \<Longrightarrow> scan_left st \<le> length cl + words_size (tl as)"
  by (auto simp: short_opt_def Let_def split: if_splits option.splits has_arg.splits list.splits)

lemma long_opt_left: "long_opt table word as = (r, st) \<Longrightarrow> scan_left st \<le> words_size as"
  by (auto simp: long_opt_def Let_def split: if_splits option.splits prod.splits list.splits)

lemma getopt_long_left:
  assumes "getopt_long os table st = (r, st')" and "r \<noteq> Done"
  shows "scan_left st' < scan_left st"
proof (cases "(os, table, st)" rule: getopt_long.cases)
  case (1 os' table' as c cl)
  then show ?thesis using assms short_opt_left [of os c cl as r st'] by simp
next
  case (2 os' table')
  then show ?thesis using assms by simp
next
  case (3 os' table' w as)
  show ?thesis
  proof (cases "take 2 w = ''--'' \<and> w \<noteq> ''--''")
    case True
    then have "take 1 w = ''-''" and "w \<noteq> ''-''" by (cases w; auto)+
    with True 3 assms have "long_opt table (drop 2 w) as = (r, st')" by simp
    then show ?thesis using long_opt_left 3 by fastforce
  next
    case False
    with 3 assms have "short_opt os (w ! 1) (drop 2 w) (w # as) = (r, st')" by (auto split: if_splits)
    then have "scan_left st' \<le> length (drop 2 w) + words_size as" using short_opt_left by fastforce
    then show ?thesis using 3 by simp
  qed
qed

lemma getopt_long_decreases:
  "(r, st') = getopt_long os table st \<Longrightarrow> r \<noteq> Done \<Longrightarrow> scan_left st' < scan_left st"
  using getopt_long_left by metis

text \<open>The loops of \<open>parse_arguments\<close> and \<open>check_flag\<close>.\<close>

function parse_loop :: "getopt_state \<Rightarrow> Arguments \<Rightarrow> Arguments" where
  "parse_loop st arguments =
     (let (r, st') = getopt_long '':s:c:'' long_options st in
      if r = Done then arguments
      else if opt_char r = Some (CHR ''s'') then parse_loop st' (arguments\<lparr>a_size := atoi (optarg r)\<rparr>)
      else if opt_char r = Some (CHR ''c'') then parse_loop st' (arguments\<lparr>a_count := atoi (optarg r)\<rparr>)
      else parse_loop st' arguments)"
  by pat_completeness auto
termination
  by (relation "measure (scan_left \<circ> fst)") 
    (auto simp del: scan_left.simps getopt_long.simps intro: getopt_long_decreases)

definition parse_arguments :: "string list \<Rightarrow> Arguments" where
  "parse_arguments argv = parse_loop (tl argv, []) \<lparr>a_size = DEFAULT_MESSAGE_SIZE, a_count = 1000\<rparr>"

function flag_loop :: "string \<Rightarrow> string \<Rightarrow> getopt_state \<Rightarrow> bool" where
  "flag_loop flag short_flag st =
     (let (r, st') = getopt_long short_flag [(flag, no_argument, hd flag)] st in
      if r = Done then False
      else if opt_char r = Some (hd flag) then True
      else flag_loop flag short_flag st')"
  by pat_completeness auto
termination
  by (relation "measure (\<lambda>(_, _, st). scan_left st)") 
    (auto simp del: scan_left.simps getopt_long.simps intro: getopt_long_decreases)

text \<open>
  The array \<open>short_flag\<close> has no terminating zero; \<open>tail\<close> stands for the bytes that happen to follow
  it up to the next zero.  The leading plus is consumed by \<open>getopt_long\<close>.
\<close>

definition check_flag :: "string \<Rightarrow> string \<Rightarrow> string list \<Rightarrow> bool" where
  "check_flag tail flag argv = flag_loop flag (CHR '':'' # hd flag # tail) (tl argv, [])"

declare parse_loop.simps [simp del] flag_loop.simps [simp del]

section \<open>Decimal numbers\<close>

fun dec :: "nat \<Rightarrow> string" where
  "dec n = (if n < 10 then [] else dec (n div 10)) @ [char_of (48 + n mod 10)]"

declare dec.simps [simp del]

definition dec_int :: "int \<Rightarrow> string" where
  "dec_int n = (if n < 0 then CHR ''-'' # dec (nat (- n)) else dec (nat n))"

lemma of_char_digit [simp]: "d < 10 \<Longrightarrow> (of_char (char_of (48 + d) :: char) :: nat) = 48 + d" for d :: nat
  by (simp add: of_char_of)

lemma of_char_digit_int: "d < 10 \<Longrightarrow> (of_char (char_of (48 + d) :: char) :: int) = 48 + int d" for d :: nat
proof -
  assume "d < 10"
  then have "int (of_char (char_of (48 + d) :: char)) = 48 + int d" by simp
  then show ?thesis by (simp only: of_nat_of_char)
qed

lemma dec_digits: "c \<in> set (dec n) \<Longrightarrow> is_digit c"
proof (induction n rule: dec.induct)
  case (1 n)
  then show ?case by (subst (asm) (2) dec.simps) (auto simp: is_digit_def split: if_splits)
qed

lemma dec_not_Nil [simp]: "dec n \<noteq> []"
  by (subst dec.simps) simp

lemma digits_value_dec [simp]: "digits_value (dec n) = int n"
proof (induction n rule: dec.induct)
  case (1 n)
  have "int (n div 10) * 10 + int (n mod 10) = int n" by (simp add: zdiv_int zmod_int)
  moreover have "(of_char (char_of (48 + n mod 10) :: char) :: int) = 48 + int (n mod 10)"
    by (rule of_char_digit_int) simp
  ultimately show ?case
    using 1 by (subst dec.simps) (auto simp: digits_value_def)
qed

lemma takeWhile_dec [simp]: "takeWhile is_digit (dec n) = dec n"
  by (simp add: takeWhile_eq_all_conv dec_digits)

lemma dec_head:
  obtains c cs where "dec n = c # cs" and "is_digit c"
  using dec_digits [of _ n] dec_not_Nil [of n] by (cases "dec n") auto

lemma digit_no_space: "is_digit c \<Longrightarrow> \<not> is_space c \<and> c \<noteq> CHR ''-'' \<and> c \<noteq> CHR ''+''"
  by (auto simp: is_digit_def is_space_def)

lemma dec_front: "dropWhile is_space (dec n) = dec n" "take 1 (dec n) \<noteq> ''-''" "take 1 (dec n) \<noteq> ''+''"
  by (rule dec_head [of n]; auto dest: digit_no_space)+

lemma atoi_dec_int:
  assumes "-(2 ^ 63) \<le> n" and "n < 2 ^ 63"
  shows "atoi (dec_int n) = of_int n"
proof -
  have clamp: "max (-(2 ^ 63)) (min (2 ^ 63 - 1) n) = n" using assms by simp
  show ?thesis
  proof (cases "n < 0")
    case True
    then show ?thesis using clamp by (simp add: atoi_def dec_int_def is_space_def Let_def)
  next
    case False
    then show ?thesis
      using clamp dec_front [of "nat n"] by (simp add: atoi_def dec_int_def Let_def)
  qed
qed

section \<open>Well-formed command lines\<close>

datatype style = Attached | Separate | Long_separate | Long_equals

datatype setting = Size int | Count int | Flag string

fun render :: "style \<times> setting \<Rightarrow> string list" where
  "render (Attached, Size n) = [''-s'' @ dec_int n]"
| "render (Separate, Size n) = [''-s'', dec_int n]"
| "render (Long_separate, Size n) = [''--size'', dec_int n]"
| "render (Long_equals, Size n) = [''--size='' @ dec_int n]"
| "render (Attached, Count n) = [''-c'' @ dec_int n]"
| "render (Separate, Count n) = [''-c'', dec_int n]"
| "render (Long_separate, Count n) = [''--count'', dec_int n]"
| "render (Long_equals, Count n) = [''--count='' @ dec_int n]"
| "render (_, Flag f) = [''--'' @ f]"

text \<open>Numbers in the range of \<open>long\<close>; flags that neither are nor abbreviate one of the two options.\<close>

fun proper :: "style \<times> setting \<Rightarrow> bool" where
  "proper (_, Size n) \<longleftrightarrow> -(2 ^ 63) \<le> n \<and> n < 2 ^ 63"
| "proper (_, Count n) \<longleftrightarrow> -(2 ^ 63) \<le> n \<and> n < 2 ^ 63"
| "proper (_, Flag f) \<longleftrightarrow> f \<noteq> [] \<and> CHR ''='' \<notin> set f \<and> take (length f) ''size'' \<noteq> f \<and> take (length f) ''count'' \<noteq> f"

fun apply_setting :: "style \<times> setting \<Rightarrow> Arguments \<Rightarrow> Arguments" where
  "apply_setting (_, Size n) a = a\<lparr>a_size := of_int n\<rparr>"
| "apply_setting (_, Count n) a = a\<lparr>a_count := of_int n\<rparr>"
| "apply_setting (_, Flag _) a = a"

lemma dec_int_not_Nil [simp]: "dec_int n \<noteq> []"
  by (simp add: dec_int_def)

text \<open>One round of the parsing loop on each form of an option.\<close>

lemma getopt_render:
  "getopt_long '':s:c:'' long_options (render (st, Size n) @ as, []) = (Found (CHR ''s'') (Some (dec_int n)), (as, []))"
  "getopt_long '':s:c:'' long_options (render (st, Count n) @ as, []) = (Found (CHR ''c'') (Some (dec_int n)), (as, []))"
  by (cases st; simp add: short_opt_def long_opt_def long_lookup_def long_options_def Let_def)+

lemma getopt_flag:
  assumes "proper (st, Flag f)"
  shows "getopt_long '':s:c:'' long_options (render (st, Flag f) @ as, []) = (Unrecognised, (as, []))"
proof -
  have "takeWhile (\<lambda>c. c \<noteq> CHR ''='') f = f"
    using assms by (auto simp: takeWhile_eq_all_conv)
  moreover have "f \<noteq> ''size''" and "f \<noteq> ''count''" using assms by auto
  moreover have "long_lookup long_options f = None"
    using assms by (auto simp: long_lookup_def long_options_def)
  ultimately show ?thesis
    using assms by (cases f) (auto simp: long_opt_def Let_def)
qed

lemma parse_loop_render:
  assumes "proper x"
  shows "parse_loop (render x @ as, []) a = parse_loop (as, []) (apply_setting x a)"
proof -
  obtain st v where x: "x = (st, v)" by (cases x)
  show ?thesis
  proof (cases v)
    case (Flag f)
    then show ?thesis using getopt_flag [of st f as] assms x by (subst parse_loop.simps) simp
  next
    case (Size n)
    then show ?thesis
      using getopt_render(1) [of st n as] assms x by (subst parse_loop.simps) (simp add: atoi_dec_int)
  next
    case (Count n)
    then show ?thesis
      using getopt_render(2) [of st n as] assms x by (subst parse_loop.simps) (simp add: atoi_dec_int)
  qed
qed

lemma parse_loop_renders:
  "\<forall>x\<in>set xs. proper x \<Longrightarrow>
     parse_loop (concat (map render xs) @ as, []) a = parse_loop (as, []) (fold apply_setting xs a)"
  by (induction xs arbitrary: a) (simp_all add: parse_loop_render)

text \<open>A word that is not an option.\<close>

definition operand :: "string \<Rightarrow> bool" where
  "operand w \<longleftrightarrow> take 1 w \<noteq> ''-'' \<or> w = ''-''"

lemma parse_loop_stop: "as = [] \<or> operand (hd as) \<Longrightarrow> parse_loop (as, []) a = a"
  by (subst parse_loop.simps, cases as) (auto simp: operand_def)

text \<open>
  C24: Parsing the command line.  For every sequence of size and count options, each written in any of
  the four usual ways, mixed with flags the parser does not know, the result is the last value given
  for each option (reduced to 32 bits) and the defaults 4096 and 1000 otherwise; parsing stops at
  the first word that is not an option, whatever follows.
\<close>

theorem parse_arguments_last_wins:
  assumes "\<forall>x\<in>set xs. proper x" and "rest = [] \<or> operand (hd rest)"
  shows "parse_arguments (prog # concat (map render xs) @ rest) =
     fold apply_setting xs \<lparr>a_size = 4096, a_count = 1000\<rparr>"
  using parse_loop_renders [OF assms(1)] parse_loop_stop [OF assms(2)]
  by (simp add: parse_arguments_def DEFAULT_MESSAGE_SIZE_def)

theorem parse_arguments_last_wins_witness:
  "parse_arguments (''shm'' # concat (map render [(Separate, Size 64), (Attached, Flag ''busy''), (Long_equals, Count 5)]) @ []) =
     \<lparr>a_size = 64, a_count = 5\<rparr>"
  using parse_arguments_last_wins [of "[(Separate, Size 64), (Attached, Flag ''busy''), (Long_equals, Count 5)]" "[]" "''shm''"]
  by simp

text \<open>Flags: what \<open>check_flag\<close> makes of long options other than its own.\<close>

definition foreign :: "string \<Rightarrow> string \<Rightarrow> bool" where
  "foreign flag w \<longleftrightarrow> take 2 w = ''--'' \<and> w \<noteq> ''--'' \<and>
     (let name = takeWhile (\<lambda>c. c \<noteq> CHR ''='') (drop 2 w) in take (length name) flag \<noteq> name)"

lemma foreign_dashes: "foreign flag w \<Longrightarrow> take 1 w = ''-'' \<and> w \<noteq> ''-'' \<and> w \<noteq> ''--'' \<and> take 2 w = ''--''"
  by (cases w) (auto simp: foreign_def)

lemma flag_loop_foreign:
  assumes "foreign flag w" and "hd flag \<noteq> CHR ''?''"
  shows "flag_loop flag sf (w # as, []) = flag_loop flag sf (as, [])"
proof -
  define name where "name = takeWhile (\<lambda>c. c \<noteq> CHR ''='') (drop 2 w)"
  have "take (length name) flag \<noteq> name" using assms(1) by (simp add: foreign_def name_def Let_def)
  then have "long_lookup [(flag, no_argument, hd flag)] name = None" by (auto simp: long_lookup_def)
  then have "getopt_long sf [(flag, no_argument, hd flag)] (w # as, []) = (Unrecognised, (as, []))"
    using foreign_dashes [OF assms(1)] by (simp add: long_opt_def Let_def flip: name_def)
  then show ?thesis using assms(2) by (subst flag_loop.simps) auto
qed

lemma flag_loop_foreigns:
  "\<forall>w\<in>set ws. foreign flag w \<Longrightarrow> hd flag \<noteq> CHR ''?'' \<Longrightarrow>
     flag_loop flag sf (ws @ as, []) = flag_loop flag sf (as, [])"
  by (induction ws) (simp_all add: flag_loop_foreign)

lemma flag_loop_found:
  assumes "flag \<noteq> []" and "CHR ''='' \<notin> set flag"
  shows "flag_loop flag sf ((''--'' @ flag) # as, [])"
proof -
  have "takeWhile (\<lambda>c. c \<noteq> CHR ''='') flag = flag" and "dropWhile (\<lambda>c. c \<noteq> CHR ''='') flag = []"
    using assms by (auto simp: takeWhile_eq_all_conv)
  then have "getopt_long sf [(flag, no_argument, hd flag)] ((''--'' @ flag) # as, []) = (Found (hd flag) None, (as, []))"
    using assms(1) by (simp add: long_opt_def long_lookup_def Let_def)
  then show ?thesis by (subst flag_loop.simps) simp
qed

lemma flag_loop_operand: "operand w \<Longrightarrow> \<not> flag_loop flag sf (w # as, [])"
  by (subst flag_loop.simps) (auto simp: operand_def)

text \<open>
  A flag is found only before the first operand, and a separate option value counts as one.
  Whatever bytes follow the unterminated option string, \<open>check_flag\<close> finds \<open>--flag\<close> after any other
  long options, and does not find it behind a word that is no option.  So \<open>--busy --size=100\<close>
  switches busy waiting on, and in \<open>--size 100 --busy\<close> it is lost, although \<open>parse_arguments\<close>
  understands both.
\<close>

theorem check_flag_position:
  assumes "flag \<noteq> []" and "CHR ''='' \<notin> set flag" and "hd flag \<noteq> CHR ''?''"
    and "\<forall>w\<in>set ws. foreign flag w"
  shows "check_flag tail flag (prog # ws @ (''--'' @ flag) # as) \<and>
    (operand w \<longrightarrow> \<not> check_flag tail flag (prog # ws @ w # as))"
  using flag_loop_foreigns [OF assms(4,3)] flag_loop_found [OF assms(1,2)] flag_loop_operand [of w flag]
  by (simp add: check_flag_def)

theorem check_flag_position_witness:
  "check_flag ''xyz'' ''busy'' [''tcp'', ''--size=100'', ''--busy''] \<and>
   \<not> check_flag ''xyz'' ''busy'' [''tcp'', ''--size'', ''100'', ''--busy''] \<and>
   parse_arguments [''tcp'', ''--size'', ''100'', ''--busy''] = \<lparr>a_size = 100, a_count = 1000\<rparr>"
proof -
  have f: "foreign ''busy'' ''--size=100''" "foreign ''busy'' ''--size''" "operand ''100''"
    by (simp_all add: foreign_def operand_def)
  have "check_flag ''xyz'' ''busy'' (''tcp'' # [''--size=100''] @ (''--'' @ ''busy'') # [])"
    using check_flag_position [of "''busy''" "[''--size=100'']"] f(1) by simp
  moreover have "\<not> check_flag ''xyz'' ''busy'' (''tcp'' # [''--size''] @ ''100'' # [''--busy''])"
    using check_flag_position [of "''busy''" "[''--size'']" "''xyz''" "''tcp''" "[''--busy'']" "''100''"] f by simp
  moreover have "parse_arguments [''tcp'', ''--size'', ''100'', ''--busy''] = \<lparr>a_size = 100, a_count = 1000\<rparr>"
    by code_simp
  ultimately show ?thesis by simp
qed

end
