(* ===== verification/Process.thy ===== *)
theory Process
  imports Signals Options
begin

text \<open>
  \<^verbatim>\<open>source/common/process.c\<close> and \<^verbatim>\<open>parent.c\<close>: the launcher, which every \<^verbatim>\<open>X/X.c\<close> calls to start the
  server and the client of a benchmark with its own arguments.
\<close>

section \<open>The code\<close>

text \<open>
  The scan of \<open>find_build_path\<close>, on the offset of \<open>left\<close>; \<open>right\<close> is always eight further.  The
  result is the final offset of \<open>right\<close>.
\<close>

definition ipc_bench :: string where "ipc_bench = ''ipc-bench''"

function scan_left_for :: "string \<Rightarrow> int \<Rightarrow> int" where
  "scan_left_for path left =
     (if left < 0 then left + 8
      else if path ! nat left = CHR ''i'' \<and> path ! nat (left + 8) = CHR ''h'' \<and>
              take 9 (drop (nat left) path) = ipc_bench then left + 8
      else scan_left_for path (left - 1))"
  by pat_completeness auto
termination by (relation "measure (\<lambda>(_, left). nat (left + 1))") auto

declare scan_left_for.simps [simp del]

text \<open>\<open>strcpy(++right, BUILD_PATH)\<close>: the string in the allocated buffer afterwards.\<close>

definition BUILD_PATH :: string where "BUILD_PATH = ''/build/source''"

definition find_build_path :: "string \<Rightarrow> string" where
  "find_build_path path =
     take (nat (scan_left_for path (int (length path) - 9) + 1)) path @ BUILD_PATH"

text \<open>\<open>execv\<close> only returns when it fails.\<close>

definition start_process :: "string list \<Rightarrow> unit prog" where
  "start_process argv =
     bind_c (sys_ret (Proc Getpid)) (\<lambda>parent_pid.
     bind_c (sys_ret (Proc Fork)) (\<lambda>pid.
       when_c (pid = 0)
         (bind_c (sys_ret (Proc (Setpgid pid parent_pid))) (\<lambda>r.
            if r = -1 then throw ''Could not set group id for child process''
            else bind_c (sys_ret (Proc (Execv argv))) (\<lambda>r.
              if r = -1 then throw ''Error opening child process'' else halt_c (Replaced argv))))))"

text \<open>The loop of \<open>copy_arguments\<close> on an array of pointers; \<open>None\<close> is the null pointer.\<close>

definition copy_arguments :: "string option list \<Rightarrow> string list \<Rightarrow> string option list prog" where
  "copy_arguments arguments argv =
     (let argc = length argv in
      if \<not> argc < 8 then halt_c Assertion
      else return_c ((fold (\<lambda>i as. as[i := Some (argv ! i)]) [1..<argc] arguments)[argc := None]))"

text \<open>The vector \<open>execv\<close> sees: up to the first null pointer.\<close>

definition exec_vector :: "string option list \<Rightarrow> string list" where
  "exec_vector arguments = map the (takeWhile (\<lambda>a. a \<noteq> None) arguments)"

definition start_child :: "string \<Rightarrow> string list \<Rightarrow> unit prog" where
  "start_child name argv =
     bind_c (copy_arguments (Some name # replicate 7 None) argv) (\<lambda>arguments.
     start_process (exec_vector arguments))"

text \<open>\<open>sprintf(name, "%s-%s", argv[0], role)\<close> into an array of 100 bytes.\<close>

definition child_name :: "string list \<Rightarrow> string \<Rightarrow> string prog" where
  "child_name argv role =
     (let s = argv ! 0 @ ''-'' @ role in
      if length s < 100 then return_c s else halt_c (Undefined ''sprintf writes past the array''))"

definition start_children :: "string \<Rightarrow> string list \<Rightarrow> unit prog" where
  "start_children prefix argv =
     bind_c (child_name argv ''server'') (\<lambda>server_name.
     bind_c (child_name argv ''client'') (\<lambda>client_name.
     seq_c (start_child server_name argv) (start_child client_name argv)))"

definition setup_parent :: "string \<Rightarrow> sigaction \<Rightarrow> string \<Rightarrow> string list \<Rightarrow> unit prog" where
  "setup_parent tail sa0 name argv =
     seq_c (when_c (check_flag tail ''help'' argv) print_usage)
     (seq_c (setup_parent_signals sa0) (start_children name argv))"

text \<open>The main programs of the launchers.\<close>

definition shm_launcher :: "string \<Rightarrow> sigaction \<Rightarrow> string list \<Rightarrow> int prog" where
  "shm_launcher tail sa0 argv = seq_c (setup_parent tail sa0 ''shm'' argv) (return_c 0)"

definition tcp_launcher :: "string \<Rightarrow> sigaction \<Rightarrow> string list \<Rightarrow> int prog" where
  "tcp_launcher tail sa0 argv = seq_c (setup_parent tail sa0 ''tcp'' argv) (return_c 0)"

definition uintr_pro_launcher :: "string \<Rightarrow> sigaction \<Rightarrow> string list \<Rightarrow> int prog" where
  "uintr_pro_launcher tail sa0 argv = seq_c (setup_parent tail sa0 ''uintr-pro'' argv) (return_c 0)"

definition signal_launcher :: "string \<Rightarrow> sigaction \<Rightarrow> string list \<Rightarrow> int prog" where
  "signal_launcher tail sa0 argv = seq_c (setup_parent tail sa0 ''signal'' argv) (return_c 0)"

definition mmap_launcher :: "string \<Rightarrow> sigaction \<Rightarrow> string list \<Rightarrow> int prog" where
  "mmap_launcher tail sa0 argv = seq_c (setup_parent tail sa0 ''mmap'' argv) (return_c 0)"

definition zeromq_launcher :: "string \<Rightarrow> sigaction \<Rightarrow> string list \<Rightarrow> int prog" where
  "zeromq_launcher tail sa0 argv = seq_c (setup_parent tail sa0 ''zeromq'' argv) (return_c 0)"

definition fifo_launcher :: "string \<Rightarrow> sigaction \<Rightarrow> string list \<Rightarrow> int prog" where
  "fifo_launcher tail sa0 argv = seq_c (setup_parent tail sa0 ''fifo'' argv) (return_c 0)"

definition domain_launcher :: "string \<Rightarrow> sigaction \<Rightarrow> string list \<Rightarrow> int prog" where
  "domain_launcher tail sa0 argv = seq_c (setup_parent tail sa0 ''domain'' argv) (return_c 0)"

definition shm_sync_launcher :: "string \<Rightarrow> sigaction \<Rightarrow> string list \<Rightarrow> int prog" where
  "shm_sync_launcher tail sa0 argv = seq_c (setup_parent tail sa0 ''shm-sync'' argv) (return_c 0)"

definition mq_launcher :: "string \<Rightarrow> sigaction \<Rightarrow> string list \<Rightarrow> int prog" where
  "mq_launcher tail sa0 argv = seq_c (setup_parent tail sa0 ''mq'' argv) (return_c 0)"

text \<open>
  The name a launcher passes on is never used: what is started depends on \<open>argv[0]\<close> alone, so all launchers
  are the same program.
\<close>

lemma launchers_agree:
  assumes "launcher \<in> {tcp_launcher, uintr_pro_launcher, signal_launcher, mmap_launcher, zeromq_launcher, fifo_launcher,
     domain_launcher, shm_sync_launcher, mq_launcher}"
  shows "launcher = shm_launcher"
  using assms
  by (auto simp: fun_eq_iff shm_launcher_def tcp_launcher_def uintr_pro_launcher_def signal_launcher_def mmap_launcher_def
      zeromq_launcher_def fifo_launcher_def domain_launcher_def shm_sync_launcher_def mq_launcher_def setup_parent_def
      start_children_def)

section \<open>Argument vectors\<close>

lemma fold_copy:
  assumes "n \<le> length argv" and "length argv < length as"
  shows "fold (\<lambda>i as. as[i := Some (argv ! i)]) [1..<n] as ! j =
           (if 1 \<le> j \<and> j < n then Some (argv ! j) else as ! j)"
    and "length (fold (\<lambda>i as. as[i := Some (argv ! i)]) [1..<n] as) = length as"
  using assms
proof (induction n)
  case 0
  { case 1 then show ?case by simp }
  { case 2 then show ?case by simp }
next
  case (Suc n)
  { case 1 then show ?case using Suc by (cases "n = 0") (auto simp: nth_list_update less_Suc_eq) }
  { case 2 then show ?case using Suc by (cases "n = 0") auto }
qed

lemma copy_arguments_vector:
  assumes "argv \<noteq> []" and "length argv < 8" and "copy_arguments (Some name # replicate 7 None) argv = return_c as"
  shows "as = Some name # map Some (tl argv) @ replicate (8 - length argv) None"
proof (rule nth_equalityI)
  let ?as0 = "Some name # replicate 7 None"
  have as: "as = (fold (\<lambda>i as. as[i := Some (argv ! i)]) [1..<length argv] ?as0)[length argv := None]"
    using assms(2,3) by (simp add: copy_arguments_def Let_def)
  then show len: "length as = length (Some name # map Some (tl argv) @ replicate (8 - length argv) None)"
    using fold_copy(2) [of "length argv" argv ?as0] assms(1,2) by (cases argv) simp_all
  fix j assume "j < length as"
  then have "as ! j = (if j = length argv then None
      else if 1 \<le> j \<and> j < length argv then Some (argv ! j) else ?as0 ! j)"
    using fold_copy(1) [of "length argv" argv ?as0 j] fold_copy(2) [of "length argv" argv ?as0] assms(2) unfolding as by (auto simp: nth_list_update)
  with \<open>j < length as\<close> len show "as ! j = (Some name # map Some (tl argv) @ replicate (8 - length argv) None) ! j"
    using assms(1,2) by (cases argv; cases j) (auto simp: nth_append nth_tl nth_Cons')
qed

lemma copy_arguments_returns:
  assumes "argv \<noteq> []" and "length argv < 8"
  shows "copy_arguments (Some name # replicate 7 None) argv =
     return_c (Some name # map Some (tl argv) @ replicate (8 - length argv) None)"
proof -
  obtain as where "copy_arguments (Some name # replicate 7 None) argv = return_c as"
    using assms(2) by (simp add: copy_arguments_def Let_def)
  then show ?thesis using copy_arguments_vector [OF assms] by simp
qed

lemma exec_vector_copied:
  assumes "length argv < 8"
  shows "exec_vector (Some name # map Some (tl argv) @ replicate (8 - length argv) None) = name # tl argv"
proof -
  obtain k where "8 - length argv = Suc k" using assms by (metis Suc_diff_Suc)
  then show ?thesis by (simp add: exec_vector_def takeWhile_append)
qed

lemma start_child_eq:
  "argv \<noteq> [] \<Longrightarrow> length argv < 8 \<Longrightarrow> start_child name argv = start_process (name # tl argv)"
  by (simp add: start_child_def copy_arguments_returns exec_vector_copied)

text \<open>
  C25: The launcher starts the two programs with the arguments it was given.  For one to seven
  arguments and a program name of at most 92 characters: in the launcher itself, where no \<open>fork\<close>
  returns 0, \<open>start_children\<close> completes after two forks; in the process the first fork creates, it
  never gets past the first child: that process becomes \<open>argv[0]-server\<close> with the launcher's own
  further arguments, or gives up; in the process the second fork creates it becomes
  \<open>argv[0]-client\<close>, or gives up.
\<close>

theorem start_children_roles:
  assumes "argv \<noteq> []" and "length argv < 8" and "length (argv ! 0) < 93"
  defines "server_argv \<equiv> (argv ! 0 @ ''-server'') # tl argv"
    and "client_argv \<equiv> (argv ! 0 @ ''-client'') # tl argv"
  shows "((\<forall>calls. ret (w_os w calls (Proc Fork)) \<noteq> 0) \<longrightarrow>
            fst (start_children p argv w) = Inr () \<and>
            w_calls (snd (start_children p argv w)) =
              w_calls w @ [Proc Getpid, Proc Fork, Proc Getpid, Proc Fork]) \<and>
         (ret (w_os w (w_calls w @ [Proc Getpid]) (Proc Fork)) = 0 \<longrightarrow>
            fst (start_children p argv w) \<in>
              {Inl (Replaced server_argv), Inl (Thrown ''Could not set group id for child process''),
               Inl (Thrown ''Error opening child process'')}) \<and>
         (ret (w_os w (w_calls w @ [Proc Getpid]) (Proc Fork)) > 0 \<and>
          ret (w_os w (w_calls w @ [Proc Getpid, Proc Fork, Proc Getpid]) (Proc Fork)) = 0 \<longrightarrow>
            fst (start_children p argv w) \<in>
              {Inl (Replaced client_argv), Inl (Thrown ''Could not set group id for child process''),
               Inl (Thrown ''Error opening child process'')})"
proof -
  have eq: "start_children p argv = seq_c (start_process server_argv) (start_process client_argv)"
    using assms(1-3) by (simp add: start_children_def child_name_def server_argv_def client_argv_def start_child_eq)
  show ?thesis unfolding eq
    by (simp add: start_process_def sys_def Let_def prog_simps throw_def)
qed

definition fork_os :: os where
  "fork_os calls c = (if c = Proc Fork \<and> length calls = 3 then ok_reply 0
                      else if c = Proc Fork then ok_reply 77 else ok_reply 0)"

theorem start_children_roles_witness:
  "fst (start_children ''shm'' [''build/shm'', ''-c'', ''9''] \<lparr>w_os = fork_os, w_calls = [], w_errno = 0\<rparr>) \<in>
     {Inl (Replaced [''build/shm-client'', ''-c'', ''9'']),
      Inl (Thrown ''Could not set group id for child process''), Inl (Thrown ''Error opening child process'')}"
  using start_children_roles [of "[''build/shm'', ''-c'', ''9'']" "\<lparr>w_os = fork_os, w_calls = [], w_errno = 0\<rparr>" "''shm''"]
  by (simp add: fork_os_def)

text \<open>
  C38: Where the launcher breaks.  With a program name of 93 characters or more \<open>sprintf\<close> writes past the
  arrays of \<open>start_children\<close>; with eight arguments or more the assertion that protects the array of
  \<open>start_child\<close> fails; and within these bounds the copied vector holds the name, the further
  arguments and a null pointer, all inside its eight slots.
\<close>

theorem launcher_bounds:
  "(93 \<le> length (argv ! 0) \<longrightarrow>
      start_children p argv w = (Inl (Undefined ''sprintf writes past the array''), w)) \<and>
   (8 \<le> length argv \<longrightarrow> start_child name argv w = (Inl Assertion, w)) \<and>
   (argv \<noteq> [] \<and> length argv < 8 \<longrightarrow>
      (\<exists>as. copy_arguments (Some name # replicate 7 None) argv w = (Inr as, w) \<and>
         length as = 8 \<and> as ! 0 = Some name \<and> as ! length argv = None \<and>
         (\<forall>i. 1 \<le> i \<and> i < length argv \<longrightarrow> as ! i = Some (argv ! i))))"
proof (intro conjI impI)
  show "start_children p argv w = (Inl (Undefined ''sprintf writes past the array''), w)"
    if "93 \<le> length (argv ! 0)"
    using that by (simp add: start_children_def child_name_def prog_simps)
  show "start_child name argv w = (Inl Assertion, w)" if "8 \<le> length argv"
    using that by (simp add: start_child_def copy_arguments_def prog_simps)
  assume "argv \<noteq> [] \<and> length argv < 8"
  then show "\<exists>as. copy_arguments (Some name # replicate 7 None) argv w = (Inr as, w) \<and>
         length as = 8 \<and> as ! 0 = Some name \<and> as ! length argv = None \<and>
         (\<forall>i. 1 \<le> i \<and> i < length argv \<longrightarrow> as ! i = Some (argv ! i))"
    by (cases argv) (auto simp: copy_arguments_returns return_c_def nth_append nth_Cons')
qed

theorem launcher_bounds_witness:
  "start_child ''x'' [''a'', ''b'', ''c'', ''d'', ''e'', ''f'', ''g'', ''h''] quiet_world = (Inl Assertion, quiet_world)"
  using launcher_bounds [of "[''a'', ''b'', ''c'', ''d'', ''e'', ''f'', ''g'', ''h'']" "[]" quiet_world "''x''"]
  by simp

section \<open>The build path\<close>

lemma match_ends:
  assumes "take 9 (drop j path) = ipc_bench"
  shows "path ! j = CHR ''i'' \<and> path ! (j + 8) = CHR ''h''"
proof -
  have "length (take 9 (drop j path)) = 9" by (simp add: assms ipc_bench_def)
  then have "i < 9 \<Longrightarrow> path ! (j + i) = take 9 (drop j path) ! i" for i by simp
  from this [of 0] this [of 8] show ?thesis by (simp add: assms ipc_bench_def)
qed

lemma scan_step:
  "scan_left_for path (int n) =
     (if take 9 (drop n path) = ipc_bench then int n + 8 else scan_left_for path (int n - 1))"
proof -
  have "nat (int n + 8) = n + 8" by simp
  then show ?thesis using match_ends [of n path] by (subst scan_left_for.simps) auto
qed

lemma scan_finds:
  assumes "take 9 (drop k path) = ipc_bench" and "\<forall>j. k < j \<and> j \<le> n \<longrightarrow> take 9 (drop j path) \<noteq> ipc_bench"
    and "k \<le> n"
  shows "scan_left_for path (int n) = int k + 8"
  using assms
proof (induction n)
  case 0
  then show ?case using scan_step [of path 0] by simp
next
  case (Suc n)
  then show ?case using scan_step [of path "Suc n"] by (cases "k = Suc n") auto
qed

lemma scan_misses:
  assumes "\<forall>j\<le>n. take 9 (drop j path) \<noteq> ipc_bench"
  shows "scan_left_for path (int n) = 7"
  using assms
proof (induction n)
  case 0
  have "scan_left_for path (- 1) = 7" by (subst scan_left_for.simps) simp
  then show ?case using scan_step [of path 0] 0 by simp
next
  case (Suc n)
  then show ?case using scan_step [of path "Suc n"] by auto
qed

text \<open>
  \<open>find_build_path\<close> cuts the path of the source file after the last occurrence of \<open>ipc-bench\<close> and
  appends \<open>/build/source\<close>.  The allocated buffer, which has no byte for the terminating zero, holds
  the result exactly if something follows that occurrence.  Without an occurrence the suffix
  overwrites whatever stands at offset 8.
\<close>

theorem find_build_path_spec:
  assumes "9 \<le> length path"
  shows "(\<forall>k. take 9 (drop k path) = ipc_bench \<and> (\<forall>j>k. take 9 (drop j path) \<noteq> ipc_bench) \<longrightarrow>
            find_build_path path = take (k + 9) path @ ''/build/source'' \<and>
            (length (find_build_path path) + 1 \<le> length path + length BUILD_PATH \<longleftrightarrow> k + 9 < length path)) \<and>
         ((\<forall>k. take 9 (drop k path) \<noteq> ipc_bench) \<longrightarrow>
            find_build_path path = take 8 path @ ''/build/source'')"
proof -
  have start: "int (length path) - 9 = int (length path - 9)" using assms by simp
  have found: "find_build_path path = take (k + 9) path @ BUILD_PATH" and bound: "k + 9 \<le> length path"
    if k: "take 9 (drop k path) = ipc_bench" "\<forall>j>k. take 9 (drop j path) \<noteq> ipc_bench" for k
  proof -
    have "length (take 9 (drop k path)) = 9" by (simp add: k(1) ipc_bench_def)
    then show le: "k + 9 \<le> length path" by simp
    then have "scan_left_for path (int (length path) - 9) = int k + 8"
      unfolding start using k by (intro scan_finds) auto
    then show "find_build_path path = take (k + 9) path @ BUILD_PATH"
      by (simp add: find_build_path_def nat_add_distrib add.commute)
  qed
  have "find_build_path path = take 8 path @ BUILD_PATH" if "\<forall>k. take 9 (drop k path) \<noteq> ipc_bench"
    using scan_misses [of "length path - 9" path] that unfolding find_build_path_def start by simp
  then show ?thesis using found bound by (auto simp: BUILD_PATH_def)
qed

theorem find_build_path_spec_witness:
  "find_build_path ''ipc-bench/a'' = ''ipc-bench/build/source''"
proof -
  have "take 9 (drop j ''ipc-bench/a'') \<noteq> ipc_bench" if "0 < j" for j
  proof
    assume eq: "take 9 (drop j ''ipc-bench/a'') = ipc_bench"
    then have "length (take 9 (drop j ''ipc-bench/a'')) = 9" by (simp add: ipc_bench_def)
    then have "j = 1 \<or> j = 2" using that by auto
    with eq show False by (auto simp: ipc_bench_def)
  qed
  moreover have "take 9 (drop 0 ''ipc-bench/a'') = ipc_bench" by (simp add: ipc_bench_def)
  ultimately show ?thesis
    using find_build_path_spec [of "''ipc-bench/a''", THEN conjunct1, rule_format, of 0] by simp
qed

end
