(* ===== verification/Sockets.thy ===== *)
theory Sockets
  imports Benchmarks
begin

text \<open>
  \<^verbatim>\<open>source/common/sockets.c\<close>: socket options, the non-blocking flag and the \<open>receive\<close> function of the
  TCP and UNIX-domain benchmarks.
\<close>

section \<open>The code\<close>

datatype Direction = SEND | RECEIVE

definition BUFFER_SIZE :: int where "BUFFER_SIZE = 64000"

definition O_NONBLOCK :: c_int where "O_NONBLOCK = 2048"

definition EAGAIN :: int where "EAGAIN = 11"

definition socket_buffer_size :: "int \<Rightarrow> Direction \<Rightarrow> int prog" where
  "socket_buffer_size socket_fd direction =
     bind_c (sys (Sock (Getsockopt socket_fd (if direction = SEND then SO_SNDBUF else SO_RCVBUF)))) (\<lambda>r.
       if ret r = -1 then throw ''Error getting buffer size'' else return_c (nums r ! 0))"

definition socket_timeout :: "int \<Rightarrow> Direction \<Rightarrow> timeval prog" where
  "socket_timeout socket_fd direction =
     bind_c (sys (Sock (Getsockopt socket_fd (if direction = SEND then SO_SNDTIMEO else SO_RCVTIMEO)))) (\<lambda>r.
       if ret r = -1 then throw ''Error getting socket timeout''
       else return_c (Timeval (nums r ! 0) (nums r ! 1)))"

definition socket_timeout_seconds :: "int \<Rightarrow> Direction \<Rightarrow> rat prog" where
  "socket_timeout_seconds socket_fd direction =
     bind_c (socket_timeout socket_fd direction) (\<lambda>timeout.
     return_c (round_double (round_double (of_int (tv_sec timeout)) +
                             round_double (round_double (of_int (tv_usec timeout)) / 1000000))))"

definition set_socket_buffer_size :: "int \<Rightarrow> Direction \<Rightarrow> unit prog" where
  "set_socket_buffer_size socket_fd direction =
     bind_c (sys_ret (Sock (Setsockopt socket_fd (if direction = SEND then SO_SNDBUF else SO_RCVBUF) [BUFFER_SIZE]))) (\<lambda>r.
       if r = -1 then throw ''Error setting socket buffer size'' else return_c ())"

definition set_socket_both_buffer_sizes :: "int \<Rightarrow> unit prog" where
  "set_socket_both_buffer_sizes socket_fd =
     seq_c (set_socket_buffer_size socket_fd SEND) (set_socket_buffer_size socket_fd RECEIVE)"

definition set_socket_timeout :: "int \<Rightarrow> timeval \<Rightarrow> Direction \<Rightarrow> unit prog" where
  "set_socket_timeout socket_fd timeout direction =
     bind_c (sys_ret (Sock (Setsockopt socket_fd (if direction = SEND then SO_SNDTIMEO else SO_RCVTIMEO)
                            [tv_sec timeout, tv_usec timeout]))) (\<lambda>r.
       if r = -1 then throw ''Error setting blocking timeout'' else return_c ())"

definition set_socket_both_timeouts :: "int \<Rightarrow> int \<Rightarrow> int \<Rightarrow> unit prog" where
  "set_socket_both_timeouts socket_fd seconds microseconds =
     (let timeout = Timeval seconds microseconds in
      seq_c (set_socket_timeout socket_fd timeout SEND) (set_socket_timeout socket_fd timeout RECEIVE))"

definition set_io_flag :: "int \<Rightarrow> c_int \<Rightarrow> int prog" where
  "set_io_flag socket_fd flag =
     bind_c (sys_ret (Sock (Fcntl_getfl socket_fd))) (\<lambda>old_flags.
       if old_flags = -1 then return_c (-1)
       else bind_c (sys_ret (Sock (Fcntl_setfl socket_fd (of_int old_flags OR flag)))) (\<lambda>r.
         return_c (if r \<noteq> 0 then -1 else 0)))"

definition get_socket_flags :: "int \<Rightarrow> c_int prog" where
  "get_socket_flags socket_fd =
     bind_c (sys_ret (Sock (Fcntl_getfl socket_fd))) (\<lambda>flags.
       if flags = -1 then throw ''Error retrieving flags'' else return_c (of_int flags))"

definition set_socket_flags :: "int \<Rightarrow> c_int \<Rightarrow> unit prog" where
  "set_socket_flags socket_fd flags =
     bind_c (sys_ret (Sock (Fcntl_setfl socket_fd flags))) (\<lambda>r.
       if r = -1 then throw ''Error setting flags'' else return_c ())"

definition set_socket_non_blocking :: "int \<Rightarrow> c_int prog" where
  "set_socket_non_blocking socket_fd =
     bind_c (get_socket_flags socket_fd) (\<lambda>flags.
     (let flags = flags OR O_NONBLOCK in
      seq_c (set_socket_flags socket_fd flags) (return_c flags)))"

definition unset_socket_non_blocking :: "int \<Rightarrow> c_int prog" where
  "unset_socket_non_blocking socket_fd =
     bind_c (get_socket_flags socket_fd) (\<lambda>flags.
     seq_c (set_socket_flags socket_fd (flags AND NOT O_NONBLOCK)) (return_c flags))"

definition socket_is_non_blocking :: "int \<Rightarrow> bool prog" where
  "socket_is_non_blocking socket_fd =
     bind_c (get_socket_flags socket_fd) (\<lambda>flags. return_c (flags AND O_NONBLOCK \<noteq> 0))"

text \<open>The receive buffer after a call that stored bytes at its start.\<close>

definition overlay :: "u8 list \<Rightarrow> u8 list \<Rightarrow> u8 list" where
  "overlay buffer bs = bs @ drop (length bs) buffer"

definition recv_into :: "reply \<Rightarrow> u8 list \<Rightarrow> u8 list" where
  "recv_into r buffer = overlay buffer (payload r)"

fun receive_busy :: "nat \<Rightarrow> int \<Rightarrow> u8 list \<Rightarrow> int \<Rightarrow> (int \<times> u8 list) prog" where
  "receive_busy 0 connection buffer sz = halt_c Running"
| "receive_busy (Suc n) connection buffer sz =
     bind_c (sys (Sock (Recv connection sz))) (\<lambda>r.
       if ret r < sz then
         bind_c get_errno (\<lambda>errno.
           if errno \<noteq> EAGAIN then return_c (-1, recv_into r buffer)
           else receive_busy n connection (recv_into r buffer) sz)
       else return_c (0, recv_into r buffer))"

definition receive :: "nat \<Rightarrow> int \<Rightarrow> u8 list \<Rightarrow> int \<Rightarrow> bool \<Rightarrow> (int \<times> u8 list) prog" where
  "receive n connection buffer sz busy_waiting =
     (if busy_waiting then receive_busy n connection buffer sz
      else bind_c (sys (Sock (Recv connection sz))) (\<lambda>r.
        return_c (if ret r < sz then -1 else 0, recv_into r buffer)))"

lemma keeps_receive_busy [os_intros]: "keeps_os (receive_busy n c b s)"
  by (induction n arbitrary: b) (auto intro!: os_intros)

lemma keeps_receive [os_intros]: "keeps_os (receive n c b s busy)"
  unfolding receive_def by (auto intro!: os_intros)

lemma keeps_set_socket_buffer_size [os_intros]: "keeps_os (set_socket_buffer_size fd d)"
  by (simp add: set_socket_buffer_size_def os_intros)

section \<open>Status flags\<close>

text \<open>
  The status flags of an open file as \<open>fcntl\<close> documents them: \<open>F_GETFL\<close> returns them, \<open>F_SETFL\<close> can
  change O_APPEND, O_NONBLOCK, O_ASYNC, O_DIRECT and O_NOATIME and ignores all other bits.
\<close>

definition SETFL_BITS :: c_int where "SETFL_BITS = 0x46C00"

fun flag_effect :: "int \<Rightarrow> call \<Rightarrow> c_int \<Rightarrow> c_int" where
  "flag_effect fd (Sock (Fcntl_setfl fd' v)) f =
     (if fd = fd' then (f AND NOT SETFL_BITS) OR (v AND SETFL_BITS) else f)"
| "flag_effect fd _ f = f"

definition flags_after :: "int \<Rightarrow> c_int \<Rightarrow> call list \<Rightarrow> c_int" where
  "flags_after fd f calls = fold (flag_effect fd) calls f"

definition fcntl_works :: "os \<Rightarrow> int \<Rightarrow> c_int \<Rightarrow> bool" where
  "fcntl_works os fd f \<longleftrightarrow>
     (\<forall>calls. ret (os calls (Sock (Fcntl_getfl fd))) = sint (flags_after fd f calls) \<and>
        (\<forall>v. ret (os calls (Sock (Fcntl_setfl fd v))) = 0))"

definition flags_left :: "'a prog \<Rightarrow> world \<Rightarrow> int \<Rightarrow> c_int \<Rightarrow> c_int" where
  "flags_left p w fd f = flags_after fd f (w_calls (snd (p w)))"

lemma flags_after_append [simp]:
  "flags_after fd f (xs @ ys) = flags_after fd (flags_after fd f xs) ys"
  by (simp add: flags_after_def)

lemma flags_after_call [simp]:
  "flags_after fd f (c # cs) = flags_after fd (flag_effect fd c f) cs" "flags_after fd f [] = f"
  by (simp_all add: flags_after_def)

lemma nonblock_settable: "bit O_NONBLOCK n \<Longrightarrow> bit SETFL_BITS n"
proof -
  have "O_NONBLOCK AND SETFL_BITS = O_NONBLOCK" by (simp add: O_NONBLOCK_def SETFL_BITS_def)
  then show "bit O_NONBLOCK n \<Longrightarrow> bit SETFL_BITS n" by (metis bit_and_iff)
qed

lemma setfl_effects [simp]:
  "flag_effect fd (Sock (Fcntl_setfl fd (f OR O_NONBLOCK))) f = f OR O_NONBLOCK"
  "flag_effect fd (Sock (Fcntl_setfl fd (f AND NOT O_NONBLOCK))) f = f AND NOT O_NONBLOCK"
  "flag_effect fd (Sock (Fcntl_setfl fd f)) (f AND NOT O_NONBLOCK) = f"
  by (rule bit_word_eqI; auto simp: bit_or_iff bit_and_iff bit_not_iff dest: nonblock_settable)+

text \<open>Flags are never all ones, so no value of \<open>F_GETFL\<close> looks like an error.\<close>

lemma sint_flags_ok:
  assumes "\<not> bit (f :: c_int) 31"
  shows "sint f \<noteq> -1" "sint (f OR O_NONBLOCK) \<noteq> -1" "sint (f AND NOT O_NONBLOCK) \<noteq> -1"
proof -
  have nb: "\<not> bit O_NONBLOCK 31" by (simp add: O_NONBLOCK_def)
  have ne: "sint g \<noteq> -1" if "\<not> bit (g :: c_int) 31" for g
  proof
    assume "sint g = -1"
    then have "of_int (sint g) = (of_int (-1) :: c_int)" by (rule arg_cong)
    then have "g = -1" by simp
    with that show False by simp
  qed
  show "sint f \<noteq> -1" "sint (f OR O_NONBLOCK) \<noteq> -1" "sint (f AND NOT O_NONBLOCK) \<noteq> -1"
    using assms nb by (intro ne; simp add: bit_or_iff bit_and_iff)+
qed

text \<open>
  C27: The non-blocking flag.  On a descriptor with status flags \<open>f\<close>, \<open>set_io_flag\<close> with O_NONBLOCK and
  \<open>set_socket_non_blocking\<close> add exactly that flag; \<open>unset_socket_non_blocking\<close> removes exactly
  that flag and returns the old flags, and giving these to \<open>set_socket_flags\<close> restores the old
  state; \<open>socket_is_non_blocking\<close> tells the truth.
\<close>

theorem non_blocking_flag:
  fixes w :: world and f0 :: c_int
  assumes "fcntl_works (w_os w) fd f0" and "\<not> bit (flags_after fd f0 (w_calls w)) 31"
  defines "f \<equiv> flags_after fd f0 (w_calls w)"
  shows "fst (set_io_flag fd O_NONBLOCK w) = Inr 0 \<and> flags_left (set_io_flag fd O_NONBLOCK) w fd f0 = f OR O_NONBLOCK \<and>
     fst (set_socket_non_blocking fd w) = Inr (f OR O_NONBLOCK) \<and>
     flags_left (set_socket_non_blocking fd) w fd f0 = f OR O_NONBLOCK \<and>
     fst (unset_socket_non_blocking fd w) = Inr f \<and>
     flags_left (unset_socket_non_blocking fd) w fd f0 = f AND NOT O_NONBLOCK \<and>
     flags_left (bind_c (unset_socket_non_blocking fd) (set_socket_flags fd)) w fd f0 = f \<and>
     fst (socket_is_non_blocking fd w) = Inr (f AND O_NONBLOCK \<noteq> 0)"
  using assms(1) sint_flags_ok [OF assms(2)] unfolding f_def flags_left_def fcntl_works_def
  by (simp del: flag_effect.simps(1) add: set_io_flag_def set_socket_non_blocking_def unset_socket_non_blocking_def
      socket_is_non_blocking_def get_socket_flags_def set_socket_flags_def throw_def sys_def Let_def prog_simps)

definition flags_os :: "int \<Rightarrow> c_int \<Rightarrow> os" where
  "flags_os fd f calls c =
     (if c = Sock (Fcntl_getfl fd) then ok_reply (sint (flags_after fd f calls)) else ok_reply 0)"

theorem non_blocking_flag_witness:
  "fst (unset_socket_non_blocking 3 \<lparr>w_os = flags_os 3 0x802, w_calls = [], w_errno = 0\<rparr>) = Inr 0x802"
proof -
  let ?w = "\<lparr>w_os = flags_os 3 0x802, w_calls = [], w_errno = 0\<rparr>"
  have "fcntl_works (w_os ?w) 3 0x802" and "\<not> bit (flags_after 3 0x802 (w_calls ?w)) 31"
    by (simp_all add: fcntl_works_def flags_os_def)
  from non_blocking_flag [OF this] show ?thesis by simp
qed

section \<open>Receiving\<close>

definition recvs :: "int \<Rightarrow> int \<Rightarrow> call list \<Rightarrow> nat" where
  "recvs c sz calls = length (filter (\<lambda>k. k = Sock (Recv c sz)) calls)"

text \<open>The answers to the successive \<open>recv\<close> calls on a connection.\<close>

definition answers :: "os \<Rightarrow> int \<Rightarrow> int \<Rightarrow> (nat \<Rightarrow> reply) \<Rightarrow> bool" where
  "answers os c sz rs \<longleftrightarrow> (\<forall>calls. os calls (Sock (Recv c sz)) = rs (recvs c sz calls))"

definition would_block :: "reply \<Rightarrow> bool" where
  "would_block r \<longleftrightarrow> ret r = -1 \<and> err r = EAGAIN"

lemma recvs_append [simp]: "recvs c sz (xs @ [k]) = recvs c sz xs + (if k = Sock (Recv c sz) then 1 else 0)"
  by (simp add: recvs_def)

abbreviation recv_world :: "world \<Rightarrow> int \<Rightarrow> int \<Rightarrow> world" where
  "recv_world w c sz \<equiv> snd (sys (Sock (Recv c sz)) w)"

lemma recv_world_simps:
  "w_os (recv_world w c sz) = w_os w"
  "recvs c sz (w_calls (recv_world w c sz)) = Suc (recvs c sz (w_calls w))"
  "w_errno (recv_world w c sz) =
     (if ret (w_os w (w_calls w) (Sock (Recv c sz))) = -1 then err (w_os w (w_calls w) (Sock (Recv c sz)))
      else w_errno w)"
  by (simp_all add: sys_def Let_def)

lemma receive_busy_step:
  assumes "answers (w_os w) c sz rs"
  defines "r \<equiv> rs (recvs c sz (w_calls w))"
  shows "receive_busy (Suc n) c buffer sz w =
     (if ret r < sz then
        (if w_errno (recv_world w c sz) \<noteq> EAGAIN then (Inr (-1, recv_into r buffer), recv_world w c sz)
         else receive_busy n c (recv_into r buffer) sz (recv_world w c sz))
      else (Inr (0, recv_into r buffer), recv_world w c sz))"
  using assms(1) unfolding answers_def r_def
  by (simp add: bind_c_def sys_def Let_def get_errno_def return_c_def)

declare receive_busy.simps(2) [simp del]

lemma recv_into_blocked: "would_block r \<Longrightarrow> recv_into r buffer = buffer"
  by (simp add: recv_into_def overlay_def would_block_def)

lemma receive_busy_skip:
  assumes "answers (w_os w) c sz rs" and "0 \<le> sz" and "\<forall>j<k. would_block (rs (recvs c sz (w_calls w) + j))"
  shows "\<exists>w'. receive_busy (k + n) c buffer sz w = receive_busy n c buffer sz w' \<and>
     w_os w' = w_os w \<and> recvs c sz (w_calls w') = recvs c sz (w_calls w) + k \<and>
     (0 < k \<longrightarrow> w_errno w' = EAGAIN) \<and> (k = 0 \<longrightarrow> w' = w)"
  using assms
proof (induction k arbitrary: w)
  case 0
  then show ?case by auto
next
  case (Suc k)
  define r where "r = rs (recvs c sz (w_calls w))"
  have wb: "would_block r" using Suc.prems(3) [rule_format, of 0] by (simp add: r_def)
  have e: "w_errno (recv_world w c sz) = EAGAIN"
    using wb Suc.prems(1) by (simp add: recv_world_simps answers_def r_def would_block_def)
  have "receive_busy (Suc k + n) c buffer sz w = receive_busy (k + n) c buffer sz (recv_world w c sz)"
    using receive_busy_step [OF Suc.prems(1), of "k + n" buffer] wb e Suc.prems(2)
    by (simp add: recv_into_blocked flip: r_def) (simp add: would_block_def)
  moreover have "\<exists>w'. receive_busy (k + n) c buffer sz (recv_world w c sz) = receive_busy n c buffer sz w' \<and>
     w_os w' = w_os w \<and> recvs c sz (w_calls w') = Suc (recvs c sz (w_calls w)) + k \<and>
     (0 < k \<longrightarrow> w_errno w' = EAGAIN) \<and> (k = 0 \<longrightarrow> w' = recv_world w c sz)"
  proof -
    have "\<forall>j<k. would_block (rs (Suc (recvs c sz (w_calls w)) + j))"
    proof (intro allI impI)
      fix j assume "j < k"
      then show "would_block (rs (Suc (recvs c sz (w_calls w)) + j))"
        using Suc.prems(3) [rule_format, of "Suc j"] by simp
    qed
    then show ?thesis
      using Suc.IH [of "recv_world w c sz"] Suc.prems(1,2) unfolding recv_world_simps by blast
  qed
  ultimately show ?case using e by (metis add_Suc_right add_Suc_shift nat.distinct(1) not_gr_zero)
qed

text \<open>
  C28: Busy waiting receives complete messages, errors end it, and partial ones are lost.  Suppose
  the first \<open>k\<close> attempts on a non-blocking connection find nothing.  If the next one delivers at
  least the requested number of bytes, \<open>receive\<close> returns 0 with these bytes at the start of the
  buffer; if it fails otherwise, \<open>receive\<close> returns -1; with enough iterations either happens.  But
  when it delivers fewer bytes (and \<open>k\<close> is positive, so that \<open>errno\<close> still says EAGAIN) the loop
  continues as if nothing had come, and the next complete read overwrites the delivered bytes.
\<close>

theorem receive_busy_outcome:
  fixes w :: world and rs :: "nat \<Rightarrow> reply"
  assumes "answers (w_os w) c sz rs" and "0 \<le> sz" and "\<forall>j<k. would_block (rs (recvs c sz (w_calls w) + j))"
  defines "r \<equiv> rs (recvs c sz (w_calls w) + k)" and "r' \<equiv> rs (recvs c sz (w_calls w) + k + 1)"
  shows "(sz \<le> ret r \<longrightarrow> fst (receive (Suc (k + n)) c buffer sz True w) = Inr (0, recv_into r buffer)) \<and>
     (ret r = -1 \<and> err r \<noteq> EAGAIN \<longrightarrow> fst (receive (Suc (k + n)) c buffer sz True w) = Inr (-1, buffer)) \<and>
     (0 < k \<and> 0 \<le> ret r \<and> ret r < sz \<and> sz \<le> ret r' \<longrightarrow>
        fst (receive (Suc (Suc (k + n))) c buffer sz True w) = Inr (0, recv_into r' (recv_into r buffer)))"
proof -
  have skip: "\<exists>w'. receive_busy (k + m) c buffer sz w = receive_busy m c buffer sz w' \<and>
      answers (w_os w') c sz rs \<and> recvs c sz (w_calls w') = recvs c sz (w_calls w) + k \<and>
      (0 < k \<longrightarrow> w_errno w' = EAGAIN)" for m
    using receive_busy_skip [OF assms(1-3), of m buffer] assms(1) by metis
  from skip [of "Suc n"] obtain w1 where w1: "receive_busy (Suc (k + n)) c buffer sz w = receive_busy (Suc n) c buffer sz w1"
    "answers (w_os w1) c sz rs" "recvs c sz (w_calls w1) = recvs c sz (w_calls w) + k" by auto
  from skip [of "Suc (Suc n)"] obtain w2 where
    w2: "receive_busy (Suc (Suc (k + n))) c buffer sz w = receive_busy (Suc (Suc n)) c buffer sz w2"
    "answers (w_os w2) c sz rs" "recvs c sz (w_calls w2) = recvs c sz (w_calls w) + k"
    "0 < k \<longrightarrow> w_errno w2 = EAGAIN" by auto
  have r: "w_os w1 (w_calls w1) (Sock (Recv c sz)) = r" "w_os w2 (w_calls w2) (Sock (Recv c sz)) = r"
    using w1 w2 by (simp_all add: answers_def r_def)
  note step1 = receive_busy_step [OF w1(2), of n buffer, unfolded w1(3), folded r_def]
  note step2 = receive_busy_step [OF w2(2), of "Suc n" buffer, unfolded w2(3), folded r_def]
  have "answers (w_os (recv_world w2 c sz)) c sz rs" using w2(2) by (simp add: recv_world_simps)
  note step3 = receive_busy_step [OF this, of n "recv_into r buffer", unfolded recv_world_simps(2) w2(3)]
  have e2: "w_errno (recv_world w2 c sz) = EAGAIN" if "0 < k" and "0 \<le> ret r"
    using w2(4) that r by (simp add: recv_world_simps)
  have full: "fst (receive (Suc (k + n)) c buffer sz True w) = Inr (0, recv_into r buffer)" if "sz \<le> ret r"
    using step1 that by (simp add: receive_def w1(1))
  have fail: "fst (receive (Suc (k + n)) c buffer sz True w) = Inr (-1, buffer)" if "ret r = -1" and "err r \<noteq> EAGAIN"
    using step1 that r(1) assms(2)
    by (simp add: receive_def w1(1) recv_world_simps recv_into_def overlay_def)
  have short: "fst (receive (Suc (Suc (k + n))) c buffer sz True w) = Inr (0, recv_into r' (recv_into r buffer))"
    if "0 < k" and "0 \<le> ret r" and "ret r < sz" and "sz \<le> ret r'"
    using step2 step3 e2 that by (simp add: receive_def w2(1) r'_def)
  show ?thesis using full fail short by blast
qed

definition slow_os :: os where
  "slow_os calls c =
     (if recvs 4 2 calls < 3 then \<lparr>ret = -1, err = EAGAIN, dat = [], nums = [], addrs = []\<rparr>
      else \<lparr>ret = 2, err = 0, dat = [7, 9], nums = [], addrs = []\<rparr>)"

theorem receive_busy_outcome_witness:
  "fst (receive 10 4 [0, 0] 2 True \<lparr>w_os = slow_os, w_calls = [], w_errno = 0\<rparr>) = Inr (0, [7, 9])"
proof -
  let ?rs = "\<lambda>j. if j < 3 then \<lparr>ret = -1, err = EAGAIN, dat = [], nums = [], addrs = []\<rparr>
                 else \<lparr>ret = 2, err = 0, dat = [7, 9], nums = [], addrs = []\<rparr> :: reply"
  have "answers (w_os \<lparr>w_os = slow_os, w_calls = [], w_errno = 0\<rparr>) 4 2 ?rs"
    by (simp add: answers_def slow_os_def)
  from receive_busy_outcome [OF this, of 3 6 "[0, 0]"] show ?thesis
    by (simp add: recvs_def would_block_def recv_into_def overlay_def)
qed

end
