(* ===== verification/Timed_Loop.thy ===== *)
theory Timed_Loop
  imports Benchmarks
begin

text \<open>
  The measuring loop that the clients of the shm, mmap, mq, fifo, pipe, tcp, domain, eventfd-uni and
  uintr-pro benchmarks share, each with its own body: it reads the time, leaves when the microsecond
  field exceeds that of the start time by more than 100000, and otherwise runs the body and counts
  it.  The first argument bounds the number of iterations that are looked at; an execution cut there
  is \<open>Running\<close>.
\<close>

fun timed_loop :: "nat \<Rightarrow> timeval \<Rightarrow> ('s \<Rightarrow> 's prog) \<Rightarrow> 's \<Rightarrow> u64 \<Rightarrow> ('s \<times> u64) prog" where
  "timed_loop 0 startTime body s cnt = halt_c Running"
| "timed_loop (Suc n) startTime body s cnt =
     bind_c gettimeofday (\<lambda>(_, currentTime).
       if tv_usec currentTime - tv_usec startTime > 100000 then return_c (s, cnt)
       else bind_c (body s) (\<lambda>s'. timed_loop n startTime body s' (cnt + 1)))"

definition timed_run :: "nat \<Rightarrow> ('s \<Rightarrow> 's prog) \<Rightarrow> 's \<Rightarrow> ('s \<times> u64) prog" where
  "timed_run n body s = bind_c gettimeofday (\<lambda>(_, startTime). timed_loop n startTime body s 0)"

section \<open>The clock\<close>

text \<open>The documented range of the microsecond field.\<close>

definition usec_in_range :: "os \<Rightarrow> bool" where
  "usec_in_range os \<longleftrightarrow>
     (\<forall>calls. 0 \<le> nums (os calls (Misc Gettimeofday)) ! 1 \<and> nums (os calls (Misc Gettimeofday)) ! 1 < 1000000)"

definition readings :: "call list \<Rightarrow> nat" where
  "readings calls = length (filter (\<lambda>c. c = Misc Gettimeofday) calls)"

text \<open>The microsecond field of successive readings is given by \<open>clock\<close>.\<close>

definition clocked :: "os \<Rightarrow> (nat \<Rightarrow> int) \<Rightarrow> bool" where
  "clocked os clock \<longleftrightarrow> (\<forall>calls. nums (os calls (Misc Gettimeofday)) ! 1 = clock (readings calls))"

lemma readings_append [simp]: "readings (xs @ ys) = readings xs + readings ys"
  by (simp add: readings_def)

lemma readings_single [simp]:
  "readings [c] = (if c = Misc Gettimeofday then 1 else 0)" "readings [] = 0"
  by (simp_all add: readings_def)

text \<open>A body that always completes and does not read the clock.\<close>

definition plain_body :: "('s \<Rightarrow> 's prog) \<Rightarrow> os \<Rightarrow> bool" where
  "plain_body body os \<longleftrightarrow>
     (\<forall>s w. w_os w = os \<longrightarrow>
        (\<exists>s' w'. body s w = (Inr s', w') \<and> w_os w' = os \<and> readings (w_calls w') = readings (w_calls w)))"

lemma timed_loop_step:
  "timed_loop (Suc n) st body s cnt w =
     (let (r, w1) = sys (Misc Gettimeofday) w;
          usec = nums (w_os w (w_calls w) (Misc Gettimeofday)) ! 1
      in if usec - tv_usec st > 100000 then (Inr (s, cnt), w1)
         else bind_c (body s) (\<lambda>s'. timed_loop n st body s' (cnt + 1)) w1)"
  by (simp add: gettimeofday_def sys_def Let_def prog_simps)

declare timed_loop.simps [simp del]

lemma timed_loop_0 [simp]: "timed_loop 0 st body s cnt = halt_c Running"
  by (simp add: timed_loop.simps)

lemma timed_loop_late_start:
  assumes "usec_in_range (w_os w)" and "899999 \<le> tv_usec st" and "\<And>s. keeps_os (body s)"
  shows "fst (timed_loop n st body s cnt w) \<noteq> Inr x"
  using assms(1)
proof (induction n arbitrary: s cnt w)
  case 0
  then show ?case by (simp add: halt_c_def)
next
  case (Suc n)
  define w1 where "w1 = snd (sys (Misc Gettimeofday) w)"
  have os: "w_os w1 = w_os w" using keeps_sys by (simp add: w1_def keeps_os_def)
  have "nums (w_os w (w_calls w) (Misc Gettimeofday)) ! 1 < 1000000"
    using Suc.prems by (simp add: usec_in_range_def)
  then have "\<not> nums (w_os w (w_calls w) (Misc Gettimeofday)) ! 1 - tv_usec st > 100000"
    using assms(2) by simp
  then have eq: "timed_loop (Suc n) st body s cnt w =
      bind_c (body s) (\<lambda>s'. timed_loop n st body s' (cnt + 1)) w1"
    unfolding timed_loop_step w1_def by (simp add: split_def)
  obtain r w2 where b: "body s w1 = (r, w2)" by (cases "body s w1")
  then have "w_os w2 = w_os w" using keeps_osD [OF assms(3) b] os by simp
  then show ?case unfolding eq using b Suc.IH [of w2] Suc.prems
    by (auto simp: bind_c_def split: sum.splits)
qed

lemma timed_loop_continue:
  assumes "plain_body body (w_os w)" and "clocked (w_os w) clock"
    and "clock (readings (w_calls w)) - tv_usec st \<le> 100000"
  shows "\<exists>s' w'. timed_loop (Suc n) st body s cnt w = timed_loop n st body s' (cnt + 1) w' \<and>
     w_os w' = w_os w \<and> readings (w_calls w') = Suc (readings (w_calls w))"
proof -
  define w1 where "w1 = snd (sys (Misc Gettimeofday) w)"
  have w1: "w_os w1 = w_os w" "readings (w_calls w1) = Suc (readings (w_calls w))"
    by (simp_all add: w1_def sys_def Let_def)
  from assms(1) w1(1) obtain s' w' where b: "body s w1 = (Inr s', w')" "w_os w' = w_os w"
    "readings (w_calls w') = readings (w_calls w1)" unfolding plain_body_def by metis
  have "timed_loop (Suc n) st body s cnt w = timed_loop n st body s' (cnt + 1) w'"
    using assms(2,3) b(1) unfolding timed_loop_step w1_def clocked_def
    by (simp add: split_def bind_c_def)
  with b w1 show ?thesis by metis
qed

lemma timed_loop_stop:
  assumes "clocked (w_os w) clock" and "clock (readings (w_calls w)) - tv_usec st > 100000"
  shows "fst (timed_loop (Suc n) st body s cnt w) = Inr (s, cnt)"
  using assms unfolding timed_loop_step clocked_def by (simp add: split_def)

lemma timed_loop_until:
  assumes "plain_body body (w_os w)" and "clocked (w_os w) clock"
    and "\<And>j. j < k \<Longrightarrow> clock (readings (w_calls w) + j) - tv_usec st \<le> 100000"
    and "clock (readings (w_calls w) + k) - tv_usec st > 100000"
  shows "\<exists>s'. fst (timed_loop (Suc (k + n)) st body s cnt w) = Inr (s', cnt + of_nat k)"
  using assms
proof (induction k arbitrary: s cnt w)
  case 0
  then have "fst (timed_loop (Suc n) st body s cnt w) = Inr (s, cnt)"
    by (intro timed_loop_stop [of w clock]) simp_all
  then show ?case by simp
next
  case (Suc k)
  have first: "clock (readings (w_calls w)) - tv_usec st \<le> 100000" using Suc.prems(3) [of 0] by simp
  from timed_loop_continue [OF Suc.prems(1,2) first, of "Suc k + n" s cnt] obtain s' w' where
    eq: "timed_loop (Suc (Suc k + n)) st body s cnt w = timed_loop (Suc k + n) st body s' (cnt + 1) w'"
    and w': "w_os w' = w_os w" "readings (w_calls w') = Suc (readings (w_calls w))" by blast
  have "\<exists>s''. fst (timed_loop (Suc (k + n)) st body s' (cnt + 1) w') = Inr (s'', cnt + 1 + of_nat k)"
  proof (rule Suc.IH)
    show "clock (readings (w_calls w') + j) - tv_usec st \<le> 100000" if "j < k" for j
      using Suc.prems(3) [of "Suc j"] that w' by simp
    show "clock (readings (w_calls w') + k) - tv_usec st > 100000" using Suc.prems(4) w' by simp
  qed (use Suc.prems w' in simp_all)
  then show ?case unfolding eq by (simp add: ac_simps)
qed

lemma timed_loop_running:
  assumes "plain_body body (w_os w)" and "clocked (w_os w) clock"
    and "\<And>j. j < n \<Longrightarrow> clock (readings (w_calls w) + j) - tv_usec st \<le> 100000"
  shows "fst (timed_loop n st body s cnt w) = Inl Running"
  using assms
proof (induction n arbitrary: s cnt w)
  case 0
  then show ?case by (simp add: halt_c_def)
next
  case (Suc n)
  have first: "clock (readings (w_calls w)) - tv_usec st \<le> 100000" using Suc.prems(3) [of 0] by simp
  from timed_loop_continue [OF Suc.prems(1,2) first, of n s cnt] obtain s' w' where
    eq: "timed_loop (Suc n) st body s cnt w = timed_loop n st body s' (cnt + 1) w'"
    and w': "w_os w' = w_os w" "readings (w_calls w') = Suc (readings (w_calls w))" by blast
  show ?case unfolding eq
  proof (rule Suc.IH)
    show "clock (readings (w_calls w') + j) - tv_usec st \<le> 100000" if "j < n" for j
      using Suc.prems(3) [of "Suc j"] that w' by simp
  qed (use Suc.prems w' in simp_all)
qed

text \<open>
  C32: A client that starts late in a second never finishes.  If the microsecond field of the start
  time is at least 899999 then, whatever the body does and for every number of iterations, the loop
  does not reach its end: the microsecond field alone is compared, and it stays below a million.
\<close>

theorem timed_loop_never_ends:
  assumes "usec_in_range (w_os w)" and "899999 \<le> tv_usec startTime" and "\<forall>s. keeps_os (body s)"
  shows "fst (timed_loop n startTime body s cnt w) \<noteq> Inr x"
  using assms(3) by (intro timed_loop_late_start [OF assms(1,2)]) simp

definition late_os :: os where
  "late_os calls c = \<lparr>ret = 0, err = 0, dat = [], nums = [5, 950000], addrs = []\<rparr>"

theorem timed_loop_never_ends_witness:
  "fst (timed_loop 1000 (Timeval 5 950000) return_c (0::nat) 0
        \<lparr>w_os = late_os, w_calls = [], w_errno = 0\<rparr>) \<noteq> Inr (7, 7)"
  using timed_loop_never_ends [of "\<lparr>w_os = late_os, w_calls = [], w_errno = 0\<rparr>" "Timeval 5 950000" return_c]
  by (simp add: usec_in_range_def late_os_def keeps_return)

text \<open>
  C33: When the loop ends and what it counts.  For a body that completes and does not read the clock
  itself, enough iterations end the loop exactly if some reading of the clock exceeds the start by
  more than 100000 microseconds within the same second's count, and the number of messages is the
  number of readings before the first such one.
\<close>

theorem timed_loop_counts:
  assumes "plain_body body (w_os w)" and "clocked (w_os w) clock"
  shows "((\<exists>n x. fst (timed_loop n startTime body s cnt w) = Inr x) \<longleftrightarrow>
            (\<exists>k. clock (readings (w_calls w) + k) - tv_usec startTime > 100000)) \<and>
         (\<forall>k. clock (readings (w_calls w) + k) - tv_usec startTime > 100000 \<longrightarrow>
            (\<forall>j<k. clock (readings (w_calls w) + j) - tv_usec startTime \<le> 100000) \<longrightarrow>
            (\<forall>n>k. \<exists>s'. fst (timed_loop n startTime body s cnt w) = Inr (s', cnt + of_nat k)))"
proof -
  define over where "over k \<longleftrightarrow> clock (readings (w_calls w) + k) - tv_usec startTime > 100000" for k
  have hit: "\<exists>s'. fst (timed_loop n startTime body s cnt w) = Inr (s', cnt + of_nat k)"
    if "over k" and "\<forall>j<k. \<not> over j" and "k < n" for k n
  proof -
    obtain m where "n = Suc (k + m)" using \<open>k < n\<close> less_iff_Suc_add by auto
    then show ?thesis using timed_loop_until [OF assms, of k startTime m s cnt] that
      by (auto simp: over_def not_less)
  qed
  have "\<exists>k. over k" if "fst (timed_loop n startTime body s cnt w) = Inr x" for n x
  proof (rule ccontr)
    assume "\<nexists>k. over k"
    then have "fst (timed_loop n startTime body s cnt w) = Inl Running"
      by (intro timed_loop_running [OF assms]) (auto simp: over_def not_less)
    with that show False by simp
  qed
  moreover have "\<exists>n x. fst (timed_loop n startTime body s cnt w) = Inr x" if "over k" for k
  proof -
    define l where "l = (LEAST k. over k)"
    have "over l" and "\<forall>j<l. \<not> over j"
      unfolding l_def using that by (auto intro: LeastI dest: not_less_Least)
    then show ?thesis using hit [of l "Suc l"] by blast
  qed
  ultimately show ?thesis using hit unfolding over_def by (meson not_less)
qed

definition ticking_os :: os where
  "ticking_os calls c =
     \<lparr>ret = 0, err = 0, dat = [], nums = [5, 60000 * int (readings calls)], addrs = []\<rparr>"

theorem timed_loop_counts_witness:
  "\<exists>s'. fst (timed_loop 10 (Timeval 5 0) return_c (0::nat) 0
        \<lparr>w_os = ticking_os, w_calls = [], w_errno = 0\<rparr>) = Inr (s', 2)"
proof -
  let ?w = "\<lparr>w_os = ticking_os, w_calls = [], w_errno = 0\<rparr>"
  have "plain_body (return_c :: nat \<Rightarrow> nat prog) (w_os ?w)"
    by (auto simp: plain_body_def return_c_def)
  moreover have "clocked (w_os ?w) (\<lambda>k. 60000 * int k)"
    by (simp add: clocked_def ticking_os_def)
  ultimately have "\<exists>s'. fst (timed_loop 10 (Timeval 5 0) return_c (0::nat) 0 ?w) = Inr (s', 0 + of_nat 2)"
    using timed_loop_counts [of "return_c :: nat \<Rightarrow> nat prog" ?w "\<lambda>k. 60000 * int k" "Timeval 5 0" 0 0,
      THEN conjunct2, rule_format, of 2 10] by fastforce
  then show ?thesis by simp
qed

end
