(* ===== verification/Stream_Sockets.thy ===== *)
theory Stream_Sockets
  imports Sockets Timed_Loop Signals Options
begin

text \<open>
  The TCP and UNIX-domain benchmarks: \<^verbatim>\<open>source/tcp/server.c\<close>, \<^verbatim>\<open>source/tcp/client.c\<close>,
  \<^verbatim>\<open>source/domain/server.c\<close> and \<^verbatim>\<open>source/domain/client.c\<close>, every function up to \<open>main\<close>.  The first
  argument \<open>n\<close> of a function that loops bounds the iterations of its loops (each of them) that are
  looked at.
\<close>

section \<open>Shared helpers\<close>

text \<open>The contents of a fresh block are indeterminate: they come with the reply.\<close>

definition malloc :: "int \<Rightarrow> u8 list prog" where
  "malloc n = bind_c (sys (Misc (Malloc n))) (\<lambda>r. return_c (dat r))"

text \<open>
  \<open>send(fd, buffer, size, 0)\<close>; a negative size becomes a huge unsigned one, which reads past the
  buffer.
\<close>

definition send :: "int \<Rightarrow> u8 list \<Rightarrow> int \<Rightarrow> int prog" where
  "send fd buffer sz =
     (if sz < 0 then halt_c (Undefined ''send with a negative size'')
      else sys_ret (Sock (Send fd (take (nat sz) buffer))))"

definition print_count :: "u64 \<Rightarrow> string \<Rightarrow> unit prog" where
  "print_count cnt end_text = sys_do (Misc (Printf (CHR 0x0A # ''cnt='' @ dec (unat cnt) @ end_text)))"

text \<open>Receiving a timestamp straight into \<open>bench.single_start\<close>.\<close>

definition receive_start :: "nat \<Rightarrow> int \<Rightarrow> Benchmarks \<Rightarrow> bool \<Rightarrow> (int \<times> Benchmarks) prog" where
  "receive_start n fd bench busy_waiting =
     bind_c (receive n fd (bytes_of_u64 (b_single_start bench)) 8 busy_waiting) (\<lambda>(r, buf).
     return_c (r, bench\<lparr>b_single_start := u64_of_bytes buf\<rparr>))"

definition AF_UNSPEC :: int where "AF_UNSPEC = 0"
definition AF_UNIX :: int where "AF_UNIX = 1"
definition SOCK_STREAM :: int where "SOCK_STREAM = 1"

section \<open>TCP server\<close>

definition PORT :: string where "PORT = ''6969''"
definition HOST :: string where "HOST = ''localhost''"

definition handle_blocking :: "int \<Rightarrow> unit prog" where
  "handle_blocking socket_descriptor =
     bind_c (sys_ret (Sock (Setsockopt socket_descriptor SO_REUSEADDR [1]))) (\<lambda>return_code.
       if return_code = -1 then throw ''Error reclaiming socket'' else return_c ())"

text \<open>The loop of \<open>get_address\<close>; \<open>None\<close> is the null pointer at the end of the list.\<close>

fun tcp_server_get_address :: "addrinfo list \<Rightarrow> int \<Rightarrow> (addrinfo option \<times> int) prog" where
  "tcp_server_get_address [] socket_descriptor = return_c (None, socket_descriptor)"
| "tcp_server_get_address (a # as) socket_descriptor =
     bind_c (sys_ret (Sock (Socket (ai_family a) (ai_socktype a) (ai_protocol a)))) (\<lambda>socket_descriptor.
       if socket_descriptor = -1 then tcp_server_get_address as socket_descriptor
       else seq_c (handle_blocking socket_descriptor)
         (bind_c (sys_ret (Sock (Bind socket_descriptor (ai_addr a)))) (\<lambda>return_code.
          seq_c (when_c (return_code = 1) (sys_do (File (Close socket_descriptor))))
          (return_c (Some a, socket_descriptor)))))"

definition tcp_server_cleanup :: "int \<Rightarrow> unit prog" where
  "tcp_server_cleanup descriptor =
     seq_c (sys_do (File (Close descriptor))) (sys_do (Misc (Free 0)))"

definition tcp_server_setup_socket :: "int \<Rightarrow> bool \<Rightarrow> unit prog" where
  "tcp_server_setup_socket socket_descriptor busy_waiting =
     seq_c (set_socket_both_buffer_sizes socket_descriptor)
     (when_c busy_waiting (bind_c (set_io_flag socket_descriptor O_NONBLOCK) (\<lambda>r.
        when_c (r = -1) (throw ''Error setting socket to non-blocking on server-side''))))"

definition accept_communication :: "int \<Rightarrow> bool \<Rightarrow> int prog" where
  "accept_communication socket_descriptor busy_waiting =
     bind_c (sys_ret (Sock (Accept socket_descriptor))) (\<lambda>connection.
       if connection = -1 then throw ''Error accepting''
       else seq_c (tcp_server_setup_socket connection busy_waiting)
         (seq_c (sys_do (File (Close socket_descriptor))) (return_c connection)))"

definition tcp_server_round :: "nat \<Rightarrow> int \<Rightarrow> Arguments \<Rightarrow> bool \<Rightarrow> u8 list \<Rightarrow> u8 list prog" where
  "tcp_server_round n descriptor args busy_waiting buffer =
     bind_c (receive n descriptor buffer (sint (a_size args)) busy_waiting) (\<lambda>(r, buffer).
       if r = -1 then throw ''Error receving from server''
       else bind_c now (\<lambda>timestamp.
         bind_c (send descriptor (bytes_of_u64 timestamp) 8) (\<lambda>r.
           if r = -1 then throw ''Error sending from server'' else return_c buffer)))"

definition tcp_server_communicate :: "nat \<Rightarrow> int \<Rightarrow> Arguments \<Rightarrow> bool \<Rightarrow> unit prog" where
  "tcp_server_communicate n descriptor args busy_waiting =
     bind_c (malloc (sint (a_size args))) (\<lambda>buffer.
     seq_c (forever_c n (tcp_server_round n descriptor args busy_waiting) buffer)
     (tcp_server_cleanup descriptor))"

definition tcp_server_get_server_information :: "addrinfo list prog" where
  "tcp_server_get_server_information =
     bind_c (sys (Sock (Getaddrinfo HOST PORT AF_UNSPEC SOCK_STREAM))) (\<lambda>r.
       if ret r \<noteq> 0 then
         seq_c (print_error ''getaddrinfo failed: '') (halt_c (Exited 1))
       else return_c (addrs r))"

text \<open>\<open>sd0\<close> is the indeterminate initial value of \<open>socket_descriptor\<close>.\<close>

definition tcp_server_create_socket :: "int \<Rightarrow> int prog" where
  "tcp_server_create_socket sd0 =
     bind_c tcp_server_get_server_information (\<lambda>server_info.
     bind_c (tcp_server_get_address server_info sd0) (\<lambda>(valid_address, socket_descriptor).
     seq_c (sys_do (Sock Freeaddrinfo))
     (if valid_address = None then throw ''Error finding valid address''
      else bind_c (sys_ret (Sock (Listen socket_descriptor 10))) (\<lambda>r.
        if r = 1 then throw ''Error listening on given socket!'' else return_c socket_descriptor))))"

definition tcp_server_main :: "nat \<Rightarrow> string \<Rightarrow> int \<Rightarrow> string list \<Rightarrow> int prog" where
  "tcp_server_main n tail sd0 argv =
     (let busy_waiting = check_flag tail ''busy'' argv; args = parse_arguments argv in
      bind_c (tcp_server_create_socket sd0) (\<lambda>socket_descriptor.
      bind_c (accept_communication socket_descriptor busy_waiting) (\<lambda>connection.
      seq_c (tcp_server_communicate n connection args busy_waiting) (return_c 0))))"

section \<open>TCP client\<close>

fun tcp_client_get_address :: "addrinfo list \<Rightarrow> int prog" where
  "tcp_client_get_address [] = throw ''Error finding valid address!''"
| "tcp_client_get_address (a # as) =
     bind_c (sys_ret (Sock (Socket (ai_family a) (ai_socktype a) (ai_protocol a)))) (\<lambda>socket_descriptor.
       if socket_descriptor = -1 then tcp_client_get_address as
       else bind_c (sys_ret (Sock (Connect socket_descriptor (ai_addr a)))) (\<lambda>return_code.
         seq_c (when_c (return_code = 1) (sys_do (File (Close socket_descriptor))))
         (return_c socket_descriptor)))"

definition tcp_client_cleanup :: "int \<Rightarrow> unit prog" where
  "tcp_client_cleanup descriptor =
     seq_c (sys_do (File (Close descriptor))) (sys_do (Misc (Free 0)))"

definition tcp_client_get_server_information :: "addrinfo list prog" where
  "tcp_client_get_server_information =
     bind_c (sys (Sock (Getaddrinfo HOST PORT AF_UNSPEC SOCK_STREAM))) (\<lambda>r.
       if ret r \<noteq> 0 then
         seq_c (print_error ''getaddrinfo failed: '') (halt_c (Exited 1))
       else return_c (addrs r))"

definition tcp_client_setup_socket :: "int \<Rightarrow> bool \<Rightarrow> unit prog" where
  "tcp_client_setup_socket socket_descriptor busy_waiting =
     seq_c (set_socket_both_buffer_sizes socket_descriptor)
     (when_c busy_waiting (bind_c (set_io_flag socket_descriptor O_NONBLOCK) (\<lambda>r.
        when_c (r = -1) (throw ''Error setting socket to non-blocking on client-side''))))"

definition tcp_client_create_socket :: "bool \<Rightarrow> int prog" where
  "tcp_client_create_socket busy_waiting =
     bind_c tcp_client_get_server_information (\<lambda>server_info.
     bind_c (tcp_client_get_address server_info) (\<lambda>socket_descriptor.
     seq_c (tcp_client_setup_socket socket_descriptor busy_waiting)
     (seq_c (sys_do (Sock Freeaddrinfo)) (return_c socket_descriptor))))"

definition tcp_client_round :: "nat \<Rightarrow> int \<Rightarrow> u8 list \<Rightarrow> Arguments \<Rightarrow> bool \<Rightarrow> Benchmarks \<Rightarrow> Benchmarks prog" where
  "tcp_client_round n socket_descriptor buffer args busy_waiting bench =
     bind_c (send socket_descriptor buffer (sint (a_size args))) (\<lambda>r.
       if r = -1 then throw ''Error sending data on client-side''
       else bind_c (receive_start n socket_descriptor bench busy_waiting) (\<lambda>(r, bench).
         if r = -1 then throw ''Error receiving data on client-side'' else benchmark bench))"

text \<open>\<open>bench0\<close> is the indeterminate initial value of \<open>bench\<close>.\<close>

definition tcp_client_main :: "nat \<Rightarrow> string \<Rightarrow> Benchmarks \<Rightarrow> string list \<Rightarrow> report prog" where
  "tcp_client_main n tail bench0 argv =
     (let busy_waiting = check_flag tail ''busy'' argv; args = parse_arguments argv in
      bind_c (tcp_client_create_socket busy_waiting) (\<lambda>socket_descriptor.
      bind_c (setup_benchmarks bench0) (\<lambda>bench.
      bind_c (malloc (sint (a_size args))) (\<lambda>buffer.
      bind_c (timed_run n (tcp_client_round n socket_descriptor buffer args busy_waiting) bench) (\<lambda>(bench, cnt).
      seq_c (print_count cnt [])
      (bind_c (evaluate bench args) (\<lambda>report.
      seq_c (tcp_client_cleanup socket_descriptor) (return_c report))))))))"

section \<open>UNIX-domain server\<close>

definition SOCKET_PATH :: string where "SOCKET_PATH = ''/tmp/ipc_bench_socket''"

definition domain_server_cleanup :: "int \<Rightarrow> unit prog" where
  "domain_server_cleanup connection =
     seq_c (sys_do (File (Close connection)))
     (seq_c (sys_do (Misc (Free 0)))
     (bind_c (sys_ret (File (Remove SOCKET_PATH))) (\<lambda>r.
        when_c (r = -1) (throw ''Error removing domain socket''))))"

definition domain_server_round :: "nat \<Rightarrow> int \<Rightarrow> Arguments \<Rightarrow> bool \<Rightarrow> u8 list \<Rightarrow> u8 list prog" where
  "domain_server_round n connection args busy_waiting buffer =
     bind_c (receive n connection buffer (sint (a_size args)) busy_waiting) (\<lambda>(r, buffer).
       if r = -1 then throw ''Error receiving on server-side''
       else bind_c now (\<lambda>timestamp.
         bind_c (send connection (bytes_of_u64 timestamp) 8) (\<lambda>r.
           if r < sint (a_size args) then throw ''Error sending on server-side'' else return_c buffer)))"

definition domain_server_communicate :: "nat \<Rightarrow> int \<Rightarrow> Arguments \<Rightarrow> bool \<Rightarrow> unit prog" where
  "domain_server_communicate n connection args busy_waiting =
     bind_c (malloc (sint (a_size args))) (\<lambda>buffer.
     seq_c (forever_c n (domain_server_round n connection args busy_waiting) buffer)
     (domain_server_cleanup connection))"

definition domain_server_setup_socket :: "int \<Rightarrow> unit prog" where
  "domain_server_setup_socket socket_descriptor =
     seq_c (sys_do (File (Remove SOCKET_PATH)))
     (bind_c (sys_ret (Sock (Bind_un socket_descriptor SOCKET_PATH))) (\<lambda>return_code.
       if return_code = -1 then throw ''Error binding socket to address''
       else bind_c (sys_ret (Sock (Listen socket_descriptor 10))) (\<lambda>return_code.
         if return_code = -1 then throw ''Could not start listening on socket'' else return_c ())))"

definition domain_server_create_socket :: "sigaction \<Rightarrow> int prog" where
  "domain_server_create_socket sa0 =
     bind_c (sys_ret (Sock (Socket AF_UNIX SOCK_STREAM 0))) (\<lambda>socket_descriptor.
       if socket_descriptor = -1 then throw ''Error opening socket on server-side''
       else seq_c (domain_server_setup_socket socket_descriptor)
         (seq_c (server_once sa0 NOTIFY) (return_c socket_descriptor)))"

definition accept_connection :: "int \<Rightarrow> bool \<Rightarrow> int prog" where
  "accept_connection socket_descriptor busy_waiting =
     bind_c (sys_ret (Sock (Accept socket_descriptor))) (\<lambda>connection.
       if connection = -1 then throw ''Error accepting connection''
       else seq_c (set_socket_both_buffer_sizes connection)
         (seq_c (when_c busy_waiting (bind_c (set_io_flag connection O_NONBLOCK) (\<lambda>r.
            when_c (r = -1) (throw ''Error setting socket to non-blocking on server-side''))))
         (seq_c (sys_do (File (Close socket_descriptor))) (return_c connection))))"

definition domain_server_main :: "nat \<Rightarrow> string \<Rightarrow> sigaction \<Rightarrow> string list \<Rightarrow> int prog" where
  "domain_server_main n tail sa0 argv =
     (let busy_waiting = check_flag tail ''busy'' argv; args = parse_arguments argv in
      bind_c (domain_server_create_socket sa0) (\<lambda>socket_descriptor.
      bind_c (accept_connection socket_descriptor busy_waiting) (\<lambda>connection.
      seq_c (domain_server_communicate n connection args busy_waiting) (return_c 0))))"

section \<open>UNIX-domain client\<close>

definition domain_client_cleanup :: "int \<Rightarrow> unit prog" where
  "domain_client_cleanup connection =
     seq_c (sys_do (File (Close connection))) (sys_do (Misc (Free 0)))"

definition domain_client_setup_socket :: "int \<Rightarrow> bool \<Rightarrow> unit prog" where
  "domain_client_setup_socket connection busy_waiting =
     seq_c (set_socket_both_buffer_sizes connection)
     (seq_c (when_c busy_waiting (bind_c (set_io_flag connection O_NONBLOCK) (\<lambda>r.
        when_c (r = -1) (throw ''Error setting socket to non-blocking on client-side''))))
     (bind_c (sys_ret (Sock (Connect_un connection SOCKET_PATH))) (\<lambda>return_code.
        when_c (return_code = -1) (throw ''Error connecting to server''))))"

definition create_connection :: "sigaction \<Rightarrow> bool \<Rightarrow> int prog" where
  "create_connection sa0 busy_waiting =
     seq_c (client_once sa0 WAIT)
     (bind_c (sys_ret (Sock (Socket AF_UNIX SOCK_STREAM 0))) (\<lambda>connection.
       if connection = -1 then throw ''Error opening socket on client-side''
       else seq_c (domain_client_setup_socket connection busy_waiting) (return_c connection)))"

definition domain_client_round :: "nat \<Rightarrow> int \<Rightarrow> u8 list \<Rightarrow> Arguments \<Rightarrow> bool \<Rightarrow> Benchmarks \<Rightarrow> Benchmarks prog" where
  "domain_client_round n connection buffer args busy_waiting bench =
     bind_c (send connection buffer (sint (a_size args))) (\<lambda>r.
       if r = -1 then throw ''Error sending on client-side''
       else bind_c (receive_start n connection bench busy_waiting) (\<lambda>(r, bench).
         if r = -1 then throw ''Error receiving on client-side'' else benchmark bench))"

definition domain_client_main :: "nat \<Rightarrow> string \<Rightarrow> sigaction \<Rightarrow> Benchmarks \<Rightarrow> string list \<Rightarrow> report prog" where
  "domain_client_main n tail sa0 bench0 argv =
     (let busy_waiting = check_flag tail ''busy'' argv; args = parse_arguments argv in
      bind_c (create_connection sa0 busy_waiting) (\<lambda>connection.
      bind_c (setup_benchmarks bench0) (\<lambda>bench.
      bind_c (malloc (sint (a_size args))) (\<lambda>buffer.
      bind_c (timed_run n (domain_client_round n connection buffer args busy_waiting) bench) (\<lambda>(bench, cnt).
      seq_c (print_count cnt [CHR 0x0A])
      (bind_c (evaluate bench args) (\<lambda>report.
      seq_c (domain_client_cleanup connection) (return_c report))))))))"

section \<open>Choosing an address\<close>

text \<open>What \<open>socket\<close>, \<open>bind\<close>, \<open>connect\<close> and \<open>setsockopt\<close> answer, on an operating system whose \<open>socket\<close> call
  depends on its arguments only.\<close>

definition address_os :: "os \<Rightarrow> (int \<times> int \<times> int \<Rightarrow> int) \<Rightarrow> bool" where
  "address_os os sock \<longleftrightarrow>
     (\<forall>calls f t p. ret (os calls (Sock (Socket f t p))) = sock (f, t, p)) \<and>
     (\<forall>calls fd a. ret (os calls (Sock (Bind fd a))) \<in> {0, -1}) \<and>
     (\<forall>calls fd a. ret (os calls (Sock (Connect fd a))) \<in> {0, -1}) \<and>
     (\<forall>calls fd o' v. ret (os calls (Sock (Setsockopt fd o' v))) = 0)"

abbreviation sock_of :: "(int \<times> int \<times> int \<Rightarrow> int) \<Rightarrow> addrinfo \<Rightarrow> int" where
  "sock_of sock a \<equiv> sock (ai_family a, ai_socktype a, ai_protocol a)"

lemma server_skips:
  assumes "address_os (w_os w) sock" and "\<forall>a\<in>set as. sock_of sock a = -1"
  shows "\<exists>w'. tcp_server_get_address (as @ bs) sd w = tcp_server_get_address bs (if as = [] then sd else -1) w' \<and>
     w_os w' = w_os w"
  using assms
proof (induction as arbitrary: w sd)
  case Nil
  then show ?case by auto
next
  case (Cons a as)
  define w1 where "w1 = snd (sys (Sock (Socket (ai_family a) (ai_socktype a) (ai_protocol a))) w)"
  have os: "w_os w1 = w_os w" by (simp add: w1_def sys_def Let_def)
  have "tcp_server_get_address ((a # as) @ bs) sd w = tcp_server_get_address (as @ bs) (-1) w1"
    using Cons.prems by (simp add: address_os_def w1_def sys_def Let_def prog_simps)
  then show ?case using Cons.IH [of w1 "-1"] Cons.prems os by auto
qed

lemma client_skips:
  assumes "address_os (w_os w) sock" and "\<forall>a\<in>set as. sock_of sock a = -1"
  shows "\<exists>w'. tcp_client_get_address (as @ bs) w = tcp_client_get_address bs w' \<and> w_os w' = w_os w"
  using assms
proof (induction as arbitrary: w)
  case Nil
  then show ?case by auto
next
  case (Cons a as)
  define w1 where "w1 = snd (sys (Sock (Socket (ai_family a) (ai_socktype a) (ai_protocol a))) w)"
  have os: "w_os w1 = w_os w" by (simp add: w1_def sys_def Let_def)
  have "tcp_client_get_address ((a # as) @ bs) w = tcp_client_get_address (as @ bs) w1"
    using Cons.prems by (simp add: address_os_def w1_def sys_def Let_def prog_simps)
  then show ?case using Cons.IH [of w1] Cons.prems os by auto
qed

lemma server_takes:
  assumes "address_os (w_os w) sock" and "sock_of sock a \<noteq> -1"
  shows "fst (tcp_server_get_address (a # bs) sd w) = Inr (Some a, sock_of sock a)"
  using assms by (auto simp: address_os_def handle_blocking_def sys_def Let_def prog_simps)

lemma client_takes:
  assumes "address_os (w_os w) sock" and "sock_of sock a \<noteq> -1"
  shows "fst (tcp_client_get_address (a # bs) w) = Inr (sock_of sock a)"
  using assms by (auto simp: address_os_def sys_def Let_def prog_simps)

text \<open>
  C31: The TCP programs settle for the first address for which a socket can be created, whether or
  not it can be bound or connected.  The results of \<open>bind\<close> and \<open>connect\<close> are compared with 1, which
  they never return, so a failure is neither noticed nor is a later address of the list tried.
\<close>

theorem first_socket_wins:
  assumes "address_os (w_os w) sock" and "\<forall>a\<in>set as. sock_of sock a = -1" and "sock_of sock b \<noteq> -1"
  shows "fst (tcp_server_get_address (as @ b # bs) sd w) = Inr (Some b, sock_of sock b) \<and>
     fst (tcp_client_get_address (as @ b # bs) w) = Inr (sock_of sock b)"
proof -
  obtain w1 where "tcp_server_get_address (as @ b # bs) sd w = tcp_server_get_address (b # bs) (if as = [] then sd else -1) w1"
    and "w_os w1 = w_os w" using server_skips [OF assms(1,2)] by blast
  moreover obtain w2 where "tcp_client_get_address (as @ b # bs) w = tcp_client_get_address (b # bs) w2"
    and "w_os w2 = w_os w" using client_skips [OF assms(1,2)] by blast
  ultimately show ?thesis
    using server_takes [of w1 sock b] client_takes [of w2 sock b] assms(1,3) by simp
qed

definition no_bind_os :: os where
  "no_bind_os calls c =
     (case c of
        Sock (Socket f t p) \<Rightarrow> ok_reply (if f = 10 then -1 else 5)
      | Sock (Bind fd a) \<Rightarrow> fail_reply 98
      | Sock (Connect fd a) \<Rightarrow> fail_reply 111
      | _ \<Rightarrow> ok_reply 0)"

theorem first_socket_wins_witness:
  "fst (tcp_server_get_address
      [\<lparr>ai_family = 10, ai_socktype = 1, ai_protocol = 6, ai_addr = []\<rparr>,
       \<lparr>ai_family = 2, ai_socktype = 1, ai_protocol = 6, ai_addr = [1]\<rparr>,
       \<lparr>ai_family = 2, ai_socktype = 1, ai_protocol = 6, ai_addr = [2]\<rparr>] 0
      \<lparr>w_os = no_bind_os, w_calls = [], w_errno = 0\<rparr>) =
   Inr (Some \<lparr>ai_family = 2, ai_socktype = 1, ai_protocol = 6, ai_addr = [1]\<rparr>, 5)"
proof -
  have "address_os (w_os \<lparr>w_os = no_bind_os, w_calls = [], w_errno = 0\<rparr>)
      (\<lambda>(f, t, p). if f = 10 then -1 else 5)"
    by (simp add: address_os_def no_bind_os_def)
  from first_socket_wins [OF this, of "[\<lparr>ai_family = 10, ai_socktype = 1, ai_protocol = 6, ai_addr = []\<rparr>]"
      "\<lparr>ai_family = 2, ai_socktype = 1, ai_protocol = 6, ai_addr = [1]\<rparr>"]
  show ?thesis by simp
qed

section \<open>Serving\<close>

text \<open>\<open>send\<close> never reports more bytes than it was given.\<close>

definition send_bounded :: "os \<Rightarrow> bool" where
  "send_bounded os \<longleftrightarrow> (\<forall>calls fd bs. ret (os calls (Sock (Send fd bs))) \<le> int (length bs))"

lemma domain_round_fails:
  assumes "8 < sint (a_size args)" and "send_bounded (w_os w)"
  shows "fst (domain_server_round n c args busy buffer w) \<noteq> Inr x"
proof -
  obtain r w1 where rec: "receive n c buffer (sint (a_size args)) busy w = (r, w1)"
    by (cases "receive n c buffer (sint (a_size args)) busy w")
  have os: "w_os w1 = w_os w" using keeps_osD [OF keeps_receive rec] .
  have short: "ret (w_os w calls (Sock (Send fd (bytes_of_u64 t)))) \<le> 8" for calls fd t
    using assms(2) length_bytes_of_u64 [of t] unfolding send_bounded_def by (metis of_nat_numeral)
  have "ret (w_os w calls (Sock (Send fd (bytes_of_u64 t)))) < sint (a_size args)" for calls fd t
    using short [of calls fd t] assms(1) by linarith
  then show ?thesis
    using os by (cases r)
      (auto simp: domain_server_round_def rec now_def send_def throw_def sys_def Let_def prog_simps
        split: if_splits)
qed

text \<open>
  Serving as it should be: each message is received, the clock is read, and the reading is sent back.
\<close>

definition stamp :: "os \<Rightarrow> int \<Rightarrow> int \<Rightarrow> call list \<Rightarrow> u64" where
  "stamp os c sz calls =
     (let r = os (calls @ [Sock (Recv c sz)]) (Misc Timespec_get) in now_value (nums r ! 0) (nums r ! 1))"

fun serve_trace :: "os \<Rightarrow> int \<Rightarrow> int \<Rightarrow> nat \<Rightarrow> call list \<Rightarrow> call list" where
  "serve_trace os c sz 0 calls = calls"
| "serve_trace os c sz (Suc n) calls = serve_trace os c sz n
     (calls @ [Sock (Recv c sz), Misc Timespec_get, Sock (Send c (bytes_of_u64 (stamp os c sz calls)))])"

text \<open>Complete reads and writes on connection \<open>c\<close>.\<close>

definition full_reads :: "os \<Rightarrow> int \<Rightarrow> int \<Rightarrow> bool" where
  "full_reads os c sz \<longleftrightarrow> (\<forall>calls. sz \<le> ret (os calls (Sock (Recv c sz))))"

definition full_writes :: "os \<Rightarrow> int \<Rightarrow> bool" where
  "full_writes os c \<longleftrightarrow> (\<forall>calls bs. ret (os calls (Sock (Send c bs))) = int (length bs))"

lemma tcp_round_serves:
  assumes "full_reads (w_os w) c (sint (a_size args))" and "full_writes (w_os w) c"
  shows "\<exists>buffer' w'. tcp_server_round n c args False buffer w = (Inr buffer', w') \<and> w_os w' = w_os w \<and>
     w_calls w' = serve_trace (w_os w) c (sint (a_size args)) 1 (w_calls w)"
  using assms
  by (simp add: tcp_server_round_def receive_def now_def send_def throw_def sys_def Let_def prog_simps
      full_reads_def full_writes_def stamp_def not_less [symmetric] split: if_splits)

lemma domain_round_serves:
  assumes "full_reads (w_os w) c (sint (a_size args))" and "full_writes (w_os w) c" and "sint (a_size args) \<le> 8"
  shows "\<exists>buffer' w'. domain_server_round n c args False buffer w = (Inr buffer', w') \<and> w_os w' = w_os w \<and>
     w_calls w' = serve_trace (w_os w) c (sint (a_size args)) 1 (w_calls w)"
  using assms
  by (simp add: domain_server_round_def receive_def now_def send_def throw_def sys_def Let_def prog_simps
      full_reads_def full_writes_def stamp_def not_less [symmetric] split: if_splits)

lemma forever_serves:
  assumes round: "\<And>buffer w. w_os w = os \<Longrightarrow> \<exists>buffer' w'. body buffer w = (Inr buffer', w') \<and> w_os w' = os \<and>
      w_calls w' = serve_trace os c sz 1 (w_calls w)"
    and "w_os w = os"
  shows "fst (forever_c n body buffer w) = Inl Running \<and>
     w_calls (snd (forever_c n body buffer w)) = serve_trace os c sz n (w_calls w)"
proof -
  have "serve_trace os c sz n = (serve_trace os c sz 1 ^^ n)"
    by (induction n) (simp_all add: fun_eq_iff funpow_Suc_right del: funpow.simps(2))
  then show ?thesis using forever_trace [where f = "serve_trace os c sz 1", OF round assms(2)] by simp
qed

lemma domain_round_error:
  assumes "full_reads (w_os w) c (sint (a_size args))" and "8 < sint (a_size args)" and "send_bounded (w_os w)"
  shows "fst (domain_server_round n c args False buffer w) = Inl (Thrown ''Error sending on server-side'')"
proof -
  have "ret (w_os w calls (Sock (Send fd (bytes_of_u64 t)))) < sint (a_size args)" for calls fd t
    using assms(2,3) length_bytes_of_u64 [of t] unfolding send_bounded_def
    by (metis of_nat_numeral order_le_less_trans)
  then show ?thesis using assms(1)
    by (simp add: domain_server_round_def receive_def now_def send_def throw_def sys_def Let_def prog_simps
        full_reads_def not_less [symmetric] split: if_splits)
qed

lemma malloc_run:
  "\<exists>b w'. malloc sz w = (Inr b, w') \<and> w_os w' = w_os w \<and> w_calls w' = w_calls w @ [Misc (Malloc sz)]"
  by (simp add: malloc_def sys_def Let_def prog_simps)

text \<open>
  The TCP server answers every message.  With complete blocking reads and writes, for every number
  of rounds the server is still running, and its calls are exactly one read, one clock reading and
  one eight-byte write of that reading per message.  It never returns, so the clean-up after the loop
  is never reached, on any operating system.
\<close>

theorem tcp_server_serves:
  "fst (tcp_server_communicate n c args busy w) \<noteq> Inr () \<and>
   (full_reads (w_os w) c (sint (a_size args)) \<and> full_writes (w_os w) c \<longrightarrow>
      fst (tcp_server_communicate n c args False w) = Inl Running \<and>
      w_calls (snd (tcp_server_communicate n c args False w)) =
        serve_trace (w_os w) c (sint (a_size args)) n (w_calls w @ [Misc (Malloc (sint (a_size args)))]))"
proof (intro conjI impI; (elim conjE)?)
  obtain b w1 where m: "malloc (sint (a_size args)) w = (Inr b, w1)" "w_os w1 = w_os w"
    "w_calls w1 = w_calls w @ [Misc (Malloc (sint (a_size args)))]" using malloc_run by blast
  show "fst (tcp_server_communicate n c args busy w) \<noteq> Inr ()"
    using forever_never_returns [of n "tcp_server_round n c args busy" b w1 "()"]
    by (auto simp: tcp_server_communicate_def bind_c_def seq_c_def m split: prod.splits sum.splits)
  assume full: "full_reads (w_os w) c (sint (a_size args))" "full_writes (w_os w) c"
  have "fst (forever_c n (tcp_server_round n c args False) b w1 :: (halt + unit) \<times> world) = Inl Running \<and>
     w_calls (snd (forever_c n (tcp_server_round n c args False) b w1 :: (halt + unit) \<times> world)) =
     serve_trace (w_os w) c (sint (a_size args)) n (w_calls w1)"
    using full m(2) by (intro forever_serves) (metis tcp_round_serves, simp)
  then show "fst (tcp_server_communicate n c args False w) = Inl Running"
    and "w_calls (snd (tcp_server_communicate n c args False w)) =
        serve_trace (w_os w) c (sint (a_size args)) n (w_calls w @ [Misc (Malloc (sint (a_size args)))])"
    by (simp_all add: tcp_server_communicate_def bind_fst_return m(1) seq_fst_halt m(3))
qed

definition echo_os :: os where
  "echo_os calls c =
     (case c of
        Sock (Recv fd sz) \<Rightarrow> ok_reply sz
      | Sock (Send fd bs) \<Rightarrow> ok_reply (int (length bs))
      | _ \<Rightarrow> \<lparr>ret = 0, err = 0, dat = [], nums = [1700000000, 0], addrs = []\<rparr>)"

abbreviation echo_world :: world where
  "echo_world \<equiv> \<lparr>w_os = echo_os, w_calls = [], w_errno = 0\<rparr>"

lemma echo_full: "full_reads echo_os c sz" "full_writes echo_os c" "send_bounded echo_os"
  by (simp_all add: full_reads_def full_writes_def send_bounded_def echo_os_def)

theorem tcp_server_serves_witness:
  "fst (tcp_server_communicate 3 7 \<lparr>a_size = 16, a_count = 1\<rparr> False echo_world) = Inl Running"
  using tcp_server_serves [of 3 7 "\<lparr>a_size = 16, a_count = 1\<rparr>" False echo_world] echo_full by simp

text \<open>
  C30: The UNIX-domain server stops after its first message whenever messages are larger than eight
  bytes, in particular with the default size: no round of its loop completes, since the number of
  bytes of the timestamp it sent is compared with the message size; a message that arrives
  completely is answered by a timestamp and the error exit.  With sizes up to eight bytes and
  complete reads and writes it keeps serving.
\<close>

theorem domain_server_stops:
  assumes "send_bounded (w_os w)"
  shows "(8 < sint (a_size args) \<longrightarrow>
      fst (domain_server_round n c args busy buffer w) \<noteq> Inr x \<and>
      (full_reads (w_os w) c (sint (a_size args)) \<longrightarrow>
         fst (domain_server_communicate (Suc n) c args False w) = Inl (Thrown ''Error sending on server-side''))) \<and>
     (sint (a_size args) \<le> 8 \<and> full_reads (w_os w) c (sint (a_size args)) \<and> full_writes (w_os w) c \<longrightarrow>
         fst (domain_server_communicate n c args False w) = Inl Running) \<and>
     8 < sint (a_size (parse_arguments [prog]))"
proof (intro conjI impI; (elim conjE)?)
  obtain b w1 where m: "malloc (sint (a_size args)) w = (Inr b, w1)" "w_os w1 = w_os w"
    using malloc_run by blast
  have enter: "fst (domain_server_communicate k c args False w) = Inl h"
    if "fst (forever_c k (domain_server_round k c args False) b w1 :: (halt + unit) \<times> world) = Inl h" for k h
    using that by (simp add: domain_server_communicate_def bind_fst_return m(1) seq_fst_halt)
  show "fst (domain_server_round n c args busy buffer w) \<noteq> Inr x" if "8 < sint (a_size args)"
    using that assms by (rule domain_round_fails)
  show "fst (domain_server_communicate (Suc n) c args False w) = Inl (Thrown ''Error sending on server-side'')"
    if "8 < sint (a_size args)" and "full_reads (w_os w) c (sint (a_size args))"
    using domain_round_error [of w1 c args "Suc n" b] that assms m(2)
    by (intro enter) (simp add: bind_fst_halt)
  show "fst (domain_server_communicate n c args False w) = Inl Running"
    if "sint (a_size args) \<le> 8" and "full_reads (w_os w) c (sint (a_size args))" and "full_writes (w_os w) c"
  proof (rule enter)
    have "fst (forever_c n (domain_server_round n c args False) b w1 :: (halt + unit) \<times> world) = Inl Running \<and>
       w_calls (snd (forever_c n (domain_server_round n c args False) b w1 :: (halt + unit) \<times> world)) =
       serve_trace (w_os w) c (sint (a_size args)) n (w_calls w1)"
      using that m(2) by (intro forever_serves) (metis domain_round_serves, simp)
    then show "fst (forever_c n (domain_server_round n c args False) b w1 :: (halt + unit) \<times> world) = Inl Running" by simp
  qed
  show "8 < sint (a_size (parse_arguments [prog]))"
    by (simp add: parse_arguments_def parse_loop.simps DEFAULT_MESSAGE_SIZE_def)
qed

theorem domain_server_stops_witness:
  "fst (domain_server_communicate 5 7 \<lparr>a_size = 4096, a_count = 1\<rparr> False echo_world) =
     Inl (Thrown ''Error sending on server-side'')"
  using domain_server_stops [of echo_world "\<lparr>a_size = 4096, a_count = 1\<rparr>" 4 7] echo_full by simp

section \<open>Measuring\<close>

text \<open>
  What a client measures.  If the message is sent and eight bytes arrive, the round ends with the
  statistics extended by the clock reading minus the number encoded in the eight bytes; for a
  timestamp the server encoded, that is the time since the server read its clock.  A reply of fewer
  bytes ends the client with an error, on the TCP and on the UNIX-domain connection alike.
\<close>

theorem client_round_measures:
  fixes w :: world
  assumes "0 \<le> sint (a_size args)" and "ret (w_os w (w_calls w) (Sock (Send c (take (nat (sint (a_size args))) buffer)))) \<noteq> -1"
  defines "sent \<equiv> w_calls w @ [Sock (Send c (take (nat (sint (a_size args))) buffer))]"
  defines "r \<equiv> w_os w sent (Sock (Recv c 8))"
  defines "t \<equiv> w_os w (sent @ [Sock (Recv c 8)]) (Misc Timespec_get)"
  shows "(ret r = 8 \<and> dat r = bytes_of_u64 ts \<longrightarrow>
      fst (tcp_client_round n c buffer args False bench w) =
        Inr (benchmark_at (bench\<lparr>b_single_start := ts\<rparr>) (now_value (nums t ! 0) (nums t ! 1))) \<and>
      fst (domain_client_round n c buffer args False bench w) =
        Inr (benchmark_at (bench\<lparr>b_single_start := ts\<rparr>) (now_value (nums t ! 0) (nums t ! 1)))) \<and>
     (ret r < 8 \<longrightarrow>
      fst (tcp_client_round n c buffer args False bench w) = Inl (Thrown ''Error receiving data on client-side'') \<and>
      fst (domain_client_round n c buffer args False bench w) = Inl (Thrown ''Error receiving on client-side''))"
  using assms(1,2) unfolding t_def r_def sent_def
  by (auto simp: tcp_client_round_def domain_client_round_def send_def receive_start_def receive_def
      benchmark_def now_def throw_def sys_def Let_def prog_simps recv_into_def overlay_def not_less [symmetric])

definition stamp_os :: os where
  "stamp_os calls c =
     (case c of
        Sock (Recv fd sz) \<Rightarrow> \<lparr>ret = 8, err = 0, dat = bytes_of_u64 77, nums = [], addrs = []\<rparr>
      | _ \<Rightarrow> \<lparr>ret = 0, err = 0, dat = [], nums = [1700000000, 0], addrs = []\<rparr>)"

theorem client_round_measures_witness:
  "fst (tcp_client_round 1 4 [1, 2] \<lparr>a_size = 2, a_count = 1\<rparr> False sample_bench
      \<lparr>w_os = stamp_os, w_calls = [], w_errno = 0\<rparr>) =
   Inr (benchmark_at (sample_bench\<lparr>b_single_start := 77\<rparr>) (now_value 1700000000 0))"
  using client_round_measures [of "\<lparr>a_size = 2, a_count = 1\<rparr>" "\<lparr>w_os = stamp_os, w_calls = [], w_errno = 0\<rparr>" 4 "[1, 2]"]
  by (simp add: stamp_os_def)

end
