(* ===== verification/Uintr_Pro.thy ===== *)
theory Uintr_Pro
  imports Kfifo Stream_Sockets
begin

text \<open>
  The one-way benchmark of \<^verbatim>\<open>source/uintr-pro\<close>: the server puts a timestamp into a ring in shared
  memory and sends a user interrupt; the client's interrupt handler takes it out.  The ring lives at
  different addresses in the two processes, and its structure holds one pointer to the data.  First
  the set-up, the clean-up and the client's main program over system calls; then the exchange
  itself as a step relation over both address spaces.  The server's loop and the handler as programs are
  in theory Shared_Ring.
\<close>

section \<open>Printing a ring\<close>

definition print_kfifo :: "kfifo \<Rightarrow> unit prog" where
  "print_kfifo fifo =
     (let line = (\<lambda>s (n :: u32). sys_do (Misc (Printf (s @ dec (unat n) @ [CHR 0x0A])))) in
      seq_c (sys_do (Misc (Printf (''kfifo structure:'' @ [CHR 0x0A]))))
      (seq_c (line ''Available items: '' (kfifo_avail fifo))
      (seq_c (line ''Size: '' (kf_mask fifo + 1))
      (seq_c (line ''In index: '' (kf_in fifo))
      (seq_c (line ''Out index: '' (kf_out fifo))
      (line ''Element size: '' (kf_esize fifo)))))))"

text \<open>What is called the number of available items is the number of free slots.\<close>

lemma print_kfifo_avail:
  assumes "kfifo_wf f"
  shows "\<exists>rest. w_calls (snd (print_kfifo f w)) = w_calls w @ Misc (Printf (''kfifo structure:'' @ [CHR 0x0A])) #
     Misc (Printf (''Available items: '' @ dec (cap_n f - len_n f) @ [CHR 0x0A])) # rest \<and> length rest = 4"
  using avail_n [OF assms] by (simp add: print_kfifo_def prog_simps sys_def Let_def)

section \<open>Set-up and clean-up\<close>

definition SOCK_DGRAM :: int where "SOCK_DGRAM = 2"

definition uintr_server_cleanup :: "int \<Rightarrow> int \<Rightarrow> unit prog" where
  "uintr_server_cleanup segment_id shared_memory =
     seq_c (sys_do (Ipc (Shmdt shared_memory))) (sys_do (Ipc (Shmctl_rmid segment_id)))"

text \<open>The descriptor arrives as ancillary data; the result is the index for \<open>senduipi\<close>.\<close>

definition uintr_setup_server :: "int prog" where
  "uintr_setup_server =
     bind_c (sys_ret (Sock (Socket AF_UNIX SOCK_DGRAM 0))) (\<lambda>socket_fd.
     seq_c (sys_do (File (Unlink ''process_b'')))
     (bind_c (sys_ret (Sock (Bind_un socket_fd ''process_b''))) (\<lambda>r.
      if r < 0 then seq_c (sys_do (Misc (Printf (''bind failed'' @ [CHR 0x0A])))) (halt_c (Exited 1))
      else bind_c (sys (Sock (Recvmsg_fd socket_fd))) (\<lambda>o'.
        if ret o' < 0 then halt_c (Exited 1)
        else sys_ret (Proc (Uintr_register_sender (nums o' ! 0)))))))"

definition uintr_server_notify :: "int \<Rightarrow> unit prog" where
  "uintr_server_notify uipi_index = sys_do (Proc (Senduipi uipi_index))"

definition uintr_client_cleanup :: "int \<Rightarrow> unit prog" where
  "uintr_client_cleanup shared_memory = sys_do (Ipc (Shmdt shared_memory))"

definition uintr_setup_client :: "int \<Rightarrow> unit prog" where
  "uintr_setup_client uintrfd_client =
     bind_c (sys_ret (Sock (Socket AF_UNIX SOCK_DGRAM 0))) (\<lambda>mfd.
     bind_c (sys_ret (Sock (Sendmsg_fd mfd ''process_b'' uintrfd_client))) (\<lambda>r.
     if r = -1 then seq_c (sys_do (Misc (Perror ''Send message failed''))) (halt_c (Exited 1))
     else sys_do (Proc Stui)))"

definition destroy_client :: "int \<Rightarrow> unit prog" where
  "destroy_client uintrfd_client =
     seq_c (sys_do (File (Close uintrfd_client))) (sys_do (Proc Uintr_unregister_handler))"

text \<open>
  The client's main program.  The global \<open>uintrfd_client\<close> is still zero when it is sent: nothing
  registers the handler or creates a descriptor.  The handler may change \<open>bench.single_start\<close> at any
  time; \<open>last_start\<close> is what it leaves there.
\<close>

definition uintr_client_main :: "nat \<Rightarrow> u64 \<Rightarrow> Benchmarks \<Rightarrow> string list \<Rightarrow> report prog" where
  "uintr_client_main n last_start bench0 argv =
     (let args = parse_arguments argv; uintrfd_client = 0 in
      bind_c (sys_ret (Ipc (Ftok ''uintr-shm'' (CHR ''X'')))) (\<lambda>segment_key.
      bind_c (sys_ret (Ipc (Shmget segment_key (24 + 4096) True))) (\<lambda>segment_id.
      seq_c (when_c (segment_id < 0) (sys_do (Misc (Printf ''Could not get segment''))))
      (bind_c (sys_ret (Ipc (Shmat segment_id))) (\<lambda>shared_memory.
      bind_c (setup_benchmarks bench0) (\<lambda>bench.
      seq_c (uintr_setup_client uintrfd_client)
      (bind_c (timed_run n return_c ()) (\<lambda>(_, cnt).
      seq_c (print_count cnt [])
      (bind_c (evaluate (bench\<lparr>b_single_start := last_start\<rparr>) args) (\<lambda>report.
      seq_c (destroy_client uintrfd_client)
      (seq_c (uintr_client_cleanup shared_memory) (return_c report))))))))))))"

section \<open>Two address spaces\<close>

text \<open>
  Where things are: the ring data as the server and as the client see it, the server's local variable
  \<open>timestamp\<close>, and the client's \<open>bench.single_start\<close>.
\<close>

record layout =
  at_server :: u64
  at_client :: u64
  at_stamp :: u64
  at_start :: u64

text \<open>A process sees the shared bytes at its own address and its private memory elsewhere.\<close>

definition view :: "(nat \<Rightarrow> u8) \<Rightarrow> mem \<Rightarrow> u64 \<Rightarrow> mem" where
  "view ring m base = (\<lambda>a. if unat (a - base) < 4096 then ring (unat (a - base)) else m a)"

definition shared_part :: "mem \<Rightarrow> u64 \<Rightarrow> nat \<Rightarrow> u8" where
  "shared_part m base = (\<lambda>i. m (base + of_nat i))"

datatype upc = U_now | U_in | U_send | U_spin

record upro =
  u_fifo :: kfifo
  u_ring :: "nat \<Rightarrow> u8"
  u_smem :: mem
  u_cmem :: mem
  u_pc :: upc
  u_pending :: bool
  u_sent :: "u64 list"
  u_got :: "u64 list"

text \<open>The handler: it points the ring at the client's address and takes everything out.\<close>

definition ui_handler :: "layout \<Rightarrow> upro \<Rightarrow> upro" where
  "ui_handler l s =
     (let f = (u_fifo s)\<lparr>kf_data := at_client l\<rparr>;
          (r, m, f) = kfifo_out (view (u_ring s) (u_cmem s) (at_client l)) f (at_start l) (kfifo_len f)
      in s\<lparr>u_fifo := f, u_ring := shared_part m (at_client l), u_cmem := m, u_pending := False,
           u_got := u_got s @ [u64_of_bytes (load m (at_start l) 8)]\<rparr>)"

text \<open>The server's \<open>__kfifo_in(fifo, &timestamp, 8)\<close>.\<close>

definition server_put :: "layout \<Rightarrow> upro \<Rightarrow> upro" where
  "server_put l s =
     (let (r, m, f) = kfifo_in (view (u_ring s) (u_smem s) (at_server l)) (u_fifo s) (at_stamp l) 8
      in s\<lparr>u_fifo := f, u_ring := shared_part m (at_server l), u_smem := m, u_pc := U_send,
           u_sent := u_sent s @ [u64_of_bytes (load (u_smem s) (at_stamp l) 8)]\<rparr>)"

inductive upro_step :: "layout \<Rightarrow> upro \<Rightarrow> upro \<Rightarrow> bool" for l :: layout where
  u_now: "u_pc s = U_now \<Longrightarrow>
     upro_step l s (s\<lparr>u_smem := store (u_smem s) (at_stamp l) (bytes_of_u64 t), u_pc := U_in\<rparr>)"
| u_in: "u_pc s = U_in \<Longrightarrow> upro_step l s (server_put l s)"
| u_send: "u_pc s = U_send \<Longrightarrow> upro_step l s (s\<lparr>u_pending := True, u_pc := U_spin\<rparr>)"
| u_empty: "u_pc s = U_spin \<Longrightarrow> kfifo_len (u_fifo s) = 0 \<Longrightarrow> upro_step l s (s\<lparr>u_pc := U_now\<rparr>)"
| u_interrupt: "u_pending s \<Longrightarrow> upro_step l s (ui_handler l s)"

text \<open>The server has initialised the ring of 4096 one-byte elements at its own address.\<close>

definition upro_init :: "layout \<Rightarrow> upro \<Rightarrow> bool" where
  "upro_init l s \<longleftrightarrow>
     (\<exists>f0. kfifo_init f0 (at_server l) 4096 1 = Some (0, u_fifo s)) \<and>
     u_pc s = U_now \<and> \<not> u_pending s \<and> u_sent s = [] \<and> u_got s = []"

text \<open>
  The segment is the structure of 24 bytes with the ring behind it.  The timestamp and the client's
  variable lie outside, and so does what the server reaches through the client's address: its
  timestamp and the shared structure are not there.
\<close>

definition layout_ok :: "layout \<Rightarrow> bool" where
  "layout_ok l \<longleftrightarrow>
     region (at_stamp l) 8 \<inter> region (at_server l - 24) 4120 = {} \<and>
     region (at_stamp l) 8 \<inter> region (at_client l) 4096 = {} \<and>
     region (at_server l - 24) 24 \<inter> region (at_client l) 4096 = {} \<and>
     region (at_start l) 8 \<inter> region (at_client l - 24) 4120 = {}"

lemma ring_in_segment: "region p 4096 \<subseteq> region (p - 24) 4120"
  using region_shift [of 24 4096 4120 "p - 24"] by simp

lemma layout_apart:
  assumes "layout_ok l"
  shows "region (at_stamp l) 8 \<inter> region (at_server l) 4096 = {}" "region (at_stamp l) 8 \<inter> region (at_client l) 4096 = {}"
    "region (at_start l) 8 \<inter> region (at_client l) 4096 = {}"
  using assms ring_in_segment [of "at_server l"] ring_in_segment [of "at_client l"] unfolding layout_ok_def by blast+

section \<open>Indices\<close>

definition ring_shape :: "kfifo \<Rightarrow> bool" where
  "ring_shape f \<longleftrightarrow> kf_mask f = 4095 \<and> kf_esize f = 1 \<and> (kfifo_len f = 0 \<or> kfifo_len f = 8)"

lemma ring_shape_wf:
  assumes "ring_shape f"
  shows "kfifo_wf f" "cap_n f = 4096" "esize_n f = 1" "ring_bytes f = region (kf_data f) 4096"
proof -
  have "kfifo_cap f = 4096" using assms by (simp add: ring_shape_def kfifo_cap_def)
  moreover have "is_power_of_2 4096" by (simp add: is_power_of_2_def)
  moreover have "kfifo_len f \<le> 4096" using assms by (auto simp: ring_shape_def)
  ultimately show "kfifo_wf f" "cap_n f = 4096" "esize_n f = 1" "ring_bytes f = region (kf_data f) 4096"
    using assms by (simp_all add: kfifo_wf_def ring_bytes_def ring_shape_def)
qed

definition index_inv :: "layout \<Rightarrow> upro \<Rightarrow> bool" where
  "index_inv l s \<longleftrightarrow>
     kf_mask (u_fifo s) = 4095 \<and> kf_esize (u_fifo s) = 1 \<and>
     kf_data (u_fifo s) = (if u_got s = [] then at_server l else at_client l) \<and>
     (case u_pc s of
        U_now \<Rightarrow> kfifo_len (u_fifo s) = 0 \<and> \<not> u_pending s \<and> length (u_sent s) = length (u_got s)
      | U_in \<Rightarrow> kfifo_len (u_fifo s) = 0 \<and> \<not> u_pending s \<and> length (u_sent s) = length (u_got s)
      | U_send \<Rightarrow> kfifo_len (u_fifo s) = 8 \<and> \<not> u_pending s \<and> length (u_sent s) = Suc (length (u_got s))
      | U_spin \<Rightarrow> if u_pending s then kfifo_len (u_fifo s) = 8 \<and> length (u_sent s) = Suc (length (u_got s))
                 else kfifo_len (u_fifo s) = 0 \<and> length (u_sent s) = length (u_got s))"

lemma index_shape: "index_inv l s \<Longrightarrow> ring_shape (u_fifo s)"
  by (auto simp: index_inv_def ring_shape_def split: upc.splits if_splits)

lemma init_shape:
  assumes "upro_init l s"
  shows "kf_mask (u_fifo s) = 4095" "kf_esize (u_fifo s) = 1" "kf_data (u_fifo s) = at_server l"
    "kf_in (u_fifo s) = 0" "kf_out (u_fifo s) = 0"
proof -
  obtain f0 where "f0\<lparr>kf_in := 0, kf_out := 0, kf_esize := 1, kf_data := at_server l, kf_mask := 4095\<rparr> = u_fifo s"
    using assms by (auto simp: upro_init_def kfifo_init_def Let_def is_power_of_2_def split: if_splits)
  from this [symmetric] show "kf_mask (u_fifo s) = 4095" "kf_esize (u_fifo s) = 1"
    "kf_data (u_fifo s) = at_server l" "kf_in (u_fifo s) = 0" "kf_out (u_fifo s) = 0" by simp_all
qed

lemma server_put_fifo:
  assumes "ring_shape (u_fifo s)" and "kfifo_len (u_fifo s) = 0"
  shows "u_fifo (server_put l s) = (u_fifo s)\<lparr>kf_in := kf_in (u_fifo s) + 8\<rparr>"
proof -
  have "kfifo_unused (u_fifo s) = 4096"
    using assms by (simp add: kfifo_unused_def ring_shape_def kfifo_len_def)
  then show ?thesis by (simp add: server_put_def kfifo_in_def Let_def)
qed

lemma ui_handler_fifo:
  "u_fifo (ui_handler l s) = (u_fifo s)\<lparr>kf_data := at_client l, kf_out := kf_in (u_fifo s)\<rparr>"
  by (simp add: ui_handler_def kfifo_out_def kfifo_out_peek_def Let_def kfifo_len_def split_def)

lemma step_other_fields [simp]:
  "u_pc (server_put l s) = U_send" "u_pending (server_put l s) = u_pending s"
  "length (u_sent (server_put l s)) = Suc (length (u_sent s))" "u_got (server_put l s) = u_got s"
  "u_pc (ui_handler l s) = u_pc s" "\<not> u_pending (ui_handler l s)"
  "u_sent (ui_handler l s) = u_sent s" "length (u_got (ui_handler l s)) = Suc (length (u_got s))"
  "u_got (ui_handler l s) \<noteq> []"
  by (simp_all add: server_put_def ui_handler_def Let_def split_def)

lemma index_inv_step: "index_inv l s \<Longrightarrow> upro_step l s t \<Longrightarrow> index_inv l t"
  by (erule upro_step.cases)
    (auto simp: index_inv_def server_put_fifo ui_handler_fifo kfifo_len_def ring_shape_def
      split: upc.splits if_splits)

lemma index_inv_init: "upro_init l s \<Longrightarrow> index_inv l s"
  using init_shape [of l s] by (simp add: index_inv_def upro_init_def kfifo_len_def)

lemma index_progress: "index_inv l s \<Longrightarrow> \<exists>t. upro_step l s t"
  by (cases "u_pc s") (auto simp: index_inv_def split: if_splits intro: upro_step.intros)

interpretation one_way: live_system "upro_init l" "upro_step l" "index_inv l" "\<lambda>_. False" for l
  by unfold_locales (blast intro: index_inv_init index_inv_step index_progress)+

section \<open>Contents\<close>

text \<open>The queued bytes in terms of the shared part, independent of any address.\<close>

definition ring_items :: "(nat \<Rightarrow> u8) \<Rightarrow> kfifo \<Rightarrow> u8 list list" where
  "ring_items ring f = map (\<lambda>k. [ring (unat (kf_out f + of_nat k) mod 4096)]) [0..<len_n f]"

lemma contents_ring_items:
  assumes "ring_shape f"
  shows "kfifo_contents m f = ring_items (shared_part m (kf_data f)) f"
  using ring_shape_wf [OF assms]
  by (simp add: kfifo_contents_def ring_items_def slot_def shared_part_def load_def)

lemma shared_part_view: "i < 4096 \<Longrightarrow> shared_part (view ring m base) base i = ring i"
  by (simp add: shared_part_def view_def unat_of_nat_u64)

lemma ring_items_cong: "(\<And>i. i < 4096 \<Longrightarrow> r1 i = r2 i) \<Longrightarrow> ring_items r1 f = ring_items r2 f"
  by (simp add: ring_items_def)

lemma contents_view:
  assumes "ring_shape f" and "kf_data f = base"
  shows "kfifo_contents (view ring m base) f = ring_items ring f"
  using contents_ring_items [OF assms(1)] assms(2)
  by (simp add: ring_items_cong [of "shared_part (view ring m base) base" ring] shared_part_view)

lemma elements_bytes: "elements_at m a (Suc 0) n = map (\<lambda>x. [x]) (load m a n)"
  by (simp add: elements_at_def load_def)

lemma singles_inject: "map (\<lambda>x. [x]) xs = map (\<lambda>x. [x]) ys \<Longrightarrow> xs = ys"
  by (induction xs arbitrary: ys) (auto simp: Cons_eq_map_conv)

lemma view_outside: "a \<notin> region base 4096 \<Longrightarrow> view ring m base a = m a"
  by (simp add: view_def region_def)

lemma load_view_outside:
  "region p 8 \<inter> region base 4096 = {} \<Longrightarrow> load (view ring m base) p 8 = load m p 8"
  using region_memI [of _ 8 p] by (intro load_cong view_outside) fastforce

lemma handler_facts:
  assumes "ring_shape (u_fifo s)" and "kfifo_len (u_fifo s) = 8" and "layout_ok l"
  shows "map (\<lambda>x. [x]) (load (u_cmem (ui_handler l s)) (at_start l) 8) = ring_items (u_ring s) (u_fifo s)"
    and "a \<notin> region (at_start l) 8 \<Longrightarrow> u_cmem (ui_handler l s) a = view (u_ring s) (u_cmem s) (at_client l) a"
    and "u_got (ui_handler l s) = u_got s @ [u64_of_bytes (load (u_cmem (ui_handler l s)) (at_start l) 8)]"
proof -
  define f where "f = (u_fifo s)\<lparr>kf_data := at_client l\<rparr>"
  define m where "m = view (u_ring s) (u_cmem s) (at_client l)"
  have f: "ring_shape f" "kfifo_len f = 8" "kf_data f = at_client l"
    using assms by (simp_all add: f_def ring_shape_def kfifo_len_def)
  note wf = ring_shape_wf [OF f(1)]
  have us: "kf_usable (m, f) (at_start l) 8"
    using layout_apart [OF assms(3)] wf f(3) by simp
  from kf_deq_facts [OF wf(1) us] obtain r m' where d: "kf_deq (m, f) (at_start l) 8 = (unat r, m', f\<lparr>kf_out := kf_out f + r\<rparr>)"
    and r: "unat r = 8" and el: "elements_at m' (at_start l) 1 8 = take 8 (kfifo_contents m f)"
    and out: "\<forall>b. b \<notin> region (at_start l) 8 \<longrightarrow> m' b = m b"
    using f(2) wf(3) by auto
  have cm: "u_cmem (ui_handler l s) = m'"
    using d f(2) by (auto simp: ui_handler_def f_def m_def Let_def split: prod.splits)
  have "kfifo_contents m f = ring_items (u_ring s) f" unfolding m_def by (rule contents_view [OF f(1,3)])
  moreover have "length (ring_items (u_ring s) f) = 8" using f(2) by (simp add: ring_items_def)
  moreover have "ring_items (u_ring s) f = ring_items (u_ring s) (u_fifo s)"
    by (simp add: ring_items_def f_def kfifo_len_def)
  ultimately show "map (\<lambda>x. [x]) (load (u_cmem (ui_handler l s)) (at_start l) 8) = ring_items (u_ring s) (u_fifo s)"
    using el by (simp add: cm elements_bytes)
  show "u_cmem (ui_handler l s) a = view (u_ring s) (u_cmem s) (at_client l) a" if "a \<notin> region (at_start l) 8"
    using out that by (simp add: cm m_def)
  show "u_got (ui_handler l s) = u_got s @ [u64_of_bytes (load (u_cmem (ui_handler l s)) (at_start l) 8)]"
    by (simp add: ui_handler_def Let_def split_def)
qed

lemma put_facts:
  assumes "ring_shape (u_fifo s)" and "kfifo_len (u_fifo s) = 0" and "layout_ok l"
    and "kf_data (u_fifo s) \<in> {at_server l, at_client l}"
  shows "kfifo_contents (u_smem (server_put l s)) (u_fifo (server_put l s)) = map (\<lambda>x. [x]) (load (u_smem s) (at_stamp l) 8)"
    and "a \<notin> region (kf_data (u_fifo s)) 4096 \<Longrightarrow> u_smem (server_put l s) a = view (u_ring s) (u_smem s) (at_server l) a"
    and "u_ring (server_put l s) = shared_part (u_smem (server_put l s)) (at_server l)"
    and "u_sent (server_put l s) = u_sent s @ [u64_of_bytes (load (u_smem s) (at_stamp l) 8)]"
proof -
  define m where "m = view (u_ring s) (u_smem s) (at_server l)"
  note wf = ring_shape_wf [OF assms(1)]
  have us: "kf_usable (m, u_fifo s) (at_stamp l) 8"
    using layout_apart [OF assms(3)] assms(4) wf by auto
  from kf_enq_facts [OF wf(1) us] obtain r m' where e: "kf_enq (m, u_fifo s) (at_stamp l) 8 = (unat r, m', (u_fifo s)\<lparr>kf_in := kf_in (u_fifo s) + r\<rparr>)"
    and r: "unat r = 8"
    and c: "kfifo_contents m' ((u_fifo s)\<lparr>kf_in := kf_in (u_fifo s) + r\<rparr>) = elements_at m (at_stamp l) 1 8"
    and out: "\<forall>b. b \<notin> region (kf_data (u_fifo s)) 4096 \<longrightarrow> m' b = m b"
    using assms(2) wf by (auto simp: kfifo_contents_def)
  have sm: "u_smem (server_put l s) = m'" "u_fifo (server_put l s) = (u_fifo s)\<lparr>kf_in := kf_in (u_fifo s) + r\<rparr>"
    using e by (auto simp: server_put_def m_def Let_def split: prod.splits)
  show "kfifo_contents (u_smem (server_put l s)) (u_fifo (server_put l s)) = map (\<lambda>x. [x]) (load (u_smem s) (at_stamp l) 8)"
    using c layout_apart [OF assms(3)] by (simp add: sm elements_bytes m_def load_view_outside)
  show "u_smem (server_put l s) a = view (u_ring s) (u_smem s) (at_server l) a" if "a \<notin> region (kf_data (u_fifo s)) 4096"
    using out that by (simp add: sm m_def)
  show "u_ring (server_put l s) = shared_part (u_smem (server_put l s)) (at_server l)"
    and "u_sent (server_put l s) = u_sent s @ [u64_of_bytes (load (u_smem s) (at_stamp l) 8)]"
    by (simp_all add: server_put_def Let_def split_def)
qed

text \<open>
  C11: The handler stays inside its variable.  In every reachable state, wherever the two processes have
  attached the segment, the ring holds no byte or the eight of one timestamp, an interrupt is
  pending only with a timestamp in the ring, and the system can go on.  The handler, which copies as
  many bytes as the ring holds to the eight-byte \<open>bench.single_start\<close>, therefore changes no other
  private memory of the client.
\<close>

theorem handler_in_bounds:
  assumes "reach (upro_init l) (upro_step l) s" and "layout_ok l"
  shows "kfifo_len (u_fifo s) \<in> {0, 8} \<and> (u_pending s \<longrightarrow> kfifo_len (u_fifo s) = 8) \<and>
     \<not> stuck (upro_step l) s \<and>
     (u_pending s \<and> a \<notin> region (at_start l) 8 \<and> a \<notin> region (at_client l - 24) 4120 \<longrightarrow>
        u_cmem (ui_handler l s) a = u_cmem s a)"
proof -
  have inv: "index_inv l s" using assms(1) by (rule one_way.reach_inv)
  then have len: "kfifo_len (u_fifo s) \<in> {0, 8}" and pend: "u_pending s \<Longrightarrow> kfifo_len (u_fifo s) = 8"
    by (auto simp: index_inv_def split: upc.splits if_splits)
  moreover have "\<not> stuck (upro_step l) s" using index_progress [OF inv] by (auto simp: stuck_def)
  moreover have "u_cmem (ui_handler l s) a = u_cmem s a"
    if "u_pending s" and "a \<notin> region (at_start l) 8" and "a \<notin> region (at_client l - 24) 4120"
  proof -
    have "a \<notin> region (at_client l) 4096" using that(3) ring_in_segment by blast
    then show ?thesis
      using handler_facts(2) [OF index_shape [OF inv] pend assms(2), of a] that(1,2) by (simp add: view_outside)
  qed
  ultimately show ?thesis by blast
qed

definition sample_layout :: layout where
  "sample_layout = \<lparr>at_server = 65536, at_client = 131072, at_stamp = 4096, at_start = 8192\<rparr>"

definition sample_upro :: upro where
  "sample_upro = \<lparr>u_fifo = \<lparr>kf_in = 0, kf_out = 0, kf_mask = 4095, kf_esize = 1, kf_data = 65536\<rparr>,
     u_ring = (\<lambda>i. 0), u_smem = (\<lambda>a. 1), u_cmem = (\<lambda>a. 2), u_pc = U_now, u_pending = False,
     u_sent = [], u_got = []\<rparr>"

lemma sample_init_fifo:
  "kfifo_init (u_fifo sample_upro) 65536 4096 1 = Some (0, u_fifo sample_upro)"
  by (simp add: kfifo_init_def sample_upro_def Let_def is_power_of_2_def)

lemma sample_layout_ok: "layout_ok sample_layout" "layout_ok (sample_layout\<lparr>at_client := 65536\<rparr>)"
proof -
  have "region 4096 8 \<inter> region 65512 4120 = {}" "region 4096 8 \<inter> region 131072 4096 = {}"
    "region 8192 8 \<inter> region 131048 4120 = {}" "region 65512 24 \<inter> region 131072 4096 = {}"
    "region 4096 8 \<inter> region 65536 4096 = {}" "region 8192 8 \<inter> region 65512 4120 = {}"
    "region 65512 24 \<inter> region 65536 4096 = {}"
    by (rule regions_apart [where d = 61416], simp_all, rule regions_apart [where d = 126976], simp_all,
        rule regions_apart [where d = 122856], simp_all, rule regions_apart [where d = 65560], simp_all,
        rule regions_apart [where d = 61440], simp_all, rule regions_apart [where d = 57320], simp_all,
        rule regions_apart [where d = 24], simp_all)
  then show "layout_ok sample_layout" "layout_ok (sample_layout\<lparr>at_client := 65536\<rparr>)"
    by (simp_all add: layout_ok_def sample_layout_def)
qed

lemma sample_upro_init: "upro_init sample_layout sample_upro"
  using sample_init_fifo unfolding upro_init_def by (auto simp: sample_layout_def sample_upro_def)

theorem handler_in_bounds_witness:
  "kfifo_len (u_fifo sample_upro) \<in> {0, 8} \<and> \<not> stuck (upro_step sample_layout) sample_upro"
  using handler_in_bounds [OF reach_init [where init = "upro_init sample_layout", OF sample_upro_init] sample_layout_ok(1)]
  by blast

section \<open>The same address in both processes\<close>

definition same_inv :: "layout \<Rightarrow> upro \<Rightarrow> bool" where
  "same_inv l s \<longleftrightarrow> index_inv l s \<and>
     (if kfifo_len (u_fifo s) = 8
      then u_sent s = u_got s @ [last (u_sent s)] \<and>
           ring_items (u_ring s) (u_fifo s) = map (\<lambda>x. [x]) (bytes_of_u64 (last (u_sent s)))
      else u_sent s = u_got s)"

lemma same_put:
  assumes "same_inv l s" and "layout_ok l" and "at_server l = at_client l" and "u_pc s = U_in"
  shows "same_inv l (server_put l s)"
proof -
  have inv: "index_inv l s" using assms(1) by (simp add: same_inv_def)
  have len: "kfifo_len (u_fifo s) = 0" and data: "kf_data (u_fifo s) = at_server l"
    using inv assms(3,4) by (simp_all add: index_inv_def)
  have sent: "u_sent s = u_got s" using assms(1) len by (simp add: same_inv_def)
  have inv': "index_inv l (server_put l s)" using index_inv_step [OF inv u_in [OF assms(4)]] .
  have len': "kfifo_len (u_fifo (server_put l s)) = 8" using inv' by (simp add: index_inv_def)
  have data': "kf_data (u_fifo (server_put l s)) = at_server l"
    using server_put_fifo [OF index_shape [OF inv] len] data by simp
  note p = put_facts [OF index_shape [OF inv] len assms(2)]
  have "ring_items (u_ring (server_put l s)) (u_fifo (server_put l s)) =
      kfifo_contents (u_smem (server_put l s)) (u_fifo (server_put l s))"
    using contents_ring_items [OF index_shape [OF inv']] data' p(3) data by simp
  also have "\<dots> = map (\<lambda>x. [x]) (load (u_smem s) (at_stamp l) 8)" using p(1) data by simp
  finally show ?thesis
    using inv' len' p(4) data sent by (simp add: same_inv_def bytes_u64_roundtrip)
qed

lemma same_handler:
  assumes "same_inv l s" and "layout_ok l" and "u_pending s"
  shows "same_inv l (ui_handler l s)"
proof -
  have inv: "index_inv l s" using assms(1) by (simp add: same_inv_def)
  have len: "kfifo_len (u_fifo s) = 8" using inv assms(3) by (auto simp: index_inv_def split: upc.splits)
  have inv': "index_inv l (ui_handler l s)" using index_inv_step [OF inv u_interrupt [OF assms(3)]] .
  have len': "kfifo_len (u_fifo (ui_handler l s)) = 0" by (simp add: ui_handler_fifo kfifo_len_def)
  note h = handler_facts [OF index_shape [OF inv] len assms(2)]
  have "map (\<lambda>x. [x]) (load (u_cmem (ui_handler l s)) (at_start l) 8) = map (\<lambda>x. [x]) (bytes_of_u64 (last (u_sent s)))"
    using h(1) assms(1) len by (simp add: same_inv_def)
  then have "load (u_cmem (ui_handler l s)) (at_start l) 8 = bytes_of_u64 (last (u_sent s))"
    by (rule singles_inject)
  then have "u_got (ui_handler l s) = u_sent s"
    using h(3) assms(1) len by (simp add: same_inv_def)
  then show ?thesis using inv' len' by (simp add: same_inv_def)
qed

lemma same_inv_step:
  assumes "same_inv l s" and "upro_step l s t" and "layout_ok l" and "at_server l = at_client l"
  shows "same_inv l t"
proof -
  have inv': "index_inv l t" using assms(1,2) index_inv_step by (auto simp: same_inv_def)
  from assms(2) show ?thesis
  proof cases
    case u_in
    then show ?thesis using same_put [OF assms(1,3,4)] by simp
  next
    case u_interrupt
    then show ?thesis using same_handler [OF assms(1,3)] by simp
  qed (use assms(1) inv' in \<open>auto simp: same_inv_def\<close>)
qed

lemma same_inv_init: "upro_init l s \<Longrightarrow> same_inv l s"
  using index_inv_init [of l s] init_shape [of l s]
  by (simp add: same_inv_def upro_init_def kfifo_len_def)

interpretation same_address: invariant_system "upro_init l" "upro_step l"
  "\<lambda>s. if layout_ok l \<and> at_server l = at_client l then same_inv l s else True" for l
  by unfold_locales (auto intro: same_inv_init same_inv_step)

text \<open>
  With the segment at the same address in both processes, every timestamp arrives exactly once, in
  order and unchanged: what the handler has stored into \<open>bench.single_start\<close> so far is what the server
  has put into the ring, except for the one that may be under way.
\<close>

theorem same_address_delivers:
  assumes "reach (upro_init l) (upro_step l) s" and "layout_ok l" and "at_server l = at_client l"
  shows "u_sent s = u_got s \<or> (\<exists>x. u_sent s = u_got s @ [x])"
  using same_address.reach_inv [OF assms(1)] assms(2,3) by (auto simp: same_inv_def split: if_splits)

theorem same_address_delivers_witness:
  "\<exists>l s. layout_ok l \<and> at_server l = at_client l \<and> reach (upro_init l) (upro_step l) s \<and> u_pc s = U_send \<and>
     (u_sent s = u_got s \<or> (\<exists>x. u_sent s = u_got s @ [x]))"
proof -
  define l where "l = sample_layout\<lparr>at_client := 65536\<rparr>"
  have ok: "layout_ok l" "at_server l = at_client l"
    using sample_layout_ok(2) by (simp_all add: l_def sample_layout_def)
  have init: "upro_init l sample_upro"
    using sample_upro_init by (simp add: l_def upro_init_def sample_layout_def)
  define s1 where "s1 = sample_upro\<lparr>u_smem := store (u_smem sample_upro) (at_stamp l) (bytes_of_u64 5), u_pc := U_in\<rparr>"
  have "upro_step l sample_upro s1" unfolding s1_def by (rule u_now) (simp add: sample_upro_def)
  moreover have "upro_step l s1 (server_put l s1)" by (rule u_in) (simp add: s1_def)
  ultimately have r: "reach (upro_init l) (upro_step l) (server_put l s1)"
    using one_way.run_reach [OF reach_init [where init = "upro_init l", OF init], of "[s1, server_put l s1]"]
    by simp
  have "u_pc (server_put l s1) = U_send" by simp
  with same_address_delivers [OF r ok] ok r show ?thesis
    by (intro exI [of _ l] exI [of _ "server_put l s1"] conjI)
qed

section \<open>Different addresses\<close>

text \<open>
  C12: With the segment at different addresses the benchmark works for one message only.  The handler
  stores the client's address into the shared structure, so as soon as one timestamp has been
  received the server's next \<open>__kfifo_in\<close> goes through that pointer: the shared bytes stay as
  they are, and the timestamp ends up in the server's own memory at the client's address.
\<close>

theorem different_addresses_corrupt:
  assumes "reach (upro_init l) (upro_step l) s" and "layout_ok l"
    and "region (at_server l) 4096 \<inter> region (at_client l) 4096 = {}"
    and "u_pc s = U_in" and "u_got s \<noteq> []"
  shows "upro_step l s (server_put l s) \<and>
     (\<forall>i<4096. u_ring (server_put l s) i = u_ring s i) \<and>
     kf_data (u_fifo (server_put l s)) = at_client l \<and>
     kfifo_contents (u_smem (server_put l s)) (u_fifo (server_put l s)) =
       map (\<lambda>x. [x]) (load (u_smem s) (at_stamp l) 8)"
proof -
  have inv: "index_inv l s" using assms(1) by (rule one_way.reach_inv)
  have len: "kfifo_len (u_fifo s) = 0" and data: "kf_data (u_fifo s) = at_client l"
    using inv assms(4,5) by (simp_all add: index_inv_def)
  have d2: "kf_data (u_fifo s) \<in> {at_server l, at_client l}" using data by simp
  note p = put_facts [OF index_shape [OF inv] len assms(2) d2]
  have "u_ring (server_put l s) i = u_ring s i" if "i < 4096" for i
  proof -
    have "at_server l + of_nat i \<in> region (at_server l) 4096" using that by (intro region_memI) simp_all
    then have "at_server l + of_nat i \<notin> region (kf_data (u_fifo s)) 4096"
      unfolding data using assms(3) by (metis disjoint_iff)
    from p(2) [OF this] show ?thesis
      using shared_part_view [OF that, of "u_ring s" "u_smem s" "at_server l"]
      by (simp add: p(3) shared_part_def)
  qed
  then show ?thesis
    using u_in [OF assms(4)] p(1) server_put_fifo [OF index_shape [OF inv] len] data by simp
qed

lemma second_message_reachable:
  assumes "upro_init l s"
  shows "\<exists>t. reach (upro_init l) (upro_step l) t \<and> u_pc t = U_in \<and> u_got t \<noteq> []"
proof -
  define s1 where "s1 = s\<lparr>u_smem := store (u_smem s) (at_stamp l) (bytes_of_u64 5), u_pc := U_in\<rparr>"
  define s3 where "s3 = (server_put l s1)\<lparr>u_pending := True, u_pc := U_spin\<rparr>"
  define s5 where "s5 = (ui_handler l s3)\<lparr>u_pc := U_now\<rparr>"
  define s6 where "s6 = s5\<lparr>u_smem := store (u_smem s5) (at_stamp l) (bytes_of_u64 6), u_pc := U_in\<rparr>"
  have "upro_step l s s1" unfolding s1_def using assms by (intro u_now) (simp add: upro_init_def)
  moreover have "upro_step l s1 (server_put l s1)" by (rule u_in) (simp add: s1_def)
  moreover have "upro_step l (server_put l s1) s3" unfolding s3_def by (rule u_send) simp
  moreover have "upro_step l s3 (ui_handler l s3)" by (rule u_interrupt) (simp add: s3_def)
  moreover have "upro_step l (ui_handler l s3) s5" unfolding s5_def
    by (rule u_empty) (simp_all add: s3_def ui_handler_fifo kfifo_len_def)
  moreover have "upro_step l s5 s6" unfolding s6_def by (rule u_now) (simp add: s5_def)
  ultimately have "reach (upro_init l) (upro_step l) s6"
    using one_way.run_reach [OF reach_init [where init = "upro_init l", OF assms],
        of "[s1, server_put l s1, s3, ui_handler l s3, s5, s6]"] by simp
  moreover have "u_pc s6 = U_in" and "u_got s6 \<noteq> []" by (simp_all add: s6_def s5_def)
  ultimately show ?thesis by blast
qed

theorem different_addresses_corrupt_witness:
  "\<exists>s. reach (upro_init sample_layout) (upro_step sample_layout) s \<and>
     (\<forall>i<4096. u_ring (server_put sample_layout s) i = u_ring s i)"
proof -
  have "region 65536 4096 \<inter> region 131072 4096 = {}"
    by (rule regions_apart [where d = 65536]) simp_all
  then have "region (at_server sample_layout) 4096 \<inter> region (at_client sample_layout) 4096 = {}"
    by (simp add: sample_layout_def)
  with second_message_reachable [OF sample_upro_init] show ?thesis
    using different_addresses_corrupt [OF _ sample_layout_ok(1)] by blast
qed

section \<open>The client never reports\<close>

text \<open>
  C39: The client's main program cannot report anything.  Nothing calls \<open>benchmark\<close>, so \<open>evaluate\<close> runs
  on an empty sum: on every operating system, for every command line, number of iterations and
  whatever the handler stored, the program does not return, and where it gets as far as \<open>evaluate\<close>
  with a positive count it converts \<open>0 / 0\<close> to an integer.
\<close>

theorem uintr_client_never_reports:
  "fst (uintr_client_main n last_start bench0 argv w) \<noteq> Inr report \<and>
   (0 < sint (a_count args) \<longrightarrow>
      evaluate ((setup_benchmarks_at bench0 t)\<lparr>b_single_start := last_start\<rparr>) args w =
        (Inl (Undefined ''message rate out of range''), w))"
proof -
  have ev: "fst (evaluate ((setup_benchmarks_at bench0 t)\<lparr>b_single_start := x\<rparr>) args w) \<noteq> Inr r" for t x args w r
    by (simp add: evaluate_def setup_benchmarks_at_def round_double_def halt_c_def Let_def)
  then have "never_returns (evaluate ((setup_benchmarks_at bench0 t)\<lparr>b_single_start := x\<rparr>) args)" for t x args
    by (simp add: never_returns_def)
  then have "never_returns (uintr_client_main n last_start bench0 argv)"
    unfolding uintr_client_main_def Let_def bind_setup_benchmarks
    by (auto intro!: never_returns_bind never_returns_seq never_returns_first [of "evaluate _ _"])
  then show ?thesis
    by (simp add: never_returns_def evaluate_def setup_benchmarks_at_def round_double_def halt_c_def Let_def)
qed

theorem uintr_client_never_reports_witness:
  "evaluate ((setup_benchmarks_at sample_bench 3)\<lparr>b_single_start := 9\<rparr>) \<lparr>a_size = 8, a_count = 1000\<rparr> idle_world =
     (Inl (Undefined ''message rate out of range''), idle_world)"
  using uintr_client_never_reports [of 1 9 sample_bench "[]" idle_world undefined "\<lparr>a_size = 8, a_count = 1000\<rparr>" 3]
  by simp

end
