(* ===== verification/Uintrfd.thy ===== *)
theory Uintrfd
  imports Options
begin

text \<open>
  The user-interrupt benchmarks \<^verbatim>\<open>source/uintrfd/uintrfd-bi.c\<close> and \<^verbatim>\<open>uintrfd-uni.c\<close>: two threads, each
  spinning on a flag that its interrupt handler sets.  \<open>senduipi\<close> posts an interrupt at the receiver
  (posting it again before delivery changes nothing), which is delivered once the receiver has
  executed \<open>stui\<close>.
\<close>

section \<open>The programs\<close>

text \<open>
  The variables the two threads and the handler share are memory another thread may change at any
  time; they are read and written through events.  Their places: the flags \<open>uintr_received[2]\<close> at 0 and
  8, \<open>uintrfd_client\<close> at 16, \<open>uintrfd_server\<close> at 20.
\<close>

definition global_get :: "nat \<Rightarrow> nat \<Rightarrow> int prog" where
  "global_get place n = sys_ret (Ipc (Shm_load 0 place n))"

definition global_set :: "nat \<Rightarrow> nat \<Rightarrow> int \<Rightarrow> unit prog" where
  "global_set place n v = sys_do (Ipc (Shm_store 0 place (take n (bytes_of_u64 (of_int v)))))"

definition TOKEN_SERVER :: nat where "TOKEN_SERVER = 0"
definition TOKEN_CLIENT :: nat where "TOKEN_CLIENT = 1"
definition AT_FD_CLIENT :: nat where "AT_FD_CLIENT = 16"
definition AT_FD_SERVER :: nat where "AT_FD_SERVER = 20"

definition setup_handler_with_vector :: "nat \<Rightarrow> int prog" where
  "setup_handler_with_vector vector =
     bind_c (sys_ret (Proc Uintr_register_handler)) (\<lambda>r.
     if r \<noteq> 0 then throw (''Interrupt handler register error'' @ [CHR 0x0A])
     else bind_c (sys_ret (Proc (Uintr_create_fd (int vector)))) (\<lambda>fd.
       if fd < 0 then throw (''Interrupt vector registration error'' @ [CHR 0x0A]) else return_c fd))"

fun uintrfd_wait :: "nat \<Rightarrow> nat \<Rightarrow> unit prog" where
  "uintrfd_wait 0 token = halt_c Running"
| "uintrfd_wait (Suc n) token =
     bind_c (global_get (8 * token) 8) (\<lambda>r.
       if r = 0 then uintrfd_wait n token else global_set (8 * token) 8 0)"

definition uintrfd_notify :: "int \<Rightarrow> unit prog" where
  "uintrfd_notify uipi_index = sys_do (Proc (Senduipi uipi_index))"

fun await_descriptor :: "nat \<Rightarrow> nat \<Rightarrow> unit prog" where
  "await_descriptor 0 place = halt_c Running"
| "await_descriptor (Suc n) place =
     bind_c (global_get place 4) (\<lambda>fd.
       if fd = 0 then seq_c (sys_do (Misc (Usleep 10))) (await_descriptor n place) else return_c ())"

text \<open>The result is the sender index; only the client's side checks it.\<close>

definition setup_client :: "nat \<Rightarrow> int prog" where
  "setup_client n =
     bind_c (setup_handler_with_vector TOKEN_CLIENT) (\<lambda>fd.
     seq_c (global_set AT_FD_CLIENT 4 fd)
     (seq_c (await_descriptor n AT_FD_SERVER)
     (bind_c (global_get AT_FD_SERVER 4) (\<lambda>uintrfd_server.
      bind_c (sys_ret (Proc (Uintr_register_sender uintrfd_server))) (\<lambda>uipi_index.
        if uipi_index < 0 then throw (''Sender register error'' @ [CHR 0x0A])
        else seq_c (sys_do (Proc Stui)) (return_c uipi_index))))))"

definition setup_server :: "nat \<Rightarrow> int prog" where
  "setup_server n =
     bind_c (setup_handler_with_vector TOKEN_SERVER) (\<lambda>fd.
     seq_c (global_set AT_FD_SERVER 4 fd)
     (seq_c (await_descriptor n AT_FD_CLIENT)
     (bind_c (global_get AT_FD_CLIENT 4) (\<lambda>uintrfd_client.
      bind_c (sys_ret (Proc (Uintr_register_sender uintrfd_client))) (\<lambda>uipi_index.
        seq_c (sys_do (Proc Stui)) (return_c uipi_index))))))"

fun ub_client_rounds :: "nat \<Rightarrow> int \<Rightarrow> nat \<Rightarrow> unit prog" where
  "ub_client_rounds n uipi_index 0 = return_c ()"
| "ub_client_rounds n uipi_index (Suc loop) =
     seq_c (uintrfd_wait n TOKEN_CLIENT)
     (seq_c (uintrfd_notify uipi_index) (ub_client_rounds n uipi_index loop))"

definition ub_client_communicate :: "nat \<Rightarrow> Arguments \<Rightarrow> unit prog" where
  "ub_client_communicate n args =
     bind_c (setup_client n) (\<lambda>uipi_index. ub_client_rounds n uipi_index (nat (sint (a_count args))))"

fun ub_server_rounds :: "nat \<Rightarrow> int \<Rightarrow> nat \<Rightarrow> Benchmarks \<Rightarrow> Benchmarks prog" where
  "ub_server_rounds n uipi_index 0 bench = return_c bench"
| "ub_server_rounds n uipi_index (Suc left) bench =
     bind_c now (\<lambda>t.
     seq_c (uintrfd_notify uipi_index)
     (seq_c (uintrfd_wait n TOKEN_SERVER)
     (bind_c (benchmark (bench\<lparr>b_single_start := t\<rparr>)) (ub_server_rounds n uipi_index left))))"

definition ub_server_communicate :: "nat \<Rightarrow> Benchmarks \<Rightarrow> Arguments \<Rightarrow> report prog" where
  "ub_server_communicate n bench0 args =
     bind_c (setup_benchmarks bench0) (\<lambda>bench.
     bind_c (setup_server n) (\<lambda>uipi_index.
     bind_c (ub_server_rounds n uipi_index (nat (sint (a_count args))) bench) (\<lambda>bench.
     evaluate bench (args\<lparr>a_size := 1\<rparr>))))"

text \<open>The main thread; the new thread runs \<^const>\<open>ub_client_communicate\<close>.\<close>

definition ub_communicate :: "nat \<Rightarrow> Benchmarks \<Rightarrow> Arguments \<Rightarrow> report prog" where
  "ub_communicate n bench0 args =
     bind_c (sys_ret (Proc Pthread_create)) (\<lambda>r.
       if r \<noteq> 0 then throw ''Error creating sender thread'' else ub_server_communicate n bench0 args)"

definition uintrfd_bi_main :: "nat \<Rightarrow> Benchmarks \<Rightarrow> string list \<Rightarrow> report prog" where
  "uintrfd_bi_main n bench0 argv = ub_communicate n bench0 (parse_arguments argv)"

text \<open>
  The one-way variant: flag \<open>uintr_received\<close> at 0, counter \<open>uintr_count\<close> at 8; the benchmark structure
  is global too, with \<open>single_start\<close> at 16.  What the handler leaves in it is an argument.
\<close>

fun uu_spin :: "nat \<Rightarrow> unit prog" where
  "uu_spin 0 = halt_c Running"
| "uu_spin (Suc n) = bind_c (global_get 0 8) (\<lambda>received. if received = 0 then uu_spin n else return_c ())"

fun uu_client_rounds :: "nat \<Rightarrow> int \<Rightarrow> nat \<Rightarrow> unit prog" where
  "uu_client_rounds n uipi_index 0 = return_c ()"
| "uu_client_rounds n uipi_index (Suc loop) =
     seq_c (global_set 0 8 0)
     (bind_c now (\<lambda>t.
     seq_c (sys_do (Ipc (Shm_store 0 16 (bytes_of_u64 t))))
     (seq_c (sys_do (Proc (Senduipi uipi_index)))
     (seq_c (uu_spin n) (uu_client_rounds n uipi_index loop)))))"

definition uu_client_communicate :: "nat \<Rightarrow> int \<Rightarrow> Arguments \<Rightarrow> unit prog" where
  "uu_client_communicate n descriptor args =
     bind_c (sys_ret (Proc (Uintr_register_sender descriptor))) (\<lambda>uipi_index.
       if uipi_index < 0 then throw (''Sender register error'' @ [CHR 0x0A])
       else uu_client_rounds n uipi_index (nat (sint (a_count args))))"

fun uu_wait_count :: "nat \<Rightarrow> c_int \<Rightarrow> unit prog" where
  "uu_wait_count 0 count = halt_c Running"
| "uu_wait_count (Suc n) count =
     bind_c (global_get 8 4) (\<lambda>uintr_count.
       if (of_int uintr_count :: u32) < count then uu_wait_count n count else return_c ())"

definition uu_server_communicate :: "nat \<Rightarrow> Benchmarks \<Rightarrow> Arguments \<Rightarrow> report prog" where
  "uu_server_communicate n bench args =
     seq_c (uu_wait_count n (a_count args)) (evaluate bench (args\<lparr>a_size := 1\<rparr>))"

definition uu_communicate :: "nat \<Rightarrow> Benchmarks \<Rightarrow> (Benchmarks \<Rightarrow> Benchmarks) \<Rightarrow> int \<Rightarrow> Arguments \<Rightarrow> report prog" where
  "uu_communicate n bench0 handlers descriptor args =
     bind_c (setup_benchmarks bench0) (\<lambda>bench.
     bind_c (sys_ret (Proc Pthread_create)) (\<lambda>r.
       if r \<noteq> 0 then throw ''Error creating sender thread''
       else bind_c (uu_server_communicate n (handlers bench) args) (\<lambda>report.
         seq_c (sys_do (File (Close descriptor))) (return_c report))))"

definition uintrfd_uni_main :: "nat \<Rightarrow> Benchmarks \<Rightarrow> (Benchmarks \<Rightarrow> Benchmarks) \<Rightarrow> string list \<Rightarrow> report prog" where
  "uintrfd_uni_main n bench0 handlers argv =
     bind_c (sys_ret (Proc Uintr_register_handler)) (\<lambda>r.
     if r \<noteq> 0 then throw (''Interrupt handler register error'' @ [CHR 0x0A])
     else bind_c (sys_ret (Proc (Uintr_create_fd 0))) (\<lambda>descriptor.
       if descriptor < 0 then throw (''Interrupt vector allocation error'' @ [CHR 0x0A])
       else seq_c (sys_do (Proc Stui)) (uu_communicate n bench0 handlers descriptor (parse_arguments argv))))"

text \<open>
  Set-up errors of the two-way benchmark.  Once the other side's descriptor is there, both sides
  give up when the handler cannot be registered or the descriptor cannot be created; the client also
  gives up when it cannot be registered as a sender, but the server goes on with whatever index the
  failed registration returned.
\<close>

theorem uintrfd_setup_errors:
  assumes "w_os w = (\<lambda>_. f)"
    and "ret (f (Ipc (Shm_load 0 AT_FD_CLIENT 4))) \<noteq> 0" and "ret (f (Ipc (Shm_load 0 AT_FD_SERVER 4))) \<noteq> 0"
  shows "fst (setup_server (Suc n) w) =
       (if ret (f (Proc Uintr_register_handler)) \<noteq> 0 then Inl (Thrown (''Interrupt handler register error'' @ [CHR 0x0A]))
        else if ret (f (Proc (Uintr_create_fd 0))) < 0 then Inl (Thrown (''Interrupt vector registration error'' @ [CHR 0x0A]))
        else Inr (ret (f (Proc (Uintr_register_sender (ret (f (Ipc (Shm_load 0 AT_FD_CLIENT 4))))))))) \<and>
     fst (setup_client (Suc n) w) =
       (if ret (f (Proc Uintr_register_handler)) \<noteq> 0 then Inl (Thrown (''Interrupt handler register error'' @ [CHR 0x0A]))
        else if ret (f (Proc (Uintr_create_fd 1))) < 0 then Inl (Thrown (''Interrupt vector registration error'' @ [CHR 0x0A]))
        else if ret (f (Proc (Uintr_register_sender (ret (f (Ipc (Shm_load 0 AT_FD_SERVER 4))))))) < 0
        then Inl (Thrown (''Sender register error'' @ [CHR 0x0A]))
        else Inr (ret (f (Proc (Uintr_register_sender (ret (f (Ipc (Shm_load 0 AT_FD_SERVER 4)))))))))"
  using assms
  by (simp_all add: setup_server_def setup_client_def setup_handler_with_vector_def global_get_def global_set_def
      TOKEN_SERVER_def TOKEN_CLIENT_def throw_def prog_defs sys_def Let_def)

text \<open>A failed registration of the server as a sender: it goes on with index \<open>-1\<close>.\<close>

definition sender_refused :: world where
  "sender_refused = \<lparr>w_os = (\<lambda>_ c. case c of Proc (Uintr_register_sender _) \<Rightarrow> fail_reply 22
       | Proc Uintr_register_handler \<Rightarrow> ok_reply 0 | _ \<Rightarrow> ok_reply 5), w_calls = [], w_errno = 0\<rparr>"

theorem uintrfd_setup_errors_witness:
  "fst (setup_server 1 sender_refused) = Inr (-1) \<and>
   fst (setup_client 1 sender_refused) = Inl (Thrown (''Sender register error'' @ [CHR 0x0A]))"
  using uintrfd_setup_errors [of sender_refused "w_os sender_refused []" 0] by (simp add: sender_refused_def)

section \<open>The two-way benchmark\<close>

text \<open>
  Program counters.  Set-up: create the descriptor, wait for the other side's, register as its sender
  and enable interrupts.  Then the loops; the wait is a spin on the flag followed by its reset.
\<close>

datatype ubs_pc = BS_fd | BS_wait_fd | BS_head | BS_notify | BS_wait | BS_reset | BS_bench | BS_done

datatype ubc_pc = BC_fd | BC_wait_fd | BC_wait | BC_reset | BC_notify | BC_done

record ub_state =
  ub_fd_server :: bool
  ub_fd_client :: bool
  ub_posted_server :: bool
  ub_posted_client :: bool
  ub_received_server :: bool
  ub_received_client :: bool
  ub_spc :: ubs_pc
  ub_sleft :: nat
  ub_cpc :: ubc_pc
  ub_cleft :: nat
  ub_bench :: Benchmarks

definition server_enabled :: "ub_state \<Rightarrow> bool" where
  "server_enabled s \<longleftrightarrow> ub_spc s \<notin> {BS_fd, BS_wait_fd}"

definition client_enabled :: "ub_state \<Rightarrow> bool" where
  "client_enabled s \<longleftrightarrow> ub_cpc s \<notin> {BC_fd, BC_wait_fd}"

text \<open>The handler: \<open>uintr_received[vector] = 1\<close>.\<close>

definition handler_server :: "ub_state \<Rightarrow> ub_state" where
  "handler_server s = s\<lparr>ub_posted_server := False, ub_received_server := True\<rparr>"

definition handler_client :: "ub_state \<Rightarrow> ub_state" where
  "handler_client s = s\<lparr>ub_posted_client := False, ub_received_client := True\<rparr>"

text \<open>
  The return from \<open>main\<close>, which ends the process, takes no step away: the client thread, which has by then
  sent its last interrupt, may still leave its loop.
\<close>

inductive ub_step :: "ub_state \<Rightarrow> ub_state \<Rightarrow> bool" where
  ub_s_fd: "ub_spc s = BS_fd \<Longrightarrow> ub_step s (s\<lparr>ub_spc := BS_wait_fd, ub_fd_server := True\<rparr>)"
| ub_s_ready: "ub_spc s = BS_wait_fd \<Longrightarrow> ub_fd_client s \<Longrightarrow> ub_step s (s\<lparr>ub_spc := BS_head\<rparr>)"
| ub_s_end: "ub_spc s = BS_head \<Longrightarrow> ub_sleft s = 0 \<Longrightarrow> ub_step s (s\<lparr>ub_spc := BS_done\<rparr>)"
| ub_s_now: "ub_spc s = BS_head \<Longrightarrow> 0 < ub_sleft s \<Longrightarrow>
     ub_step s (s\<lparr>ub_spc := BS_notify, ub_bench := (ub_bench s)\<lparr>b_single_start := t\<rparr>\<rparr>)"
| ub_s_notify: "ub_spc s = BS_notify \<Longrightarrow> ub_step s (s\<lparr>ub_spc := BS_wait, ub_posted_client := True\<rparr>)"
| ub_s_seen: "ub_spc s = BS_wait \<Longrightarrow> ub_received_server s \<Longrightarrow> ub_step s (s\<lparr>ub_spc := BS_reset\<rparr>)"
| ub_s_reset: "ub_spc s = BS_reset \<Longrightarrow> ub_step s (s\<lparr>ub_spc := BS_bench, ub_received_server := False\<rparr>)"
| ub_s_bench: "ub_spc s = BS_bench \<Longrightarrow>
     ub_step s (s\<lparr>ub_spc := BS_head, ub_sleft := ub_sleft s - 1, ub_bench := benchmark_at (ub_bench s) t\<rparr>)"
| ub_s_handler: "ub_posted_server s \<Longrightarrow> server_enabled s \<Longrightarrow> ub_step s (handler_server s)"
| ub_c_fd: "ub_cpc s = BC_fd \<Longrightarrow> ub_step s (s\<lparr>ub_cpc := BC_wait_fd, ub_fd_client := True\<rparr>)"
| ub_c_ready: "ub_cpc s = BC_wait_fd \<Longrightarrow> ub_fd_server s \<Longrightarrow> ub_step s (s\<lparr>ub_cpc := BC_wait\<rparr>)"
| ub_c_end: "ub_cpc s = BC_wait \<Longrightarrow> ub_cleft s = 0 \<Longrightarrow> ub_step s (s\<lparr>ub_cpc := BC_done\<rparr>)"
| ub_c_seen: "ub_cpc s = BC_wait \<Longrightarrow> 0 < ub_cleft s \<Longrightarrow> ub_received_client s \<Longrightarrow>
     ub_step s (s\<lparr>ub_cpc := BC_reset\<rparr>)"
| ub_c_reset: "ub_cpc s = BC_reset \<Longrightarrow> ub_step s (s\<lparr>ub_cpc := BC_notify, ub_received_client := False\<rparr>)"
| ub_c_notify: "ub_cpc s = BC_notify \<Longrightarrow>
     ub_step s (s\<lparr>ub_cpc := BC_wait, ub_cleft := ub_cleft s - 1, ub_posted_server := True\<rparr>)"
| ub_c_handler: "ub_posted_client s \<Longrightarrow> client_enabled s \<Longrightarrow> ub_step s (handler_client s)"

definition ub_init :: "nat \<Rightarrow> ub_state \<Rightarrow> bool" where
  "ub_init n s \<longleftrightarrow>
     \<not> ub_fd_server s \<and> \<not> ub_fd_client s \<and> \<not> ub_posted_server s \<and> \<not> ub_posted_client s \<and>
     \<not> ub_received_server s \<and> \<not> ub_received_client s \<and>
     ub_spc s = BS_fd \<and> ub_sleft s = n \<and> ub_cpc s = BC_fd \<and> ub_cleft s = n \<and> b_count (ub_bench s) = 0"

text \<open>No interrupt is under way and the client is not working on one.\<close>

definition quiet :: "ub_state \<Rightarrow> bool" where
  "quiet s \<longleftrightarrow> \<not> ub_posted_server s \<and> \<not> ub_posted_client s \<and> \<not> ub_received_server s \<and>
     \<not> ub_received_client s \<and> ub_cpc s \<in> {BC_fd, BC_wait_fd, BC_wait, BC_done}"

text \<open>Exactly one interrupt is under way: on its way to the client, in its hands, or on its way back.\<close>

definition out_there :: "ub_state \<Rightarrow> bool" where
  "out_there s \<longleftrightarrow>
     \<not> ub_posted_server s \<and> \<not> ub_received_server s \<and> ub_cleft s = ub_sleft s \<and>
     (ub_posted_client s \<and> \<not> ub_received_client s \<and> ub_cpc s \<in> {BC_fd, BC_wait_fd, BC_wait} \<or>
      \<not> ub_posted_client s \<and> ub_received_client s \<and> ub_cpc s \<in> {BC_wait, BC_reset} \<or>
      \<not> ub_posted_client s \<and> \<not> ub_received_client s \<and> ub_cpc s = BC_notify)"

definition on_return :: "ub_state \<Rightarrow> bool" where
  "on_return s \<longleftrightarrow>
     \<not> ub_posted_client s \<and> \<not> ub_received_client s \<and> Suc (ub_cleft s) = ub_sleft s \<and>
     ub_cpc s \<in> {BC_wait, BC_done} \<and> (ub_posted_server s \<noteq> ub_received_server s)"

definition ub_inv :: "nat \<Rightarrow> ub_state \<Rightarrow> bool" where
  "ub_inv n s \<longleftrightarrow>
     (ub_fd_server s \<longleftrightarrow> ub_spc s \<noteq> BS_fd) \<and> (ub_fd_client s \<longleftrightarrow> ub_cpc s \<noteq> BC_fd) \<and>
     (ub_cpc s = BC_done \<longrightarrow> ub_cleft s = 0) \<and> (ub_spc s = BS_done \<longrightarrow> ub_sleft s = 0) \<and>
     ub_sleft s \<le> n \<and> b_count (ub_bench s) = of_nat (n - ub_sleft s) \<and>
     (ub_spc s \<in> {BS_fd, BS_wait_fd, BS_head, BS_done} \<longrightarrow> quiet s \<and> ub_cleft s = ub_sleft s) \<and>
     (ub_spc s = BS_notify \<longrightarrow> quiet s \<and> ub_cleft s = ub_sleft s \<and> 0 < ub_sleft s) \<and>
     (ub_spc s = BS_bench \<longrightarrow> quiet s \<and> Suc (ub_cleft s) = ub_sleft s) \<and>
     (ub_spc s = BS_wait \<longrightarrow> 0 < ub_sleft s \<and> (out_there s \<or> on_return s)) \<and>
     (ub_spc s = BS_reset \<longrightarrow> on_return s \<and> ub_received_server s)"

lemmas ub_defs = ub_inv_def quiet_def out_there_def on_return_def handler_server_def handler_client_def
  server_enabled_def client_enabled_def

lemma ub_inv_init: "ub_init n s \<Longrightarrow> ub_inv n s"
  by (simp add: ub_init_def ub_defs)

lemma ub_inv_step: "ub_inv n s \<Longrightarrow> ub_step s t \<Longrightarrow> ub_inv n t"
  by (erule ub_step.cases) (auto simp: ub_defs benchmark_at_def Let_def of_nat_diff)

definition ub_finished :: "ub_state \<Rightarrow> bool" where
  "ub_finished s \<longleftrightarrow> ub_spc s = BS_done \<and> ub_cpc s = BC_done"

fun ubs_work :: "ubs_pc \<Rightarrow> nat" where
  "ubs_work BS_fd = 11" | "ubs_work BS_wait_fd = 10" | "ubs_work BS_head = 9" | "ubs_work BS_notify = 8"
| "ubs_work BS_wait = 4" | "ubs_work BS_reset = 3" | "ubs_work BS_bench = 2" | "ubs_work BS_done = 0"

fun ubc_work :: "ubc_pc \<Rightarrow> nat" where
  "ubc_work BC_fd = 9" | "ubc_work BC_wait_fd = 8" | "ubc_work BC_wait = 7" | "ubc_work BC_reset = 6"
| "ubc_work BC_notify = 5" | "ubc_work BC_done = 0"

definition ub_work :: "ub_state \<Rightarrow> nat" where
  "ub_work s = 10 * ub_sleft s + ubs_work (ub_spc s) + 10 * ub_cleft s + ubc_work (ub_cpc s) +
     (if ub_posted_server s then 2 else 0) + (if ub_posted_client s then 2 else 0) +
     (if ub_received_server s then 1 else 0) + (if ub_received_client s then 1 else 0)"

lemma ub_notifying: "ub_inv n s \<Longrightarrow> ub_cpc s = BC_notify \<Longrightarrow> 0 < ub_cleft s \<and> \<not> ub_posted_server s"
  by (cases "ub_spc s") (auto simp: ub_defs)

lemma ub_benching: "ub_inv n s \<Longrightarrow> ub_spc s = BS_bench \<Longrightarrow> 0 < ub_sleft s"
  by (auto simp: ub_inv_def)

lemma ub_decreases: "ub_inv n s \<Longrightarrow> ub_step s t \<Longrightarrow> ub_work t < ub_work s"
  by (erule ub_step.cases)
    (auto simp: ub_work_def handler_server_def handler_client_def dest: ub_notifying ub_benching)

text \<open>Whatever the client's side has to do next can be done.\<close>

lemma ub_client_moves:
  assumes "ub_inv n s" and "ub_spc s \<noteq> BS_fd"
    and "ub_cpc s \<noteq> BC_wait \<or> ub_posted_client s \<or> ub_received_client s \<or> ub_cleft s = 0"
    and "ub_cpc s \<noteq> BC_done"
  shows "\<exists>t. ub_step s t"
proof (cases "ub_cpc s")
  case BC_wait
  show ?thesis
  proof (cases "ub_cleft s = 0")
    case True
    then show ?thesis using BC_wait ub_c_end by blast
  next
    case False
    then show ?thesis using BC_wait assms(3) ub_c_seen ub_c_handler [of s] by (auto simp: client_enabled_def)
  qed
next
  case BC_wait_fd
  then show ?thesis using assms(1,2) ub_c_ready by (auto simp: ub_inv_def)
qed (use assms in \<open>auto intro: ub_c_fd ub_c_reset ub_c_notify\<close>)

lemma ub_progress:
  assumes "ub_inv n s" and "\<not> ub_finished s"
  shows "\<exists>t. ub_step s t"
proof (cases "ub_spc s")
  case BS_wait_fd
  show ?thesis
  proof (cases "ub_cpc s = BC_fd")
    case True
    then show ?thesis using ub_c_fd by blast
  next
    case False
    then show ?thesis using BS_wait_fd assms(1) ub_s_ready by (auto simp: ub_inv_def)
  qed
next
  case BS_head
  then show ?thesis by (cases "ub_sleft s = 0") (use ub_s_end ub_s_now in blast)+
next
  case BS_wait
  then consider "out_there s" | "ub_received_server s" | "ub_posted_server s"
    using assms(1) by (auto simp: ub_inv_def on_return_def)
  then show ?thesis
  proof cases
    case 1
    then show ?thesis using ub_client_moves [OF assms(1)] BS_wait by (auto simp: out_there_def)
  next
    case 2
    then show ?thesis using BS_wait ub_s_seen by blast
  next
    case 3
    then show ?thesis using BS_wait ub_s_handler [of s] by (auto simp: server_enabled_def)
  qed
next
  case BS_done
  then have "quiet s" and "ub_cleft s = 0" and "ub_cpc s \<noteq> BC_done"
    using assms by (auto simp: ub_inv_def ub_finished_def)
  then show ?thesis using ub_client_moves [OF assms(1)] BS_done by auto
qed (use ub_s_fd ub_s_notify ub_s_reset ub_s_bench in blast)+

interpretation ping_pong: terminating_system "ub_init n" ub_step "ub_inv n" ub_finished ub_work for n
  by unfold_locales (blast intro: ub_inv_init ub_inv_step ub_progress ub_decreases)+

text \<open>
  C15: The two-way user-interrupt benchmark completes.  Whatever the interleaving of the two threads,
  of their set-up and of the interrupt deliveries, no interrupt is lost or doubled and every run of
  \<open>n\<close> messages is finite; where no step is possible any more, both threads have finished and
  the server has measured \<open>n\<close> round trips.
\<close>

theorem uintrfd_bi_completes:
  assumes "ub_init n s" and "run ub_step s ts"
  shows "length ts \<le> 20 * n + 20 \<and>
     (stuck ub_step (last (s # ts)) \<longrightarrow>
        ub_finished (last (s # ts)) \<and> b_count (ub_bench (last (s # ts))) = of_nat n) \<and>
     (\<exists>us. run ub_step s us \<and> ub_finished (last (s # us)))"
proof -
  have inv: "ub_inv n s" using assms(1) by (rule ub_inv_init)
  have "ub_work s = 20 * n + 20" using assms(1) by (simp add: ub_init_def ub_work_def)
  then have "length ts \<le> 20 * n + 20" using ping_pong.run_bound [OF inv assms(2)] by linarith
  moreover have "ub_inv n (last (s # ts))"
    using ping_pong.run_reach [OF reach_init [where init = "ub_init n", OF assms(1)] assms(2)]
      ping_pong.reach_inv by blast
  then have "ub_finished (last (s # ts)) \<longrightarrow> b_count (ub_bench (last (s # ts))) = of_nat n"
    by (simp add: ub_inv_def ub_finished_def)
  ultimately show ?thesis
    using ping_pong.maximal_run_finished [OF inv assms(2)] ping_pong.can_finish [OF inv] by blast
qed

definition sample_ub :: ub_state where
  "sample_ub = \<lparr>ub_fd_server = False, ub_fd_client = False, ub_posted_server = False, ub_posted_client = False,
     ub_received_server = False, ub_received_client = False, ub_spc = BS_fd, ub_sleft = 2, ub_cpc = BC_fd,
     ub_cleft = 2, ub_bench = sample_bench\<rparr>"

theorem uintrfd_bi_completes_witness:
  "\<exists>us. run ub_step sample_ub us \<and> ub_finished (last (sample_ub # us))"
  using uintrfd_bi_completes [of 2 sample_ub "[]"] by (simp add: ub_init_def sample_ub_def sample_bench_def)

section \<open>The one-way benchmark\<close>

text \<open>The sending thread: reset the flag, read the clock, send, spin.  The main thread counts.\<close>

datatype uu_pc = L_head | L_now | L_send | L_spin | L_done

record uu_state =
  uu_count :: u32
  uu_received :: bool
  uu_posted :: bool
  uu_bench :: Benchmarks
  uu_cpc :: uu_pc
  uu_cleft :: nat
  uu_main_done :: bool

text \<open>The handler, which runs on the main thread.\<close>

definition uu_handler :: "u64 \<Rightarrow> uu_state \<Rightarrow> uu_state" where
  "uu_handler t s =
     s\<lparr>uu_bench := benchmark_at (uu_bench s) t, uu_count := uu_count s + 1, uu_received := True, uu_posted := False\<rparr>"

text \<open>
  The main thread leaves its loop when \<open>uintr_count < args->count\<close> fails, an unsigned comparison; the
  process then ends, and the sending thread with it.
\<close>

definition expects_more :: "c_int \<Rightarrow> uu_state \<Rightarrow> bool" where
  "expects_more count s \<longleftrightarrow> uu_count s < count"

inductive uu_step :: "c_int \<Rightarrow> uu_state \<Rightarrow> uu_state \<Rightarrow> bool" for count :: c_int where
  uu_end: "\<not> uu_main_done s \<Longrightarrow> uu_cpc s = L_head \<Longrightarrow> uu_cleft s = 0 \<Longrightarrow> uu_step count s (s\<lparr>uu_cpc := L_done\<rparr>)"
| uu_reset: "\<not> uu_main_done s \<Longrightarrow> uu_cpc s = L_head \<Longrightarrow> 0 < uu_cleft s \<Longrightarrow>
     uu_step count s (s\<lparr>uu_cpc := L_now, uu_received := False\<rparr>)"
| uu_now: "\<not> uu_main_done s \<Longrightarrow> uu_cpc s = L_now \<Longrightarrow>
     uu_step count s (s\<lparr>uu_cpc := L_send, uu_bench := (uu_bench s)\<lparr>b_single_start := t\<rparr>\<rparr>)"
| uu_send: "\<not> uu_main_done s \<Longrightarrow> uu_cpc s = L_send \<Longrightarrow> uu_step count s (s\<lparr>uu_cpc := L_spin, uu_posted := True\<rparr>)"
| uu_seen: "\<not> uu_main_done s \<Longrightarrow> uu_cpc s = L_spin \<Longrightarrow> uu_received s \<Longrightarrow>
     uu_step count s (s\<lparr>uu_cpc := L_head, uu_cleft := uu_cleft s - 1\<rparr>)"
| uu_interrupt: "\<not> uu_main_done s \<Longrightarrow> uu_posted s \<Longrightarrow> uu_step count s (uu_handler t s)"
| uu_leave: "\<not> uu_main_done s \<Longrightarrow> \<not> expects_more count s \<Longrightarrow> uu_step count s (s\<lparr>uu_main_done := True\<rparr>)"

definition uu_init :: "c_int \<Rightarrow> uu_state \<Rightarrow> bool" where
  "uu_init count s \<longleftrightarrow> uu_count s = 0 \<and> \<not> uu_posted s \<and> uu_cpc s = L_head \<and>
     uu_cleft s = nat (sint count) \<and> \<not> uu_main_done s \<and> b_count (uu_bench s) = 0"

text \<open>
  Interrupts handled so far: one per completed round, and one more once the flag is set.  The state is
  well shaped when the flag and the posted interrupt agree with where the sender is.
\<close>

definition handled :: "nat \<Rightarrow> uu_state \<Rightarrow> nat" where
  "handled n s = n - uu_cleft s + (if uu_cpc s = L_spin \<and> uu_received s then 1 else 0)"

definition uu_shape :: "nat \<Rightarrow> uu_state \<Rightarrow> bool" where
  "uu_shape n s \<longleftrightarrow> uu_cleft s \<le> n \<and>
     (uu_cpc s \<in> {L_now, L_send, L_spin} \<longrightarrow> 0 < uu_cleft s) \<and> (uu_cpc s = L_done \<longrightarrow> uu_cleft s = 0) \<and>
     (uu_cpc s \<in> {L_now, L_send} \<longrightarrow> \<not> uu_received s) \<and>
     (uu_posted s \<longleftrightarrow> uu_cpc s = L_spin \<and> \<not> uu_received s)"

definition uu_inv :: "c_int \<Rightarrow> uu_state \<Rightarrow> bool" where
  "uu_inv count s \<longleftrightarrow> uu_shape (nat (sint count)) s \<and>
     uu_count s = of_nat (handled (nat (sint count)) s) \<and> b_count (uu_bench s) = uu_count s \<and>
     (uu_main_done s \<longrightarrow> \<not> expects_more count s)"

lemma uu_inv_init: "uu_init count s \<Longrightarrow> uu_inv count s"
  by (auto simp: uu_init_def uu_inv_def uu_shape_def handled_def)

lemma uu_shape_step: "uu_shape n s \<Longrightarrow> uu_step count s t \<Longrightarrow> uu_shape n t"
  by (erule uu_step.cases) (auto simp: uu_shape_def uu_handler_def)

text \<open>The counter, the benchmark's counter and the interrupts handled move together.\<close>

lemma uu_counting:
  assumes "uu_shape n s" and "uu_step count s t"
  shows "\<exists>k. handled n t = handled n s + k \<and> uu_count t = uu_count s + of_nat k \<and>
     b_count (uu_bench t) = b_count (uu_bench s) + of_nat k"
  using assms(2)
proof cases
  case (uu_interrupt t')
  then show ?thesis
    using assms(1) by (intro exI [of _ 1]) (auto simp: handled_def uu_shape_def uu_handler_def benchmark_at_def Let_def)
qed (use assms(1) in \<open>auto intro!: exI [of _ 0] simp: handled_def uu_shape_def\<close>)

lemma uu_leaves: "uu_step count s t \<Longrightarrow> uu_main_done t \<Longrightarrow> \<not> expects_more count t"
  by (erule uu_step.cases) (auto simp: uu_handler_def expects_more_def)

lemma uu_inv_step:
  assumes "uu_inv count s" and "uu_step count s t"
  shows "uu_inv count t"
proof -
  have shape: "uu_shape (nat (sint count)) s" using assms(1) by (simp add: uu_inv_def)
  show ?thesis
    using uu_counting [OF shape assms(2)] uu_shape_step [OF shape assms(2)] uu_leaves [OF assms(2)] assms(1)
    by (auto simp: uu_inv_def)
qed

lemma handled_done: "uu_shape n s \<Longrightarrow> uu_cpc s = L_done \<Longrightarrow> handled n s = n"
  by (simp add: uu_shape_def handled_def)

lemma handled_le: "uu_shape n s \<Longrightarrow> handled n s \<le> n"
  by (auto simp: uu_shape_def handled_def)

lemma uu_progress:
  assumes "uu_shape n s" and "\<not> uu_main_done s" and "uu_cpc s \<noteq> L_done"
  shows "\<exists>t. uu_step count s t"
proof (cases "uu_cpc s")
  case L_head
  then show ?thesis using assms(2) uu_end uu_reset by (cases "uu_cleft s = 0") blast+
next
  case L_spin
  then have "uu_received s \<or> uu_posted s" using assms(1) by (auto simp: uu_shape_def)
  then show ?thesis using L_spin assms(2) uu_seen uu_interrupt by blast
qed (use assms(2,3) uu_now uu_send in blast)+

text \<open>Every step uses up work: the rest of the rounds, the pending interrupt, the main thread's exit.\<close>

fun uu_pc_work :: "uu_pc \<Rightarrow> nat" where
  "uu_pc_work L_head = 5" | "uu_pc_work L_now = 4" | "uu_pc_work L_send = 3" | "uu_pc_work L_spin = 1"
| "uu_pc_work L_done = 0"

definition uu_work :: "uu_state \<Rightarrow> nat" where
  "uu_work s = 6 * uu_cleft s + uu_pc_work (uu_cpc s) + (if uu_posted s then 1 else 0) + (if uu_main_done s then 0 else 1)"

lemma uu_decreases: "uu_shape n s \<Longrightarrow> uu_step count s t \<Longrightarrow> uu_work t < uu_work s"
  by (erule uu_step.cases) (auto simp: uu_work_def uu_shape_def uu_handler_def)

definition uu_stopped :: "c_int \<Rightarrow> uu_state \<Rightarrow> bool" where
  "uu_stopped count s \<longleftrightarrow> uu_main_done s \<or> uu_cpc s = L_done \<and> expects_more count s"

lemma uu_moves: "uu_inv count s \<Longrightarrow> \<not> uu_stopped count s \<Longrightarrow> \<exists>t. uu_step count s t"
  using uu_progress uu_leave by (metis uu_inv_def uu_stopped_def)

lemma uu_inv_decreases: "uu_inv count s \<Longrightarrow> uu_step count s t \<Longrightarrow> uu_work t < uu_work s"
  using uu_decreases by (auto simp: uu_inv_def)

interpretation ping_count: terminating_system "uu_init count" "uu_step count" "uu_inv count" "uu_stopped count" uu_work for count
  by unfold_locales (blast intro: uu_inv_init uu_inv_step uu_moves uu_inv_decreases)+

lemma nonneg_count:
  assumes "0 \<le> sint (count :: c_int)"
  shows "unat count = nat (sint count)" and "of_nat (nat (sint count)) = count"
proof -
  show eq: "of_nat (nat (sint count)) = count" using assms by simp
  have "nat (sint count) < 2 ^ 32" using sint_lt [of count] by (simp add: nat_less_iff)
  then show "unat count = nat (sint count)" using unat_of_nat_u32 eq by metis
qed

lemma uu_count_le:
  assumes "uu_inv count s" and "0 \<le> sint count"
  shows "unat (uu_count s) = handled (nat (sint count)) s \<and> uu_count s \<le> count"
proof -
  have "handled (nat (sint count)) s \<le> nat (sint count)" using assms(1) handled_le by (auto simp: uu_inv_def)
  moreover have "unat count < 2 ^ 32" by (rule unat_u32_less)
  ultimately have "unat (uu_count s) = handled (nat (sint count)) s"
    using assms nonneg_count [OF assms(2)] by (simp add: uu_inv_def unat_of_nat_u32)
  then show ?thesis
    using \<open>handled (nat (sint count)) s \<le> nat (sint count)\<close> nonneg_count [OF assms(2)] by (simp add: word_le_nat_alt)
qed

lemma uu_negative:
  assumes "uu_inv count s" and "sint count < 0"
  shows "expects_more count s"
proof -
  have "uu_count s = 0" using assms handled_le [of 0 s] by (simp add: uu_inv_def)
  moreover have "count \<noteq> 0" using assms(2) by auto
  ultimately show ?thesis by (simp add: expects_more_def word_gt_0)
qed

text \<open>
  C16: The one-way user-interrupt benchmark.  Every run is finite.  With a count that is not negative,
  the main thread can always get to the end: where no step is left it has left its loop, having counted
  and measured exactly \<open>count\<close> interrupts.  With a negative count the comparison
  \<open>uintr_count < args->count\<close> is unsigned: the sender sends nothing and the main thread spins forever.
\<close>

theorem uintrfd_uni_outcome:
  assumes "uu_init count s" and "run (uu_step count) s ts" and "stuck (uu_step count) (last (s # ts))"
  shows "length ts \<le> 6 * nat (sint count) + 6 \<and>
     (if 0 \<le> sint count
      then uu_main_done (last (s # ts)) \<and> uu_count (last (s # ts)) = count \<and> b_count (uu_bench (last (s # ts))) = count
      else \<not> uu_main_done (last (s # ts)) \<and> uu_cpc (last (s # ts)) = L_done \<and> uu_count (last (s # ts)) = 0)"
proof -
  let ?e = "last (s # ts)"
  have start: "uu_inv count s" using assms(1) by (rule uu_inv_init)
  have inv: "uu_inv count ?e"
    using ping_count.run_reach [OF reach_init [where init = "uu_init count", OF assms(1)] assms(2)]
      ping_count.reach_inv by blast
  have stopped: "uu_stopped count ?e" using ping_count.maximal_run_finished [OF start assms(2,3)] .
  have "uu_work s = 6 * nat (sint count) + 6" using assms(1) by (simp add: uu_init_def uu_work_def)
  then have bound: "length ts \<le> 6 * nat (sint count) + 6"
    using ping_count.run_bound [OF start assms(2)] by linarith
  show ?thesis
  proof (cases "0 \<le> sint count")
    case True
    have "uu_cpc ?e = L_done \<longrightarrow> uu_count ?e = count"
      using inv handled_done nonneg_count [OF True] by (auto simp: uu_inv_def)
    then have "uu_main_done ?e" using stopped by (auto simp: uu_stopped_def expects_more_def)
    then have "uu_count ?e = count"
      using inv uu_count_le [OF inv True] by (auto simp: uu_inv_def expects_more_def)
    then show ?thesis using True bound inv \<open>uu_main_done ?e\<close> by (simp add: uu_inv_def)
  next
    case False
    then have "expects_more count ?e" using uu_negative [OF inv] by simp
    then have "\<not> uu_main_done ?e" using inv by (simp add: uu_inv_def)
    moreover have "uu_count ?e = 0" using inv False handled_le [of 0 ?e] by (simp add: uu_inv_def)
    ultimately show ?thesis using False bound stopped by (simp add: uu_stopped_def)
  qed
qed

text \<open>A complete run with one interrupt: the flag is reset, the clock read, the interrupt sent and handled.\<close>

definition sample_uu :: uu_state where
  "sample_uu = \<lparr>uu_count = 0, uu_received = False, uu_posted = False, uu_bench = sample_bench,
     uu_cpc = L_head, uu_cleft = 1, uu_main_done = False\<rparr>"

theorem uintrfd_uni_outcome_witness:
  "\<exists>ts. run (uu_step 1) sample_uu ts \<and> uu_main_done (last (sample_uu # ts)) \<and> uu_count (last (sample_uu # ts)) = 1"
proof -
  have init: "uu_init 1 sample_uu" by (simp add: uu_init_def sample_uu_def sample_bench_def)
  obtain ts where ts: "run (uu_step 1) sample_uu ts" "stuck (uu_step 1) (last (sample_uu # ts))"
    using ping_count.maximal_run [OF uu_inv_init [OF init]] by blast
  have "0 \<le> sint (1 :: c_int)" by simp
  then have "uu_main_done (last (sample_uu # ts)) \<and> uu_count (last (sample_uu # ts)) = 1"
    using uintrfd_uni_outcome [OF init ts] by (simp only: if_True)
  with ts(1) show ?thesis by blast
qed

end
