(* ===== verification/Guard_Handshake.thy ===== *)
theory Guard_Handshake
  imports Stream_Sockets
begin

text \<open>
  The shared-memory benchmarks \<^verbatim>\<open>source/shm\<close> and \<^verbatim>\<open>source/mmap\<close>: a guard byte at the start of the
  segment says whose turn it is (\<open>s\<close>erver or \<open>c\<close>lient), the eight bytes behind it carry the timestamp.
  First the programs, each over its own system calls and shared-memory accesses; then the two
  processes side by side, as a step relation in which the copies go byte by byte and may be
  interleaved in any way the guard permits.
\<close>

section \<open>The programs\<close>

text \<open>
  Accesses through the pointer \<open>shmat\<close> or \<open>mmap\<close> returned; -1 is their error value.  A copy accesses
  byte after byte, and the other process may intervene between any two accesses.
\<close>

abbreviation loaded :: "reply \<Rightarrow> u8" where
  "loaded r \<equiv> hd (dat r @ [0])"

fun load_bytes :: "int \<Rightarrow> nat \<Rightarrow> nat \<Rightarrow> u8 list prog" where
  "load_bytes seg off 0 = return_c []"
| "load_bytes seg off (Suc k) =
     bind_c (sys (Ipc (Shm_load seg off 1))) (\<lambda>r.
     bind_c (load_bytes seg (Suc off) k) (\<lambda>bs. return_c (loaded r # bs)))"

fun store_bytes :: "int \<Rightarrow> nat \<Rightarrow> u8 list \<Rightarrow> unit prog" where
  "store_bytes seg off [] = return_c ()"
| "store_bytes seg off (b # bs) = seq_c (sys_do (Ipc (Shm_store seg off [b]))) (store_bytes seg (Suc off) bs)"

definition shared_load :: "int \<Rightarrow> nat \<Rightarrow> nat \<Rightarrow> u8 list prog" where
  "shared_load seg off k =
     (if seg = -1 then halt_c (Undefined ''access through an invalid pointer'') else load_bytes seg off k)"

definition shared_store :: "int \<Rightarrow> nat \<Rightarrow> u8 list \<Rightarrow> unit prog" where
  "shared_store seg off bs =
     (if seg = -1 then halt_c (Undefined ''access through an invalid pointer'') else store_bytes seg off bs)"

definition turn_server :: u8 where "turn_server = 0x73"
definition turn_client :: u8 where "turn_client = 0x63"

fun spin_until :: "nat \<Rightarrow> int \<Rightarrow> u8 \<Rightarrow> unit prog" where
  "spin_until 0 seg b = halt_c Running"
| "spin_until (Suc n) seg b =
     bind_c (shared_load seg 0 1) (\<lambda>bs. if bs \<noteq> [b] then spin_until n seg b else return_c ())"

subsection \<open>shm\<close>

definition shm_server_cleanup :: "int \<Rightarrow> int \<Rightarrow> unit prog" where
  "shm_server_cleanup segment_id shared_memory =
     seq_c (sys_do (Ipc (Shmdt shared_memory))) (sys_do (Ipc (Shmctl_rmid segment_id)))"

definition shm_server_wait :: "nat \<Rightarrow> int \<Rightarrow> unit prog" where
  "shm_server_wait n guard = spin_until n guard turn_server"

definition shm_server_notify :: "int \<Rightarrow> unit prog" where
  "shm_server_notify guard = shared_store guard 0 [turn_client]"

definition shm_server_round :: "nat \<Rightarrow> int \<Rightarrow> unit \<Rightarrow> unit prog" where
  "shm_server_round n shared_memory _ =
     seq_c (shm_server_wait n shared_memory)
     (bind_c now (\<lambda>timestamp.
     seq_c (shared_store shared_memory 1 (bytes_of_u64 timestamp))
     (shm_server_notify shared_memory)))"

definition shm_server_communicate :: "nat \<Rightarrow> int \<Rightarrow> unit prog" where
  "shm_server_communicate n shared_memory = forever_c n (shm_server_round n shared_memory) ()"

definition shm_server_main :: "nat \<Rightarrow> string list \<Rightarrow> int prog" where
  "shm_server_main n argv =
     (let args = parse_arguments argv in
      bind_c (generate_key ''shm'') (\<lambda>segment_key.
      bind_c (sys_ret (Ipc (Shmget segment_key (1 + sint (a_size args)) True))) (\<lambda>segment_id.
      if segment_id < 0 then throw ''Error allocating segment'' else
      bind_c (sys_ret (Ipc (Shmat segment_id))) (\<lambda>shared_memory.
      if shared_memory = -1 then throw ''Error attaching segment'' else
      seq_c (shm_server_communicate n shared_memory)
      (seq_c (shm_server_cleanup segment_id shared_memory) (return_c 0))))))"

definition shm_client_cleanup :: "int \<Rightarrow> unit prog" where
  "shm_client_cleanup shared_memory = sys_do (Ipc (Shmdt shared_memory))"

definition shm_client_wait :: "nat \<Rightarrow> int \<Rightarrow> unit prog" where
  "shm_client_wait n guard = spin_until n guard turn_client"

definition shm_client_notify :: "int \<Rightarrow> unit prog" where
  "shm_client_notify guard = shared_store guard 0 [turn_server]"

definition shm_client_msg_wait :: "nat \<Rightarrow> int \<Rightarrow> Benchmarks \<Rightarrow> Benchmarks prog" where
  "shm_client_msg_wait n shared_memory bench =
     seq_c (shm_client_wait n shared_memory)
     (bind_c (shared_load shared_memory 1 8) (\<lambda>bs.
      benchmark (bench\<lparr>b_single_start := u64_of_bytes bs\<rparr>)))"

definition shm_client_round :: "nat \<Rightarrow> int \<Rightarrow> Benchmarks \<Rightarrow> Benchmarks prog" where
  "shm_client_round n shared_memory bench = seq_c (shm_client_notify shared_memory) (shm_client_msg_wait n shared_memory bench)"

text \<open>\<open>shared_memory < (char* )0\<close> is false for every pointer, so a failed \<open>shmat\<close> goes unnoticed.\<close>

definition shm_client_main :: "nat \<Rightarrow> Benchmarks \<Rightarrow> string list \<Rightarrow> report prog" where
  "shm_client_main n bench0 argv =
     (let args = parse_arguments argv in
      bind_c (generate_key ''shm'') (\<lambda>segment_key.
      bind_c (sys_ret (Ipc (Shmget segment_key (1 + sint (a_size args)) True))) (\<lambda>segment_id.
      if segment_id < 0 then throw ''Could not get segment'' else
      bind_c (sys_ret (Ipc (Shmat segment_id))) (\<lambda>shared_memory.
      bind_c (setup_benchmarks bench0) (\<lambda>bench.
      bind_c (timed_run n (shm_client_round n shared_memory) bench) (\<lambda>(bench, cnt).
      seq_c (print_count cnt [])
      (bind_c (evaluate bench args) (\<lambda>report.
      seq_c (shm_client_cleanup shared_memory) (return_c report)))))))))"

subsection \<open>mmap\<close>

definition make_space :: "int \<Rightarrow> int \<Rightarrow> unit prog" where
  "make_space file_descriptor bytes =
     seq_c (sys_do (File (Lseek file_descriptor (bytes + 1))))
     (bind_c (sys_ret (File (Write file_descriptor [0]))) (\<lambda>r.
      if r < 1 then throw ''Error writing a single goddman byte to file. A single byte!!!!!''
      else sys_do (File (Lseek file_descriptor 0))))"

definition mmap_server_get_file_descriptor :: "int \<Rightarrow> int prog" where
  "mmap_server_get_file_descriptor bytes =
     bind_c (sys_ret (File (Open_file ''/tmp/mmap''))) (\<lambda>file_descriptor.
       if file_descriptor < 0 then throw (''Error opening file!'' @ [CHR 0x0A])
       else seq_c (make_space file_descriptor bytes) (return_c file_descriptor))"

definition mmap_server_wait :: "nat \<Rightarrow> int \<Rightarrow> unit prog" where
  "mmap_server_wait n guard = spin_until n guard turn_server"

definition mmap_server_notify :: "int \<Rightarrow> unit prog" where
  "mmap_server_notify guard = shared_store guard 0 [turn_client]"

definition mmap_server_round :: "nat \<Rightarrow> int \<Rightarrow> unit \<Rightarrow> unit prog" where
  "mmap_server_round n file_memory _ =
     seq_c (mmap_server_wait n file_memory)
     (bind_c now (\<lambda>timestamp.
     seq_c (shared_store file_memory 1 (bytes_of_u64 timestamp))
     (mmap_server_notify file_memory)))"

definition mmap_server_communicate :: "nat \<Rightarrow> int \<Rightarrow> unit prog" where
  "mmap_server_communicate n file_memory = forever_c n (mmap_server_round n file_memory) ()"

text \<open>\<open>file_memory < 0\<close> is false for every pointer, so a failed \<open>mmap\<close> goes unnoticed.\<close>

definition mmap_server_main :: "nat \<Rightarrow> string list \<Rightarrow> int prog" where
  "mmap_server_main n argv =
     (let args = parse_arguments argv in
      bind_c (mmap_server_get_file_descriptor (sint (a_size args))) (\<lambda>file_descriptor.
      bind_c (sys_ret (Ipc (Mmap (1 + sint (a_size args)) file_descriptor))) (\<lambda>file_memory.
      bind_c (sys_ret (File (Close file_descriptor))) (\<lambda>r.
      if r < 0 then throw ''Error closing file!'' else
      seq_c (mmap_server_communicate n file_memory)
      (bind_c (sys_ret (Ipc (Munmap file_memory (sint (a_size args))))) (\<lambda>r.
      if r < 0 then throw ''Error unmapping file!'' else
      seq_c (sys_do (File (Close file_descriptor))) (return_c 0)))))))"

definition mmap_client_get_file_descriptor :: "int prog" where
  "mmap_client_get_file_descriptor =
     bind_c (sys_ret (File (Open_file ''/tmp/mmap''))) (\<lambda>file_descriptor.
       if file_descriptor < 0 then throw (''Error 1opening file!'' @ [CHR 0x0A])
       else return_c file_descriptor)"

definition mmap_client_wait :: "nat \<Rightarrow> int \<Rightarrow> unit prog" where
  "mmap_client_wait n guard = spin_until n guard turn_client"

definition mmap_client_notify :: "int \<Rightarrow> unit prog" where
  "mmap_client_notify guard = shared_store guard 0 [turn_server]"

definition mmap_client_msg_wait :: "nat \<Rightarrow> int \<Rightarrow> Benchmarks \<Rightarrow> Benchmarks prog" where
  "mmap_client_msg_wait n file_memory bench =
     seq_c (mmap_client_wait n file_memory)
     (bind_c (shared_load file_memory 1 8) (\<lambda>bs.
      benchmark (bench\<lparr>b_single_start := u64_of_bytes bs\<rparr>)))"

definition mmap_client_round :: "nat \<Rightarrow> int \<Rightarrow> Benchmarks \<Rightarrow> Benchmarks prog" where
  "mmap_client_round n file_memory bench = seq_c (mmap_client_notify file_memory) (mmap_client_msg_wait n file_memory bench)"

definition mmap_client_main :: "nat \<Rightarrow> Benchmarks \<Rightarrow> string list \<Rightarrow> report prog" where
  "mmap_client_main n bench0 argv =
     (let args = parse_arguments argv in
      bind_c mmap_client_get_file_descriptor (\<lambda>file_descriptor.
      bind_c (sys_ret (Ipc (Mmap (sint (a_size args) + 1) file_descriptor))) (\<lambda>file_memory.
      bind_c (sys_ret (File (Close file_descriptor))) (\<lambda>r.
      if r < 0 then throw ''Error closing file!'' else
      bind_c (setup_benchmarks bench0) (\<lambda>bench.
      bind_c (timed_run n (mmap_client_round n file_memory) bench) (\<lambda>(bench, cnt).
      seq_c (print_count cnt [])
      (bind_c (evaluate bench args) (\<lambda>report.
      bind_c (sys_ret (Ipc (Munmap file_memory (sint (a_size args))))) (\<lambda>r.
      if r < 0 then throw ''Error unmapping file!'' else
      seq_c (sys_do (File (Remove ''/tmp/mmap'')))
      (seq_c (sys_do (File (Close file_descriptor))) (return_c report)))))))))))"

section \<open>The two processes\<close>

text \<open>
  Program counters.  The server waits for its turn, reads the clock, copies the timestamp into the
  segment byte by byte and passes the turn.  The client checks the time, passes the turn, waits,
  copies the bytes out and measures.
\<close>

datatype server_pc = S_wait | S_now | S_copy nat

datatype client_pc = C_check | C_notify | C_wait | C_copy nat | C_measure | C_done

text \<open>
  \<open>g_left\<close> is the number of checks of the clock that will still find time left.  \<open>g_sent\<close> and
  \<open>g_got\<close> record the timestamps the server passed on and the client measured.
\<close>

record handshake =
  g_guard :: u8
  g_data :: "u8 list"
  g_spc :: server_pc
  g_stamp :: u64
  g_cpc :: client_pc
  g_buf :: "u8 list"
  g_bench :: Benchmarks
  g_left :: nat
  g_sent :: "u64 list"
  g_got :: "u64 list"

inductive handshake_step :: "handshake \<Rightarrow> handshake \<Rightarrow> bool" where
  s_turn: "g_spc s = S_wait \<Longrightarrow> g_guard s = turn_server \<Longrightarrow> handshake_step s (s\<lparr>g_spc := S_now\<rparr>)"
| s_now: "g_spc s = S_now \<Longrightarrow> handshake_step s (s\<lparr>g_spc := S_copy 0, g_stamp := t\<rparr>)"
| s_copy: "g_spc s = S_copy i \<Longrightarrow> i < 8 \<Longrightarrow>
     handshake_step s (s\<lparr>g_spc := S_copy (Suc i), g_data := (g_data s)[i := bytes_of_u64 (g_stamp s) ! i]\<rparr>)"
| s_notify: "g_spc s = S_copy 8 \<Longrightarrow>
     handshake_step s (s\<lparr>g_spc := S_wait, g_guard := turn_client, g_sent := g_sent s @ [g_stamp s]\<rparr>)"
| c_stop: "g_cpc s = C_check \<Longrightarrow> g_left s = 0 \<Longrightarrow> handshake_step s (s\<lparr>g_cpc := C_done\<rparr>)"
| c_go: "g_cpc s = C_check \<Longrightarrow> g_left s = Suc k \<Longrightarrow> handshake_step s (s\<lparr>g_cpc := C_notify, g_left := k\<rparr>)"
| c_notify: "g_cpc s = C_notify \<Longrightarrow> handshake_step s (s\<lparr>g_cpc := C_wait, g_guard := turn_server\<rparr>)"
| c_turn: "g_cpc s = C_wait \<Longrightarrow> g_guard s = turn_client \<Longrightarrow> handshake_step s (s\<lparr>g_cpc := C_copy 0\<rparr>)"
| c_copy: "g_cpc s = C_copy i \<Longrightarrow> i < 8 \<Longrightarrow>
     handshake_step s (s\<lparr>g_cpc := C_copy (Suc i), g_buf := (g_buf s)[i := g_data s ! i]\<rparr>)"
| c_read: "g_cpc s = C_copy 8 \<Longrightarrow>
     handshake_step s (s\<lparr>g_cpc := C_measure, g_bench := (g_bench s)\<lparr>b_single_start := u64_of_bytes (g_buf s)\<rparr>\<rparr>)"
| c_measure: "g_cpc s = C_measure \<Longrightarrow>
     handshake_step s (s\<lparr>g_cpc := C_check, g_bench := benchmark_at (g_bench s) t,
                        g_got := g_got s @ [b_single_start (g_bench s)]\<rparr>)"

text \<open>The segment may hold anything at the start, including a guard left over from an earlier run.\<close>

definition handshake_init :: "nat \<Rightarrow> handshake \<Rightarrow> bool" where
  "handshake_init n s \<longleftrightarrow>
     length (g_data s) = 8 \<and> length (g_buf s) = 8 \<and> g_spc s = S_wait \<and> g_cpc s = C_check \<and>
     g_left s = n \<and> g_sent s = [] \<and> g_got s = []"

section \<open>The invariant\<close>

text \<open>All timestamps passed on, except perhaps a first one nobody asked for, were measured, in order.\<close>

definition delivered :: "u64 list \<Rightarrow> u64 list \<Rightarrow> bool" where
  "delivered sent got \<longleftrightarrow> (\<exists>pre. sent = pre @ got \<and> length pre \<le> 1)"

definition idle :: "handshake \<Rightarrow> bool" where
  "idle s \<longleftrightarrow> delivered (g_sent s) (g_got s) \<and> (g_sent s \<noteq> [] \<longrightarrow> g_guard s = turn_client)"

definition answered :: "handshake \<Rightarrow> bool" where
  "answered s \<longleftrightarrow> g_guard s = turn_client \<and> g_sent s \<noteq> [] \<and> delivered (butlast (g_sent s)) (g_got s) \<and>
     g_data s = bytes_of_u64 (last (g_sent s))"

definition client_inv :: "nat \<Rightarrow> handshake \<Rightarrow> bool" where
  "client_inv n s =
     (case g_cpc s of
        C_check \<Rightarrow> idle s \<and> length (g_got s) + g_left s = n
      | C_notify \<Rightarrow> idle s \<and> Suc (length (g_got s) + g_left s) = n
      | C_wait \<Rightarrow> Suc (length (g_got s) + g_left s) = n \<and>
          (g_guard s = turn_server \<and> delivered (g_sent s) (g_got s) \<or> answered s)
      | C_copy i \<Rightarrow> Suc (length (g_got s) + g_left s) = n \<and> answered s \<and>
          i \<le> 8 \<and> take i (g_buf s) = take i (g_data s)
      | C_measure \<Rightarrow> Suc (length (g_got s) + g_left s) = n \<and> answered s \<and>
          b_single_start (g_bench s) = last (g_sent s)
      | C_done \<Rightarrow> idle s \<and> g_left s = 0 \<and> length (g_got s) = n)"

definition server_inv :: "handshake \<Rightarrow> bool" where
  "server_inv s \<longleftrightarrow> length (g_data s) = 8 \<and> length (g_buf s) = 8 \<and>
     (g_spc s \<noteq> S_wait \<longrightarrow> g_guard s = turn_server) \<and>
     (\<forall>i. g_spc s = S_copy i \<longrightarrow> i \<le> 8 \<and> take i (g_data s) = take i (bytes_of_u64 (g_stamp s)))"

definition handshake_inv :: "nat \<Rightarrow> handshake \<Rightarrow> bool" where
  "handshake_inv n s \<longleftrightarrow> server_inv s \<and> client_inv n s"

lemmas handshake_defs = handshake_inv_def server_inv_def client_inv_def idle_def answered_def

lemma turns_differ [simp]: "turn_server \<noteq> turn_client" "turn_client \<noteq> turn_server"
  by (simp_all add: turn_server_def turn_client_def)

lemma delivered_Nil [simp]: "delivered [] got \<longleftrightarrow> got = []"
  by (simp add: delivered_def)

lemma delivered_first [simp]: "delivered [x] []"
  by (simp add: delivered_def)

lemma delivered_last:
  "delivered (butlast sent) got \<Longrightarrow> sent \<noteq> [] \<Longrightarrow> delivered sent (got @ [last sent])"
  unfolding delivered_def by (metis append_assoc append_butlast_last_id)

lemma take_copied:
  "i < length xs \<Longrightarrow> length ys = length xs \<Longrightarrow> take i xs = take i ys \<Longrightarrow>
     take (Suc i) (xs[i := ys ! i]) = take (Suc i) ys"
  by (simp add: take_Suc_conv_app_nth)

lemma handshake_inv_init: "handshake_init n s \<Longrightarrow> handshake_inv n s"
  by (simp add: handshake_init_def handshake_defs)

lemma handshake_inv_step:
  assumes "handshake_step s t" and "handshake_inv n s"
  shows "handshake_inv n t"
  using assms
proof cases
  case s_turn
  then show ?thesis using assms(2) by (auto simp: handshake_defs split: client_pc.splits)
next
  case (s_now t)
  then show ?thesis using assms(2) by (auto simp: handshake_defs split: client_pc.splits)
next
  case (s_copy i)
  then show ?thesis using assms(2)
    by (auto simp: handshake_defs take_copied split: client_pc.splits)
next
  case s_notify
  then have "g_data s = bytes_of_u64 (g_stamp s)" and "g_guard s = turn_server"
    using assms(2) by (auto simp: handshake_defs)
  then show ?thesis using s_notify assms(2)
    by (auto simp: handshake_defs split: client_pc.splits)
next
  case c_stop
  then show ?thesis using assms(2) by (auto simp: handshake_defs)
next
  case (c_go k)
  then show ?thesis using assms(2) by (auto simp: handshake_defs)
next
  case c_notify
  then show ?thesis using assms(2) by (auto simp: handshake_defs)
next
  case c_turn
  then show ?thesis using assms(2) by (auto simp: handshake_defs)
next
  case (c_copy i)
  then show ?thesis using assms(2) by (auto simp: handshake_defs take_copied)
next
  case c_read
  then have "g_buf s = g_data s" using assms(2) by (auto simp: handshake_defs)
  then show ?thesis using c_read assms(2) by (auto simp: handshake_defs)
next
  case (c_measure t)
  then show ?thesis using assms(2) by (auto simp: handshake_defs intro: delivered_last)
qed

text \<open>The state in which everything has been done: the client has left, the server waits forever.\<close>

definition handshake_over :: "handshake \<Rightarrow> bool" where
  "handshake_over s \<longleftrightarrow> g_cpc s = C_done \<and> g_spc s = S_wait \<and> g_guard s \<noteq> turn_server"

fun server_work :: "server_pc \<Rightarrow> u8 \<Rightarrow> nat" where
  "server_work S_wait g = (if g = turn_server then 12 else 0)"
| "server_work S_now g = 11"
| "server_work (S_copy i) g = 10 - i"

fun client_work :: "client_pc \<Rightarrow> nat" where
  "client_work C_check = 1"
| "client_work C_notify = 25"
| "client_work C_wait = 12"
| "client_work (C_copy i) = 11 - i"
| "client_work C_measure = 2"
| "client_work C_done = 0"

definition handshake_work :: "handshake \<Rightarrow> nat" where
  "handshake_work s = 30 * g_left s + client_work (g_cpc s) + server_work (g_spc s) (g_guard s)"

lemma handshake_progress:
  assumes "handshake_inv n s" and "\<not> handshake_over s"
  shows "\<exists>t. handshake_step s t"
proof (cases "g_spc s")
  case S_now
  then show ?thesis by (blast intro: s_now)
next
  case (S_copy i)
  then have "i < 8 \<or> i = 8" using assms(1) by (auto simp: handshake_defs)
  with S_copy show ?thesis by (auto intro: s_copy s_notify)
next
  case S_wait
  show ?thesis
  proof (cases "g_guard s = turn_server")
    case True
    with S_wait show ?thesis by (blast intro: s_turn)
  next
    case False
    show ?thesis
    proof (cases "g_cpc s")
      case C_check
      then show ?thesis by (cases "g_left s") (auto intro: c_stop c_go)
    next
      case C_wait
      then have "g_guard s = turn_client" using assms(1) False by (auto simp: handshake_defs)
      with C_wait show ?thesis by (blast intro: c_turn)
    next
      case (C_copy i)
      then have "i < 8 \<or> i = 8" using assms(1) by (auto simp: handshake_defs)
      with C_copy show ?thesis by (auto intro: c_copy c_read)
    next
      case C_done
      then show ?thesis using assms(2) S_wait False by (simp add: handshake_over_def)
    qed (blast intro: c_notify c_measure)+
  qed
qed

lemma handshake_decreases:
  assumes "handshake_inv n s" and "handshake_step s t"
  shows "handshake_work t < handshake_work s"
  using assms(2)
proof cases
  case c_notify
  then show ?thesis using assms(1)
    by (cases "g_spc s") (auto simp: handshake_work_def handshake_defs)
qed (use assms(1) in \<open>auto simp: handshake_work_def handshake_defs\<close>)

interpretation shared_turns: terminating_system
  "handshake_init n" handshake_step "handshake_inv n" handshake_over handshake_work for n
  by unfold_locales (blast intro: handshake_inv_init handshake_inv_step handshake_progress handshake_decreases)+

text \<open>
  The guard hands over complete timestamps, each exactly once and in order.  In every reachable
  state of the two processes, whatever the segment held at the start, the timestamps the client
  measured are those the server passed on, except possibly a first one that answered a guard left
  over from an earlier run and the one being read; and while the client reads, the server
  is waiting and the segment holds the bytes of the timestamp passed on last.
\<close>

theorem handshake_delivers:
  assumes "reach (handshake_init n) handshake_step s"
  shows "(\<exists>pre post. g_sent s = pre @ g_got s @ post \<and> length pre \<le> 1 \<and> length post \<le> 1) \<and>
     (\<forall>i. g_cpc s = C_copy i \<longrightarrow>
        g_spc s = S_wait \<and> g_guard s = turn_client \<and> g_data s = bytes_of_u64 (last (g_sent s)))"
proof -
  have inv: "handshake_inv n s" using shared_turns.reach_inv assms by blast
  have "\<exists>post. length post \<le> 1 \<and> (\<exists>sent. g_sent s = sent @ post \<and> delivered sent (g_got s))"
  proof (cases "answered s")
    case True
    then have "g_sent s = butlast (g_sent s) @ [last (g_sent s)]" and "delivered (butlast (g_sent s)) (g_got s)"
      by (simp_all add: answered_def)
    then show ?thesis by (intro exI [of _ "[last (g_sent s)]"]) auto
  next
    case False
    then have "delivered (g_sent s) (g_got s)"
      using inv by (auto simp: handshake_inv_def client_inv_def idle_def split: client_pc.splits)
    then show ?thesis by (intro exI [of _ "[]"]) simp
  qed
  moreover have "g_spc s = S_wait \<and> g_guard s = turn_client \<and> g_data s = bytes_of_u64 (last (g_sent s))"
    if "g_cpc s = C_copy i" for i
    using inv that by (auto simp: handshake_defs)
  ultimately show ?thesis unfolding delivered_def by fastforce
qed

definition sample_handshake :: handshake where
  "sample_handshake = \<lparr>g_guard = turn_server, g_data = replicate 8 7, g_spc = S_wait, g_stamp = 0,
     g_cpc = C_check, g_buf = replicate 8 0, g_bench = sample_bench, g_left = 3, g_sent = [], g_got = []\<rparr>"

lemma sample_handshake_init: "handshake_init 3 sample_handshake"
  by (simp add: handshake_init_def sample_handshake_def)

theorem handshake_delivers_witness:
  "\<exists>pre post. g_sent sample_handshake = pre @ g_got sample_handshake @ post \<and> length pre \<le> 1 \<and> length post \<le> 1"
  using handshake_delivers [OF reach_init [where init = "handshake_init 3", OF sample_handshake_init]] by blast

text \<open>
  C10: The exchange neither deadlocks nor runs forever.  However the two processes are interleaved, a
  run in which the clock leaves time for \<open>n\<close> messages has at most \<open>30 n + 13\<close> steps, and where no
  step is possible any more the client has left its loop with \<open>n\<close> measurements; such an end can
  be reached.
\<close>

theorem handshake_completes:
  assumes "handshake_init n s"
  shows "(\<forall>ts. run handshake_step s ts \<longrightarrow> length ts \<le> 30 * n + 13 \<and>
           (stuck handshake_step (last (s # ts)) \<longrightarrow>
              g_cpc (last (s # ts)) = C_done \<and> length (g_got (last (s # ts))) = n)) \<and>
     (\<exists>ts. run handshake_step s ts \<and> g_cpc (last (s # ts)) = C_done)"
proof -
  have inv: "handshake_inv n s" using assms by (rule handshake_inv_init)
  have bound: "handshake_work s \<le> 30 * n + 13"
    using assms by (simp add: handshake_init_def handshake_work_def)
  have "length ts \<le> 30 * n + 13" if "run handshake_step s ts" for ts
    using shared_turns.run_bound [OF inv that] bound by linarith
  moreover have "g_cpc (last (s # ts)) = C_done \<and> length (g_got (last (s # ts))) = n"
    if "run handshake_step s ts" and "stuck handshake_step (last (s # ts))" for ts
  proof -
    have "g_cpc (last (s # ts)) = C_done"
      using shared_turns.maximal_run_finished [OF inv that] by (simp add: handshake_over_def)
    moreover have "handshake_inv n (last (s # ts))"
      using shared_turns.run_reach [OF reach_init [where init = "handshake_init n", OF assms] that(1)]
        shared_turns.reach_inv by blast
    ultimately show ?thesis by (simp add: handshake_inv_def client_inv_def)
  qed
  moreover have "\<exists>ts. run handshake_step s ts \<and> g_cpc (last (s # ts)) = C_done"
    using shared_turns.can_finish [OF inv] unfolding handshake_over_def by blast
  ultimately show ?thesis by blast
qed

theorem handshake_completes_witness:
  "\<exists>ts. run handshake_step sample_handshake ts \<and> g_cpc (last (sample_handshake # ts)) = C_done"
  using handshake_completes [OF sample_handshake_init] by blast

end
