(* ===== verification/Shm_Sync.thy ===== *)
theory Shm_Sync
  imports Guard_Handshake
begin

text \<open>
  The benchmark \<^verbatim>\<open>source/shm-sync\<close>, which synchronises its two processes with a mutex and a condition
  variable in shared memory: the programs over system calls; where the synchronisation object is
  placed; and the two processes side by side, as a step relation over the owner of the mutex.
\<close>

section \<open>The programs\<close>

text \<open>\<open>sizeof(struct Sync)\<close> with glibc on x86-64: 40 bytes of mutex and 48 of condition variable.\<close>

definition SYNC_SIZE :: int where "SYNC_SIZE = 88"

definition pthread_check :: "string \<Rightarrow> int \<Rightarrow> string \<Rightarrow> unit prog" where
  "pthread_check f object message =
     bind_c (sys_ret (Proc (Pthread f object))) (\<lambda>r. if r \<noteq> 0 then throw message else return_c ())"

text \<open>The attribute objects are local; 0 stands for their address.  The mutex is the first member.\<close>

definition init_sync :: "int \<Rightarrow> unit prog" where
  "init_sync sync =
     seq_c (pthread_check ''mutexattr_init'' 0 ''Error initializing mutex attributes'')
     (seq_c (pthread_check ''condattr_init'' 0 ''Error initializing condition variable attributes'')
     (seq_c (pthread_check ''mutexattr_setpshared'' 0 ''Error setting process-shared attribute for mutex'')
     (seq_c (pthread_check ''condattr_setpshared'' 0 ''Error setting process-shared attribute for condition variable'')
     (seq_c (pthread_check ''mutex_init'' sync ''Error initializing mutex'')
     (seq_c (pthread_check ''cond_init'' (sync + 40) ''Error initializing condition variable'')
     (seq_c (pthread_check ''mutexattr_destroy'' 0 ''Error destroying mutex attributes'')
     (pthread_check ''condattr_destroy'' 0 ''Error destroying condition variable attributes'')))))))"

definition destroy_sync :: "int \<Rightarrow> unit prog" where
  "destroy_sync sync =
     seq_c (pthread_check ''mutex_destroy'' sync ''Error destroying mutex'')
     (pthread_check ''cond_destroy'' (sync + 40) ''Error destroying condition variable'')"

definition sync_wait :: "int \<Rightarrow> unit prog" where
  "sync_wait sync =
     seq_c (pthread_check ''mutex_lock'' sync ''Error locking mutex'')
     (pthread_check ''cond_wait'' (sync + 40) ''Error waiting for condition variable'')"

definition sync_notify :: "int \<Rightarrow> unit prog" where
  "sync_notify sync = pthread_check ''cond_signal'' (sync + 40) ''Error signalling condition variable''"

definition create_segment :: "Arguments \<Rightarrow> int prog" where
  "create_segment args =
     bind_c (generate_key ''shm'') (\<lambda>segment_key.
     bind_c (sys_ret (Ipc (Shmget segment_key (sint (a_size args + of_int SYNC_SIZE)) True))) (\<lambda>segment_id.
       if segment_id < 0 then throw ''Error allocating segment'' else return_c segment_id))"

text \<open>\<open>memset\<close> and \<open>memcpy\<close> with a negative \<open>int\<close> for a size run over everything.\<close>

definition set_memory :: "int \<Rightarrow> u8 \<Rightarrow> Arguments \<Rightarrow> unit prog" where
  "set_memory shared_memory b args =
     (if sint (a_size args) < 0 then halt_c (Undefined ''memset beyond the segment'')
      else shared_store shared_memory 0 (replicate (nat (sint (a_size args))) b))"

definition get_memory :: "int \<Rightarrow> Arguments \<Rightarrow> u8 list prog" where
  "get_memory shared_memory args =
     (if sint (a_size args) < 0 then halt_c (Undefined ''memcpy beyond the segment'')
      else shared_load shared_memory 0 (nat (sint (a_size args))))"

text \<open>\<open>shared_memory < 0\<close> is false for every pointer, so a failed \<open>shmat\<close> goes unnoticed.\<close>

definition attach_segment :: "int \<Rightarrow> Arguments \<Rightarrow> int prog" where
  "attach_segment segment_id args =
     bind_c (sys_ret (Ipc (Shmat segment_id))) (\<lambda>shared_memory.
     seq_c (set_memory shared_memory 0 args) (return_c shared_memory))"

text \<open>\<open>(struct Sync* )shared_memory + args->size\<close> counts in objects, not in bytes.\<close>

definition sync_offset :: "Arguments \<Rightarrow> int" where
  "sync_offset args = SYNC_SIZE * sint (a_size args)"

definition create_sync :: "int \<Rightarrow> Arguments \<Rightarrow> int prog" where
  "create_sync shared_memory args =
     (let sync = shared_memory + sync_offset args in seq_c (init_sync sync) (return_c sync))"

definition trace_line :: "string \<Rightarrow> unit prog" where
  "trace_line s = sys_do (Misc (Printf (s @ [CHR 0x0A])))"

definition sync_server_cleanup :: "int \<Rightarrow> int \<Rightarrow> int \<Rightarrow> unit prog" where
  "sync_server_cleanup segment_id shared_memory sync =
     seq_c (sys_do (Ipc (Shmdt shared_memory)))
     (seq_c (sys_do (Ipc (Shmctl_rmid segment_id))) (destroy_sync sync))"

fun sync_server_rounds :: "int \<Rightarrow> Arguments \<Rightarrow> int \<Rightarrow> nat \<Rightarrow> Benchmarks \<Rightarrow> Benchmarks prog" where
  "sync_server_rounds shared_memory args sync 0 bench = return_c bench"
| "sync_server_rounds shared_memory args sync (Suc left) bench =
     bind_c now (\<lambda>t.
     seq_c (trace_line ''1'')
     (seq_c (set_memory shared_memory 0x31 args)
     (seq_c (sync_notify sync)
     (seq_c (sync_wait sync)
     (seq_c (trace_line ''2'')
     (bind_c (get_memory shared_memory args) (\<lambda>buffer.
      seq_c (sync_notify sync)
     (seq_c (trace_line ''3'')
     (bind_c (benchmark (bench\<lparr>b_single_start := t\<rparr>)) (sync_server_rounds shared_memory args sync left))))))))))"

definition sync_server_communicate :: "Benchmarks \<Rightarrow> int \<Rightarrow> Arguments \<Rightarrow> int \<Rightarrow> report prog" where
  "sync_server_communicate bench0 shared_memory args sync =
     bind_c (sys_ret (Misc (Malloc (sint (a_size args))))) (\<lambda>buffer.
     seq_c (sync_wait sync)
     (bind_c (setup_benchmarks bench0) (\<lambda>bench.
      bind_c (sync_server_rounds shared_memory args sync (nat (sint (a_count args))) bench) (\<lambda>bench.
      bind_c (evaluate bench args) (\<lambda>report.
      seq_c (sys_do (Misc (Free buffer))) (return_c report))))))"

definition sync_server_main :: "Benchmarks \<Rightarrow> string list \<Rightarrow> report prog" where
  "sync_server_main bench0 argv =
     (let args = parse_arguments argv in
      bind_c (create_segment args) (\<lambda>segment_id.
      bind_c (attach_segment segment_id args) (\<lambda>shared_memory.
      bind_c (create_sync shared_memory args) (\<lambda>sync.
      bind_c (sync_server_communicate bench0 shared_memory args sync) (\<lambda>report.
      seq_c (sync_server_cleanup segment_id shared_memory sync) (return_c report))))))"

definition sync_client_cleanup :: "int \<Rightarrow> unit prog" where
  "sync_client_cleanup shared_memory = sys_do (Ipc (Shmdt shared_memory))"

fun sync_client_rounds :: "int \<Rightarrow> Arguments \<Rightarrow> int \<Rightarrow> nat \<Rightarrow> unit prog" where
  "sync_client_rounds shared_memory args sync 0 = return_c ()"
| "sync_client_rounds shared_memory args sync (Suc left) =
     seq_c (sync_wait sync)
     (seq_c (trace_line ''5'')
     (bind_c (get_memory shared_memory args) (\<lambda>buffer.
      seq_c (set_memory shared_memory 0x32 args)
     (seq_c (trace_line ''6'')
     (seq_c (sync_notify sync)
     (seq_c (trace_line ''7'') (sync_client_rounds shared_memory args sync left)))))))"

definition sync_client_communicate :: "int \<Rightarrow> Arguments \<Rightarrow> int \<Rightarrow> unit prog" where
  "sync_client_communicate shared_memory args sync =
     bind_c (sys_ret (Misc (Malloc (sint (a_size args))))) (\<lambda>buffer.
     seq_c (sync_notify sync)
     (seq_c (trace_line ''4'')
     (seq_c (sync_client_rounds shared_memory args sync (nat (sint (a_count args))))
     (sys_do (Misc (Free buffer))))))"

definition sync_client_main :: "string list \<Rightarrow> int prog" where
  "sync_client_main argv =
     (let args = parse_arguments argv in
      bind_c (create_segment args) (\<lambda>segment_id.
      bind_c (attach_segment segment_id args) (\<lambda>shared_memory.
      bind_c (create_sync shared_memory args) (\<lambda>sync.
      seq_c (sync_client_communicate shared_memory args sync)
      (seq_c (sync_client_cleanup shared_memory) (return_c 0))))))"

section \<open>Where the object is placed\<close>

text \<open>The memory behind a segment of the requested size: whole pages of 4096 bytes.\<close>

definition segment_memory :: "int \<Rightarrow> int \<Rightarrow> int set" where
  "segment_memory shared_memory bytes = {shared_memory ..< shared_memory + (bytes + 4095) div 4096 * 4096}"

lemma sync_pages:
  fixes x k :: int
  assumes "4096 * k \<le> 4183 + x" and "1 \<le> k"
  shows "88 * x + 88 \<le> 4096 * k \<longleftrightarrow> x \<le> 45"
proof (cases "x \<le> 45")
  case True
  then show ?thesis using assms(2) by linarith
next
  case False
  have "k = 1" if "x \<le> 47" using that assms by linarith
  then have "4096 * k < 88 * x + 88" using False assms(1) by (cases "x \<le> 47") auto
  then show ?thesis using False by simp
qed

lemma sync_inside:
  assumes "0 \<le> x"
  shows "{m + 88 * x ..< m + 88 * x + 88} \<subseteq> segment_memory m (x + 88) \<longleftrightarrow> x \<le> 45"
proof -
  define k where "k = (x + 4183) div 4096"
  have "4096 * k \<le> 4183 + x" and "x + 88 \<le> 4096 * k" unfolding k_def by linarith+
  moreover have "segment_memory m (x + 88) = {m ..< m + 4096 * k}" by (simp add: segment_memory_def k_def ac_simps)
  moreover have "1 \<le> k" using assms by (simp add: k_def)
  ultimately show ?thesis using sync_pages [of k x] assms by simp
qed

text \<open>The size \<open>create_segment\<close> asks for, in \<open>int\<close>.\<close>

lemma segment_size:
  assumes "0 \<le> sint (a_size args)"
  shows "sint (a_size args + of_int SYNC_SIZE) =
     (if sint (a_size args) + SYNC_SIZE < 2 ^ 31 then sint (a_size args) + SYNC_SIZE
      else sint (a_size args) + SYNC_SIZE - 2 ^ 32)"
proof -
  define x where "x = sint (a_size args)"
  have x: "0 \<le> x" "x < 2 ^ 31" using assms sint_lt [of "a_size args"] by (simp_all add: x_def)
  have plain: "a_size args + of_int SYNC_SIZE = of_int (x + 88)" by (simp add: x_def SYNC_SIZE_def)
  also have "\<dots> = of_int (x + 88 - 2 ^ 32)" by (simp add: word_of_int_eq_iff take_bit_eq_mod)
  finally have wrapped: "a_size args + of_int SYNC_SIZE = of_int (x + 88 - 2 ^ 32)" .
  show ?thesis
  proof (cases "x + 88 < 2 ^ 31")
    case True
    then show ?thesis using x unfolding plain by (subst sint_of_int_exact) (simp_all add: SYNC_SIZE_def flip: x_def)
  next
    case False
    then show ?thesis using x unfolding wrapped by (subst sint_of_int_exact) (simp_all add: SYNC_SIZE_def flip: x_def)
  qed
qed

lemma pthread_check_call:
  assumes "bind_c (pthread_check f object message) p w = (Inr x, w')"
  shows "\<exists>w1. w_calls w1 = w_calls w @ [Proc (Pthread f object)] \<and> p () w1 = (Inr x, w')"
  using assms
  by (cases "ret (w_os w (w_calls w) (Proc (Pthread f object))) = 0")
    (auto simp: pthread_check_def throw_def sys_def Let_def prog_simps
      intro!: exI [of _ "w\<lparr>w_calls := w_calls w @ [Proc (Pthread f object)]\<rparr>"])

lemma create_sync_calls:
  assumes "create_sync shared_memory args w = (Inr sync, w')"
  shows "sync = shared_memory + sync_offset args \<and>
     {Proc (Pthread ''mutex_init'' sync), Proc (Pthread ''cond_init'' (sync + 40))} \<subseteq> set (drop (length (w_calls w)) (w_calls w'))"
proof -
  let ?s = "shared_memory + sync_offset args"
  have "sync = ?s \<and> w_calls w' = w_calls w @ [Proc (Pthread ''mutexattr_init'' 0), Proc (Pthread ''condattr_init'' 0),
      Proc (Pthread ''mutexattr_setpshared'' 0), Proc (Pthread ''condattr_setpshared'' 0), Proc (Pthread ''mutex_init'' ?s),
      Proc (Pthread ''cond_init'' (?s + 40)), Proc (Pthread ''mutexattr_destroy'' 0), Proc (Pthread ''condattr_destroy'' 0)]"
    using assms unfolding create_sync_def init_sync_def Let_def seq_c_def bind_assoc
    by (auto dest!: pthread_check_call simp: return_c_def)
  then show ?thesis by auto
qed

text \<open>
  C40: Where the synchronisation object is placed.  Follow the calls of \<open>create_segment\<close>, \<open>attach_segment\<close> and
  \<open>create_sync\<close> for any non-negative message size.  The segment asked for has the message size and 88 bytes
  more, or, if that exceeds \<open>int\<close>, a negative size.  The mutex and the condition variable are initialised
  at the pointer \<open>create_sync\<close> returns, and the 88 bytes there lie inside the attached segment, rounded up to
  whole pages, exactly for messages of at most 45 bytes: for longer ones, the default of 4096 included, both
  programs initialise them behind the end of the segment.
\<close>

theorem sync_inside_segment_iff:
  assumes "create_segment args w = (Inr segment_id, w1)" and "attach_segment segment_id args w1 = (Inr shared_memory, w2)"
    and "create_sync shared_memory args w2 = (Inr sync, w3)" and "0 \<le> sint (a_size args)"
  shows "\<exists>key bytes. w_calls w1 = w_calls w @ [Ipc (Ftok ''shm'' (CHR ''X'')), Ipc (Shmget key bytes True)] \<and>
     shared_memory = ret (w_os w1 (w_calls w1) (Ipc (Shmat segment_id))) \<and>
     {Proc (Pthread ''mutex_init'' sync), Proc (Pthread ''cond_init'' (sync + 40))} \<subseteq> set (drop (length (w_calls w2)) (w_calls w3)) \<and>
     (if sint (a_size args) + SYNC_SIZE < 2 ^ 31
      then bytes = sint (a_size args) + SYNC_SIZE \<and>
        ({sync ..< sync + SYNC_SIZE} \<subseteq> segment_memory shared_memory bytes \<longleftrightarrow> sint (a_size args) \<le> 45)
      else bytes < 0)"
proof -
  define x where "x = sint (a_size args)"
  have x: "0 \<le> x" "x < 2 ^ 31" using assms(4) sint_lt [of "a_size args"] by (simp_all add: x_def)
  obtain key where segment:
    "w_calls w1 = w_calls w @ [Ipc (Ftok ''shm'' (CHR ''X'')), Ipc (Shmget key (sint (a_size args + of_int SYNC_SIZE)) True)]"
    using assms(1)
    by (auto simp: create_segment_def generate_key_def throw_def sys_def Let_def prog_simps split: if_splits)
  have attach: "shared_memory = ret (w_os w1 (w_calls w1) (Ipc (Shmat segment_id)))"
    using assms(2) by (auto simp: attach_segment_def sys_def Let_def prog_simps split: sum.splits prod.splits)
  have sync: "sync = shared_memory + SYNC_SIZE * x"
    and inits: "{Proc (Pthread ''mutex_init'' sync), Proc (Pthread ''cond_init'' (sync + 40))}
       \<subseteq> set (drop (length (w_calls w2)) (w_calls w3))"
    using create_sync_calls [OF assms(3)] unfolding x_def sync_offset_def by blast+
  have "{sync ..< sync + SYNC_SIZE} \<subseteq> segment_memory shared_memory (x + SYNC_SIZE) \<longleftrightarrow> x \<le> 45"
    using sync_inside [OF x(1), of shared_memory] by (simp add: sync SYNC_SIZE_def)
  moreover define bytes where "bytes = sint (a_size args + of_int SYNC_SIZE)"
  moreover have "if x + SYNC_SIZE < 2 ^ 31 then bytes = x + SYNC_SIZE else bytes < 0"
    using segment_size [OF assms(4)] x by (simp add: bytes_def SYNC_SIZE_def flip: x_def)
  ultimately show ?thesis using segment attach inits by (auto simp flip: x_def split: if_splits)
qed

text \<open>Messages of 46 bytes, where every call succeeds and the segment is attached at 8192.\<close>

definition sample_sync_world :: "call list \<Rightarrow> world" where
  "sample_sync_world calls =
     \<lparr>w_os = (\<lambda>_ c. case c of Ipc (Shmat _) \<Rightarrow> ok_reply 8192 | _ \<Rightarrow> ok_reply 0), w_calls = calls, w_errno = 0\<rparr>"

abbreviation sample_sync_args :: Arguments where "sample_sync_args \<equiv> \<lparr>a_size = 46, a_count = 1000\<rparr>"

lemma sample_create: "\<exists>calls. create_segment sample_sync_args (sample_sync_world []) = (Inr 0, sample_sync_world calls)"
  by (simp add: create_segment_def generate_key_def throw_def sys_def Let_def prog_simps sample_sync_world_def)

lemma sample_stores: "\<exists>calls'. store_bytes seg off bs (sample_sync_world calls) = (Inr (), sample_sync_world calls')"
  by (induction bs arbitrary: off calls) (simp_all add: sys_def Let_def prog_simps sample_sync_world_def)

lemma sample_attach: "\<exists>calls'. attach_segment 0 sample_sync_args (sample_sync_world calls) = (Inr 8192, sample_sync_world calls')"
proof -
  obtain calls' where "store_bytes 8192 0 (replicate 46 0) (sample_sync_world (calls @ [Ipc (Shmat 0)])) =
      (Inr (), sample_sync_world calls')" using sample_stores by blast
  then show ?thesis
    by (simp add: attach_segment_def set_memory_def shared_store_def sys_def Let_def prog_simps sample_sync_world_def)
qed

lemma sample_create_sync: "\<exists>calls'. create_sync 8192 sample_sync_args (sample_sync_world calls) = (Inr 12240, sample_sync_world calls')"
  by (simp add: create_sync_def init_sync_def pthread_check_def throw_def sys_def Let_def prog_simps sample_sync_world_def
      sync_offset_def SYNC_SIZE_def)

theorem sync_inside_segment_iff_witness:
  "(\<exists>calls w. create_sync 8192 sample_sync_args (sample_sync_world calls) = (Inr 12240, w)) \<and>
   \<not> {12240 ..< 12240 + SYNC_SIZE} \<subseteq> segment_memory 8192 134"
proof -
  obtain c1 where 1: "create_segment sample_sync_args (sample_sync_world []) = (Inr 0, sample_sync_world c1)"
    using sample_create by blast
  obtain c2 where 2: "attach_segment 0 sample_sync_args (sample_sync_world c1) = (Inr 8192, sample_sync_world c2)"
    using sample_attach by blast
  obtain c3 where 3: "create_sync 8192 sample_sync_args (sample_sync_world c2) = (Inr 12240, sample_sync_world c3)"
    using sample_create_sync by blast
  show ?thesis using sync_inside_segment_iff [OF 1 2 3] 3 by (auto simp: SYNC_SIZE_def)
qed

section \<open>The two processes\<close>

text \<open>
  Both processes after their initialisation.  A wait is \<open>lock\<close> (blocking while the mutex has an owner,
  the process itself included: the default mutex is not recursive), then \<open>cond_wait\<close>, which gives the
  mutex up, sleeps, and after a wake-up takes the mutex again before it returns.  Wake-ups come from
  the other side's signal or, as the standard permits, from nowhere.  Nobody ever unlocks.
\<close>

datatype party = P_server | P_client

text \<open>The flag of the server's wait is false before the loop and true inside it.\<close>

datatype ss_server_pc = Z_lock bool | Z_wait bool | Z_sleep bool | Z_woken bool
  | Z_head | Z_notify | Z_notify_back | Z_bench | Z_done

datatype ss_client_pc = Y_start | Y_head | Y_lock | Y_wait | Y_sleep | Y_woken | Y_copy | Y_notify | Y_done

record ss_state =
  ss_owner :: "party option"
  ss_spc :: ss_server_pc
  ss_sleft :: nat
  ss_cpc :: ss_client_pc
  ss_cleft :: nat
  ss_bench :: Benchmarks

definition signal_client :: "ss_state \<Rightarrow> ss_state" where
  "signal_client s = (if ss_cpc s = Y_sleep then s\<lparr>ss_cpc := Y_woken\<rparr> else s)"

definition signal_server :: "ss_state \<Rightarrow> ss_state" where
  "signal_server s = (case ss_spc s of Z_sleep b \<Rightarrow> s\<lparr>ss_spc := Z_woken b\<rparr> | _ \<Rightarrow> s)"

inductive ss_step :: "ss_state \<Rightarrow> ss_state \<Rightarrow> bool" where
  ss_s_lock: "ss_spc s = Z_lock b \<Longrightarrow> ss_owner s = None \<Longrightarrow>
     ss_step s (s\<lparr>ss_spc := Z_wait b, ss_owner := Some P_server\<rparr>)"
| ss_s_wait: "ss_spc s = Z_wait b \<Longrightarrow> ss_step s (s\<lparr>ss_spc := Z_sleep b, ss_owner := None\<rparr>)"
| ss_s_spurious: "ss_spc s = Z_sleep b \<Longrightarrow> ss_step s (s\<lparr>ss_spc := Z_woken b\<rparr>)"
| ss_s_return: "ss_spc s = Z_woken b \<Longrightarrow> ss_owner s = None \<Longrightarrow>
     ss_step s (s\<lparr>ss_spc := (if b then Z_notify_back else Z_head), ss_owner := Some P_server\<rparr>)"
| ss_s_end: "ss_spc s = Z_head \<Longrightarrow> ss_sleft s = 0 \<Longrightarrow> ss_step s (s\<lparr>ss_spc := Z_done\<rparr>)"
| ss_s_now: "ss_spc s = Z_head \<Longrightarrow> 0 < ss_sleft s \<Longrightarrow>
     ss_step s (s\<lparr>ss_spc := Z_notify, ss_bench := (ss_bench s)\<lparr>b_single_start := t\<rparr>\<rparr>)"
| ss_s_notify: "ss_spc s = Z_notify \<Longrightarrow> ss_step s (signal_client (s\<lparr>ss_spc := Z_lock True\<rparr>))"
| ss_s_notify_back: "ss_spc s = Z_notify_back \<Longrightarrow> ss_step s (signal_client (s\<lparr>ss_spc := Z_bench\<rparr>))"
| ss_s_bench: "ss_spc s = Z_bench \<Longrightarrow>
     ss_step s (s\<lparr>ss_spc := Z_head, ss_sleft := ss_sleft s - 1, ss_bench := benchmark_at (ss_bench s) t\<rparr>)"
| ss_c_start: "ss_cpc s = Y_start \<Longrightarrow> ss_step s (signal_server (s\<lparr>ss_cpc := Y_head\<rparr>))"
| ss_c_end: "ss_cpc s = Y_head \<Longrightarrow> ss_cleft s = 0 \<Longrightarrow> ss_step s (s\<lparr>ss_cpc := Y_done\<rparr>)"
| ss_c_head: "ss_cpc s = Y_head \<Longrightarrow> 0 < ss_cleft s \<Longrightarrow> ss_step s (s\<lparr>ss_cpc := Y_lock\<rparr>)"
| ss_c_lock: "ss_cpc s = Y_lock \<Longrightarrow> ss_owner s = None \<Longrightarrow>
     ss_step s (s\<lparr>ss_cpc := Y_wait, ss_owner := Some P_client\<rparr>)"
| ss_c_wait: "ss_cpc s = Y_wait \<Longrightarrow> ss_step s (s\<lparr>ss_cpc := Y_sleep, ss_owner := None\<rparr>)"
| ss_c_spurious: "ss_cpc s = Y_sleep \<Longrightarrow> ss_step s (s\<lparr>ss_cpc := Y_woken\<rparr>)"
| ss_c_return: "ss_cpc s = Y_woken \<Longrightarrow> ss_owner s = None \<Longrightarrow>
     ss_step s (s\<lparr>ss_cpc := Y_copy, ss_owner := Some P_client\<rparr>)"
| ss_c_copy: "ss_cpc s = Y_copy \<Longrightarrow> ss_step s (s\<lparr>ss_cpc := Y_notify\<rparr>)"
| ss_c_notify: "ss_cpc s = Y_notify \<Longrightarrow>
     ss_step s (signal_server (s\<lparr>ss_cpc := Y_head, ss_cleft := ss_cleft s - 1\<rparr>))"

definition ss_init :: "nat \<Rightarrow> ss_state \<Rightarrow> bool" where
  "ss_init n s \<longleftrightarrow> 0 < n \<and> ss_owner s = None \<and> ss_spc s = Z_lock False \<and> ss_sleft s = n \<and>
     ss_cpc s = Y_start \<and> ss_cleft s = n \<and> b_count (ss_bench s) = 0"

text \<open>Who owns the mutex: a process inside a wait, and for ever after its first wait has returned.\<close>

fun zpc_holds :: "ss_server_pc \<Rightarrow> bool" where
  "zpc_holds (Z_lock b) = b" | "zpc_holds (Z_wait b) = True" | "zpc_holds (Z_sleep b) = False"
| "zpc_holds (Z_woken b) = False" | "zpc_holds _ = True"

fun zpc_first :: "ss_server_pc \<Rightarrow> bool" where
  "zpc_first (Z_lock b) = True" | "zpc_first (Z_wait b) = (\<not> b)" | "zpc_first (Z_sleep b) = (\<not> b)"
| "zpc_first (Z_woken b) = (\<not> b)" | "zpc_first Z_head = True" | "zpc_first Z_notify = True" | "zpc_first _ = False"

fun ypc_holds :: "bool \<Rightarrow> ss_client_pc \<Rightarrow> bool" where
  "ypc_holds late Y_wait = True" | "ypc_holds late Y_copy = True" | "ypc_holds late Y_notify = True"
| "ypc_holds late Y_start = False" | "ypc_holds late Y_sleep = False" | "ypc_holds late Y_woken = False"
| "ypc_holds late _ = late"

fun ypc_late :: "ss_client_pc \<Rightarrow> bool" where
  "ypc_late Y_head = True" | "ypc_late Y_lock = True" | "ypc_late Y_done = True" | "ypc_late _ = False"

definition ss_inv :: "nat \<Rightarrow> ss_state \<Rightarrow> bool" where
  "ss_inv n s \<longleftrightarrow> 0 < n \<and> ss_sleft s = n \<and> b_count (ss_bench s) = 0 \<and> zpc_first (ss_spc s) \<and>
     (zpc_holds (ss_spc s) \<longleftrightarrow> ss_owner s = Some P_server) \<and>
     (ypc_holds (ss_cleft s < n) (ss_cpc s) \<longleftrightarrow> ss_owner s = Some P_client) \<and>
     (ss_cleft s = n \<or> Suc (ss_cleft s) = n \<and> ypc_late (ss_cpc s)) \<and>
     (ss_cpc s = Y_done \<longrightarrow> ss_cleft s = 0)"

definition ss_blocked :: "ss_state \<Rightarrow> bool" where
  "ss_blocked s \<longleftrightarrow> ss_owner s \<noteq> None \<and> ss_spc s \<in> {Z_lock False, Z_woken False, Z_lock True} \<and>
     ss_cpc s \<in> {Y_lock, Y_woken, Y_done}"

fun zpc_work :: "ss_server_pc \<Rightarrow> nat" where
  "zpc_work (Z_lock b) = (if b then 0 else 6)" | "zpc_work (Z_wait b) = 5" | "zpc_work (Z_sleep b) = 4"
| "zpc_work (Z_woken b) = 3" | "zpc_work Z_head = 2" | "zpc_work Z_notify = 1" | "zpc_work _ = 0"

fun ypc_work :: "ss_client_pc \<Rightarrow> nat" where
  "ypc_work Y_start = 8" | "ypc_work Y_head = 7" | "ypc_work Y_lock = 6" | "ypc_work Y_wait = 5"
| "ypc_work Y_sleep = 4" | "ypc_work Y_woken = 3" | "ypc_work Y_copy = 2" | "ypc_work Y_notify = 1"
| "ypc_work Y_done = 0"

definition ss_work :: "nat \<Rightarrow> ss_state \<Rightarrow> nat" where
  "ss_work n s = zpc_work (ss_spc s) + ypc_work (ss_cpc s) + (if ss_cleft s = n then 7 else 0)"

lemmas ss_defs = ss_inv_def signal_client_def signal_server_def

lemma ss_inv_init: "ss_init n s \<Longrightarrow> ss_inv n s"
  by (simp add: ss_init_def ss_defs)

lemma ss_inv_step: "ss_inv n s \<Longrightarrow> ss_step s t \<Longrightarrow> ss_inv n t"
  by (erule ss_step.cases) (auto simp: ss_defs split: if_splits ss_server_pc.splits)

lemma ss_decreases: "ss_inv n s \<Longrightarrow> ss_step s t \<Longrightarrow> ss_work n t < ss_work n s"
  by (erule ss_step.cases) (auto simp: ss_defs ss_work_def split: if_splits ss_server_pc.splits)

lemma ss_server_moves:
  assumes "ss_inv n s" and "ss_owner s = None \<or> ss_spc s \<notin> {Z_lock False, Z_woken False, Z_lock True}"
  shows "\<exists>t. ss_step s t"
proof (cases "ss_spc s")
  case (Z_lock b)
  then show ?thesis using assms ss_s_lock by (cases b) (auto simp: ss_inv_def)
next
  case (Z_woken b)
  then show ?thesis using assms ss_s_return by (cases b) (auto simp: ss_inv_def)
next
  case Z_head
  then show ?thesis using assms(1) ss_s_now by (auto simp: ss_inv_def)
next
  case Z_done
  then show ?thesis using assms(1) by (simp add: ss_inv_def)
qed (use ss_s_wait ss_s_spurious ss_s_notify ss_s_notify_back ss_s_bench in blast)+

lemma ss_client_moves:
  assumes "ss_cpc s \<notin> {Y_lock, Y_woken, Y_done}"
  shows "\<exists>t. ss_step s t"
proof (cases "ss_cpc s")
  case Y_head
  then show ?thesis by (cases "ss_cleft s = 0") (use ss_c_end ss_c_head in blast)+
qed (use assms ss_c_start ss_c_wait ss_c_spurious ss_c_copy ss_c_notify in blast)+

lemma ss_progress: "ss_inv n s \<Longrightarrow> \<not> ss_blocked s \<Longrightarrow> \<exists>t. ss_step s t"
  by (metis ss_server_moves ss_client_moves ss_blocked_def)

interpretation mutex_kept: terminating_system "ss_init n" ss_step "ss_inv n" ss_blocked "ss_work n" for n
  by unfold_locales (blast intro: ss_inv_init ss_inv_step ss_progress ss_decreases)+

text \<open>
  C18: The benchmark deadlocks.  \<open>sync_wait\<close> returns with the mutex held and nothing releases it, so
  whatever the interleaving and the wake-ups, after at most 21 steps neither process can go on; the
  server is then at a lock it or the client holds, has not finished and has not measured a single
  round trip.
\<close>

theorem shm_sync_deadlocks:
  assumes "ss_init n s" and "run ss_step s ts"
  shows "length ts \<le> 21 \<and> ss_spc (last (s # ts)) \<noteq> Z_done \<and> b_count (ss_bench (last (s # ts))) = 0 \<and>
     (stuck ss_step (last (s # ts)) \<longrightarrow> ss_blocked (last (s # ts)))"
proof -
  have inv: "ss_inv n s" using assms(1) by (rule ss_inv_init)
  have "ss_work n s = 21" using assms(1) by (simp add: ss_init_def ss_work_def)
  then have "length ts \<le> 21" using mutex_kept.run_bound [OF inv assms(2)] by linarith
  moreover have "ss_inv n (last (s # ts))"
    using mutex_kept.run_reach [OF reach_init [where init = "ss_init n", OF assms(1)] assms(2)]
      mutex_kept.reach_inv by blast
  then have "ss_spc (last (s # ts)) \<noteq> Z_done \<and> b_count (ss_bench (last (s # ts))) = 0"
    by (auto simp: ss_inv_def)
  ultimately show ?thesis using mutex_kept.maximal_run_finished [OF inv assms(2)] by blast
qed

definition sample_ss :: ss_state where
  "sample_ss = \<lparr>ss_owner = None, ss_spc = Z_lock False, ss_sleft = 2, ss_cpc = Y_start, ss_cleft = 2,
     ss_bench = sample_bench\<rparr>"

theorem shm_sync_deadlocks_witness:
  "\<exists>ts. run ss_step sample_ss ts \<and> ss_blocked (last (sample_ss # ts)) \<and>
     b_count (ss_bench (last (sample_ss # ts))) = 0"
proof -
  have init: "ss_init 2 sample_ss" by (simp add: ss_init_def sample_ss_def sample_bench_def)
  obtain ts where "run ss_step sample_ss ts" "stuck ss_step (last (sample_ss # ts))"
    using mutex_kept.maximal_run [OF ss_inv_init [OF init]] by blast
  then show ?thesis using shm_sync_deadlocks [OF init] by blast
qed

end
