(* ===== verification/Pthread_Test.thy ===== *)
theory Pthread_Test
  imports Options
begin

text \<open>
  \<^verbatim>\<open>source/other/pthread-test.c\<close>: several threads add the elements of an array to one variable, each
  addition under a mutex.  A running program is a tree of threads: a thread that has started another
  one and goes on itself is a node, whose two branches take steps in any order.  The creation of a thread, which exits when it fails, is
  successful there.
\<close>

definition create_thread :: "unit prog" where
  "create_thread =
     bind_c (sys_ret (Proc Pthread_create)) (\<lambda>r.
       if r \<noteq> 0 then seq_c (sys_do (Misc (Perror ''Error creating thread''))) (halt_c (Exited 1)) else return_c ())"

section \<open>Threads\<close>

text \<open>
  A task covers the elements from its \<open>first\<close> (here \<open>lo\<close>) up to but not including its \<open>last\<close> (here \<open>hi\<close>).  The loop at a leaf takes the
  mutex, reads the sum and adds, writes it back, and releases the mutex; \<open>T_call\<close> is a call of
  \<open>recursive_addition\<close> that has not looked at its task yet.
\<close>

datatype thread =
    T_call nat nat
  | T_loop nat nat
  | T_locked nat nat
  | T_adding nat nat c_int
  | T_added nat nat
  | T_join thread thread
  | T_end

text \<open>The shared variables: the mutex and \<open>sum\<close>.\<close>

record shared =
  sh_locked :: bool
  sh_sum :: c_int

type_synonym program_state = "shared \<times> thread"

inductive thread_step :: "(nat \<Rightarrow> c_int) \<Rightarrow> program_state \<Rightarrow> program_state \<Rightarrow> bool" for array :: "nat \<Rightarrow> c_int" where
  t_small: "hi - lo \<le> 2 \<Longrightarrow> thread_step array (sh, T_call lo hi) (sh, T_loop lo hi)"
| t_split: "\<not> hi - lo \<le> 2 \<Longrightarrow> mid = lo + (hi - lo) div 2 \<Longrightarrow>
     thread_step array (sh, T_call lo hi) (sh, T_join (T_call lo mid) (T_call mid hi))"
| t_exit: "\<not> lo < hi \<Longrightarrow> thread_step array (sh, T_loop lo hi) (sh, T_end)"
| t_lock: "lo < hi \<Longrightarrow> \<not> sh_locked sh \<Longrightarrow>
     thread_step array (sh, T_loop lo hi) (sh\<lparr>sh_locked := True\<rparr>, T_locked lo hi)"
| t_read: "thread_step array (sh, T_locked lo hi) (sh, T_adding lo hi (sh_sum sh + array lo))"
| t_write: "thread_step array (sh, T_adding lo hi v) (sh\<lparr>sh_sum := v\<rparr>, T_added lo hi)"
| t_unlock: "thread_step array (sh, T_added lo hi) (sh\<lparr>sh_locked := False\<rparr>, T_loop (Suc lo) hi)"
| t_left: "thread_step array (sh, l) (sh', l') \<Longrightarrow> thread_step array (sh, T_join l r) (sh', T_join l' r)"
| t_right: "thread_step array (sh, r) (sh', r') \<Longrightarrow> thread_step array (sh, T_join l r) (sh', T_join l r')"
| t_join: "thread_step array (sh, T_join T_end T_end) (sh, T_end)"

lemmas thread_step_induct = thread_step.induct [split_format (complete)]

text \<open>The array of the program, and the starting points of its two ways to add it up.\<close>

definition array :: "nat \<Rightarrow> c_int" where
  "array i = of_nat ([1, 2, 3, 4, 5, 6, 7, 8, 9, 10] ! i)"

definition recursive_add :: thread where
  "recursive_add = T_call 0 10"

text \<open>\<open>add\<close> is the loop of \<open>recursive_addition\<close>; here both threads are started and joined by the caller.\<close>

definition add_task :: "nat \<Rightarrow> nat \<Rightarrow> thread" where
  "add_task lo hi = T_loop lo hi"

definition parallel_add :: thread where
  "parallel_add = T_join (add_task 0 5) (add_task 5 10)"

text \<open>What \<open>main\<close> prints once \<open>recursive_add\<close> has returned.\<close>

fun main_prints :: "program_state \<Rightarrow> string option" where
  "main_prints (sh, T_end) = Some (dec_int (sint (sh_sum sh)) @ [CHR 0x0A])"
| "main_prints (sh, t) = None"

section \<open>The sequential program\<close>

function range_sum :: "(nat \<Rightarrow> c_int) \<Rightarrow> nat \<Rightarrow> nat \<Rightarrow> c_int" where
  "range_sum a lo hi = (if lo < hi then a lo + range_sum a (Suc lo) hi else 0)"
  by pat_completeness auto
termination by (relation "measure (\<lambda>(a, lo, hi). hi - lo)") auto

declare range_sum.simps [simp del]

lemma range_sum_empty [simp]: "\<not> lo < hi \<Longrightarrow> range_sum a lo hi = 0"
  by (subst range_sum.simps) simp

lemma range_sum_next: "lo < hi \<Longrightarrow> range_sum a lo hi = a lo + range_sum a (Suc lo) hi"
  by (subst range_sum.simps) simp

lemma range_sum_split: "lo \<le> mid \<Longrightarrow> mid \<le> hi \<Longrightarrow> range_sum a lo hi = range_sum a lo mid + range_sum a mid hi"
proof (induction a lo mid rule: range_sum.induct)
  case (1 a lo mid)
  then show ?case
    by (cases "lo < mid") (auto simp: range_sum_next [of lo mid] range_sum_next [of lo hi] add.assoc)
qed

section \<open>Invariant\<close>

text \<open>What a thread has still to add, how many of its parts hold the mutex, and the work left.\<close>

fun still_to_add :: "(nat \<Rightarrow> c_int) \<Rightarrow> thread \<Rightarrow> c_int" where
  "still_to_add a (T_call lo hi) = range_sum a lo hi"
| "still_to_add a (T_loop lo hi) = range_sum a lo hi"
| "still_to_add a (T_locked lo hi) = range_sum a lo hi"
| "still_to_add a (T_adding lo hi v) = range_sum a lo hi"
| "still_to_add a (T_added lo hi) = range_sum a (Suc lo) hi"
| "still_to_add a (T_join l r) = still_to_add a l + still_to_add a r"
| "still_to_add a T_end = 0"

fun holders :: "thread \<Rightarrow> nat" where
  "holders (T_locked lo hi) = 1"
| "holders (T_adding lo hi v) = 1"
| "holders (T_added lo hi) = 1"
| "holders (T_join l r) = holders l + holders r"
| "holders _ = 0"

text \<open>A value read for adding is up to date, and a locked loop has an element to add.\<close>

fun up_to_date :: "(nat \<Rightarrow> c_int) \<Rightarrow> c_int \<Rightarrow> thread \<Rightarrow> bool" where
  "up_to_date a v0 (T_locked lo hi) = (lo < hi)"
| "up_to_date a v0 (T_adding lo hi v) = (lo < hi \<and> v = v0 + a lo)"
| "up_to_date a v0 (T_added lo hi) = (lo < hi)"
| "up_to_date a v0 (T_join l r) = (up_to_date a v0 l \<and> up_to_date a v0 r)"
| "up_to_date a v0 _ = True"

lemma up_to_date_free: "holders t = 0 \<Longrightarrow> up_to_date a v0 t"
  by (induction t) auto

abbreviation lock_count :: "shared \<Rightarrow> nat" where
  "lock_count sh \<equiv> (if sh_locked sh then 1 else 0)"

lemma step_keeps:
  assumes "thread_step a (sh, t) (sh', t')" and "holders t \<le> lock_count sh" and "up_to_date a (sh_sum sh) t"
  shows "sh_sum sh' + still_to_add a t' = sh_sum sh + still_to_add a t \<and>
     holders t' + lock_count sh = holders t + lock_count sh' \<and> up_to_date a (sh_sum sh') t' \<and>
     (sh_sum sh' = sh_sum sh \<or> 0 < holders t)"
  using assms
proof (induction rule: thread_step_induct)
  case (t_split hi lo mid sh)
  then show ?case by (simp add: range_sum_split [of lo mid hi])
next
  case (t_left sh l sh' l' r)
  have "holders l + holders r \<le> 1" using t_left.prems(1) by (simp split: if_splits)
  then have "up_to_date a (sh_sum sh') r"
    using t_left up_to_date_free [of r] by (auto split: if_splits)
  then show ?case using t_left by (auto simp: add.assoc [symmetric])
next
  case (t_right sh r sh' r' l)
  have "holders l + holders r \<le> 1" using t_right.prems(1) by (simp split: if_splits)
  then have "up_to_date a (sh_sum sh') l"
    using t_right up_to_date_free [of l] by (auto split: if_splits)
  then show ?case using t_right by (auto simp: add.left_commute)
qed (auto simp: range_sum_next split: if_splits)

definition adding_inv :: "(nat \<Rightarrow> c_int) \<Rightarrow> c_int \<Rightarrow> program_state \<Rightarrow> bool" where
  "adding_inv a tot s \<longleftrightarrow> (case s of (sh, t) \<Rightarrow>
     holders t = lock_count sh \<and> up_to_date a (sh_sum sh) t \<and> sh_sum sh + still_to_add a t = tot)"

lemma adding_inv_step: "adding_inv a tot s \<Longrightarrow> thread_step a s s' \<Longrightarrow> adding_inv a tot s'"
  using step_keeps [of a "fst s" "snd s" "fst s'" "snd s'"] by (auto simp: adding_inv_def split: prod.splits)

text \<open>The work left: every thread still has to be started, to do its additions and to be joined.\<close>

fun thread_work :: "thread \<Rightarrow> nat" where
  "thread_work (T_call lo hi) = (if lo < hi then 12 * (hi - lo) - 2 else 2)"
| "thread_work (T_loop lo hi) = 4 * (hi - lo) + 1"
| "thread_work (T_locked lo hi) = 4 * (hi - lo)"
| "thread_work (T_adding lo hi v) = 4 * (hi - lo) - 1"
| "thread_work (T_added lo hi) = 4 * (hi - lo) - 2"
| "thread_work (T_join l r) = thread_work l + thread_work r + 1"
| "thread_work T_end = 0"

lemma step_work:
  assumes "thread_step a (sh, t) (sh', t')" and "up_to_date a (sh_sum sh) t"
  shows "thread_work t' < thread_work t"
  using assms
proof (induction rule: thread_step_induct)
  case (t_split hi lo mid sh)
  then have "lo < mid" and "mid < hi" by auto
  then show ?case by simp
qed (auto split: if_splits)

lemma thread_moves:
  "t \<noteq> T_end \<Longrightarrow> sh_locked sh \<longrightarrow> 0 < holders t \<Longrightarrow> \<exists>s'. thread_step a (sh, t) s'"
proof (induction t)
  case (T_call lo hi)
  then show ?case by (cases "hi - lo \<le> 2") (use t_small t_split in blast)+
next
  case (T_loop lo hi)
  then have "\<not> sh_locked sh" by simp
  then show ?case by (cases "lo < hi") (use t_exit t_lock in blast)+
next
  case (T_join l r)
  have "0 < holders r \<Longrightarrow> r \<noteq> T_end" by auto
  then consider "l = T_end" "r = T_end" | "l \<noteq> T_end" "sh_locked sh \<longrightarrow> 0 < holders l"
    | "r \<noteq> T_end" "sh_locked sh \<longrightarrow> 0 < holders r"
    using T_join.prems(2) by (cases "l = T_end"; cases "0 < holders l") auto
  then show ?case
  proof cases
    case 1
    then show ?thesis using t_join by blast
  next
    case 2
    then obtain s' where "thread_step a (sh, l) s'" using T_join.IH(1) by blast
    then show ?thesis using t_left by (cases s') blast
  next
    case 3
    then obtain s' where "thread_step a (sh, r) s'" using T_join.IH(2) by blast
    then show ?thesis using t_right by (cases s') blast
  qed
qed (use t_read t_write t_unlock in blast)+

definition started :: "(nat \<Rightarrow> c_int) \<Rightarrow> c_int \<Rightarrow> program_state \<Rightarrow> bool" where
  "started a tot s \<longleftrightarrow> \<not> sh_locked (fst s) \<and> sh_sum (fst s) = 0 \<and> holders (snd s) = 0 \<and>
     still_to_add a (snd s) = tot"

lemma started_inv: "started a tot s \<Longrightarrow> adding_inv a tot s"
  by (auto simp: started_def adding_inv_def up_to_date_free split: prod.splits)

interpretation adders: terminating_system "started a tot" "thread_step a" "adding_inv a tot"
    "\<lambda>s. snd s = T_end" "\<lambda>s. thread_work (snd s)" for a tot
proof unfold_locales
  fix s t assume inv: "adding_inv a tot s"
  show "\<exists>t. thread_step a s t" if "snd s \<noteq> T_end"
    using inv thread_moves [of "snd s" "fst s" a] that by (auto simp: adding_inv_def split: prod.splits)
  show "thread_work (snd t) < thread_work (snd s)" if "thread_step a s t"
    using inv that step_work [of a "fst s" "snd s" "fst t" "snd t"] by (auto simp: adding_inv_def split: prod.splits)
qed (use started_inv adding_inv_step in blast)+

text \<open>
  C19: Adding up in threads is adding up in sequence.  However the threads of \<open>recursive_addition\<close> are
  interleaved, every run is bounded, at no time does more than one thread hold the mutex, and where
  no step is left all threads have been joined, the mutex is free and the sum is that of the
  sequential loop over the task; the same holds for \<open>parallel_add\<close>.
\<close>

theorem threads_add_sequentially:
  assumes "sh = \<lparr>sh_locked = False, sh_sum = 0\<rparr>" and "t \<in> {T_call lo hi, T_join (T_loop lo mid) (T_loop mid hi)}"
    and "lo \<le> mid" and "mid \<le> hi" and "run (thread_step a) (sh, t) ss"
  shows "length ss \<le> 12 * (hi - lo) + 3 \<and> holders (snd (List.last ((sh, t) # ss))) \<le> 1 \<and>
     (stuck (thread_step a) (List.last ((sh, t) # ss)) \<longrightarrow>
        List.last ((sh, t) # ss) = (\<lparr>sh_locked = False, sh_sum = range_sum a lo hi\<rparr>, T_end))"
proof -
  have start: "started a (range_sum a lo hi) (sh, t)"
    using assms(1-4) range_sum_split [of lo mid hi a] by (auto simp: started_def)
  note inv = started_inv [OF start]
  have final: "adding_inv a (range_sum a lo hi) (List.last ((sh, t) # ss))"
    using adders.run_reach [OF reach_init [where init = "started a (range_sum a lo hi)", OF start] assms(5)]
      adders.reach_inv by blast
  have "thread_work t \<le> 12 * (hi - lo) + 3" using assms(2-4) by auto
  then have "length ss \<le> 12 * (hi - lo) + 3" using adders.run_bound [OF inv assms(5)] by simp
  moreover have "holders (snd (List.last ((sh, t) # ss))) \<le> 1"
    using final by (auto simp: adding_inv_def split: prod.splits if_splits)
  moreover have "List.last ((sh, t) # ss) = (\<lparr>sh_locked = False, sh_sum = range_sum a lo hi\<rparr>, T_end)"
    if "stuck (thread_step a) (List.last ((sh, t) # ss))"
  proof -
    have "snd (List.last ((sh, t) # ss)) = T_end" by (rule adders.maximal_run_finished [OF inv assms(5) that])
    then show ?thesis
      using final by (cases "List.last ((sh, t) # ss)") (auto simp: adding_inv_def split: if_splits)
  qed
  ultimately show ?thesis by blast
qed

text \<open>The program itself: \<open>recursive_add\<close> prints 55.\<close>

theorem threads_add_sequentially_witness:
  "\<exists>ss. run (thread_step array) (\<lparr>sh_locked = False, sh_sum = 0\<rparr>, recursive_add) ss \<and>
     List.last ((\<lparr>sh_locked = False, sh_sum = 0\<rparr>, recursive_add) # ss) = (\<lparr>sh_locked = False, sh_sum = 55\<rparr>, T_end)"
proof -
  let ?s = "(\<lparr>sh_locked = False, sh_sum = 0\<rparr>, recursive_add)"
  have "range_sum array 0 10 = 55" by (simp add: range_sum_next array_def)
  moreover have "started array (range_sum array 0 10) ?s" by (simp add: started_def recursive_add_def)
  then obtain ss where "run (thread_step array) ?s ss" and "stuck (thread_step array) (List.last (?s # ss))"
    using adders.maximal_run [OF started_inv] by blast
  moreover from this have "List.last (?s # ss) = (\<lparr>sh_locked = False, sh_sum = range_sum array 0 10\<rparr>, T_end)"
    using threads_add_sequentially [OF refl, of recursive_add 0 10 5 array ss] by (simp add: recursive_add_def)
  ultimately show ?thesis by metis
qed

text \<open>Whatever the interleaving, \<open>main\<close> prints 55, with either of the two ways to add.\<close>

lemma main_prints_55:
  assumes "t \<in> {recursive_add, parallel_add}" and "run (thread_step array) (\<lparr>sh_locked = False, sh_sum = 0\<rparr>, t) ss"
    and "main_prints (List.last ((\<lparr>sh_locked = False, sh_sum = 0\<rparr>, t) # ss)) = Some out"
  shows "out = ''55'' @ [CHR 0x0A]"
proof -
  let ?s = "(\<lparr>sh_locked = False, sh_sum = 0\<rparr>, t)"
  have sums: "range_sum array 0 10 = 55" "range_sum array 0 5 + range_sum array 5 10 = 55"
    by (simp_all add: range_sum_next array_def)
  then have "started array 55 ?s"
    using assms(1) by (auto simp: started_def recursive_add_def parallel_add_def add_task_def)
  then have "adding_inv array 55 (List.last (?s # ss))"
    using adders.run_reach [OF reach_init [where init = "started array 55"] assms(2)] adders.reach_inv by blast
  then have "sh_sum (fst (List.last (?s # ss))) = 55"
    using assms(3) by (cases "List.last (?s # ss)" rule: main_prints.cases) (auto simp: adding_inv_def)
  then have "out = dec_int 55 @ [CHR 0x0A]"
    using assms(3) by (cases "List.last (?s # ss)" rule: main_prints.cases) auto
  then show ?thesis by (simp add: dec_int_def dec.simps char_of_def bit_0)
qed

section \<open>The interleaved addition\<close>

text \<open>
  \<open>interleaved_add\<close>: the first thread adds the first half under the mutex, sets the global index \<open>i\<close> on
  the way, and then broadcasts; the second waits for the condition, without testing anything, and goes
  on from \<open>i\<close>.  Each loop runs under the mutex, so it is one step here.  \<open>spurious\<close> says whether waits
  may return without a broadcast, as the standard permits.
\<close>

datatype ia_pc = A_lock | A_add | A_broadcast | A_exit

datatype ib_pc = B_lock | B_wait | B_sleep | B_woken | B_add | B_exit

record ia_state =
  ia_owned :: bool
  ia_sum :: c_int
  ia_i :: nat
  ia_first :: ia_pc
  ia_second :: ib_pc

inductive ia_step :: "bool \<Rightarrow> ia_state \<Rightarrow> ia_state \<Rightarrow> bool" for spurious :: bool where
  ia_lock: "ia_first s = A_lock \<Longrightarrow> \<not> ia_owned s \<Longrightarrow> ia_step spurious s (s\<lparr>ia_first := A_add, ia_owned := True\<rparr>)"
| ia_add: "ia_first s = A_add \<Longrightarrow> ia_step spurious s
     (s\<lparr>ia_first := A_broadcast, ia_owned := False, ia_i := 5, ia_sum := ia_sum s + range_sum array 0 5\<rparr>)"
| ia_broadcast: "ia_first s = A_broadcast \<Longrightarrow> ia_step spurious s
     (s\<lparr>ia_first := A_exit, ia_second := (if ia_second s = B_sleep then B_woken else ia_second s)\<rparr>)"
| ib_lock: "ia_second s = B_lock \<Longrightarrow> \<not> ia_owned s \<Longrightarrow> ia_step spurious s (s\<lparr>ia_second := B_wait, ia_owned := True\<rparr>)"
| ib_wait: "ia_second s = B_wait \<Longrightarrow> ia_step spurious s (s\<lparr>ia_second := B_sleep, ia_owned := False\<rparr>)"
| ib_spurious: "spurious \<Longrightarrow> ia_second s = B_sleep \<Longrightarrow> ia_step spurious s (s\<lparr>ia_second := B_woken\<rparr>)"
| ib_return: "ia_second s = B_woken \<Longrightarrow> \<not> ia_owned s \<Longrightarrow> ia_step spurious s (s\<lparr>ia_second := B_add, ia_owned := True\<rparr>)"
| ib_add: "ia_second s = B_add \<Longrightarrow> ia_step spurious s
     (s\<lparr>ia_second := B_exit, ia_owned := False, ia_i := max (ia_i s) 10, ia_sum := ia_sum s + range_sum array (ia_i s) 10\<rparr>)"

definition interleaved_add :: ia_state where
  "interleaved_add = \<lparr>ia_owned = False, ia_sum = 0, ia_i = 0, ia_first = A_lock, ia_second = B_lock\<rparr>"

lemma array_sums [simp]: "range_sum array 0 5 = 15" "range_sum array 5 10 = 40" "range_sum array 0 10 = 55"
  by (simp_all add: range_sum_next array_def)

definition ia_inv :: "ia_state \<Rightarrow> bool" where
  "ia_inv s \<longleftrightarrow>
     (ia_owned s \<longleftrightarrow> ia_first s = A_add \<or> ia_second s \<in> {B_wait, B_add}) \<and>
     \<not> (ia_first s = A_add \<and> ia_second s \<in> {B_wait, B_add}) \<and>
     (ia_first s \<noteq> A_exit \<longrightarrow> ia_second s \<in> {B_lock, B_wait, B_sleep}) \<and>
     ia_sum s = (if ia_first s \<in> {A_lock, A_add} then 0 else if ia_second s = B_exit then 55 else 15) \<and>
     (ia_first s \<in> {A_broadcast, A_exit} \<and> ia_second s \<noteq> B_exit \<longrightarrow> ia_i s = 5)"

lemma ia_inv_step: "ia_inv s \<Longrightarrow> ia_step False s t \<Longrightarrow> ia_inv t"
  by (erule ia_step.cases) (auto simp: ia_inv_def)

definition ia_over :: "ia_state \<Rightarrow> bool" where
  "ia_over s \<longleftrightarrow> ia_first s = A_exit \<and> ia_second s \<in> {B_sleep, B_exit}"

lemma ia_progress:
  assumes "ia_inv s" and "\<not> ia_over s"
  shows "\<exists>t. ia_step False s t"
proof (cases "ia_second s \<in> {B_wait, B_add} \<or> ia_first s \<in> {A_add, A_broadcast}")
  case True
  then show ?thesis using ia_add ia_broadcast ib_wait ib_add by blast
next
  case False
  then have "\<not> ia_owned s" and "ia_first s \<in> {A_lock, A_exit}"
    using assms(1) by (auto simp: ia_inv_def intro: ia_pc.exhaust [of "ia_first s"])
  then consider "ia_first s = A_lock" | "ia_second s = B_lock" | "ia_second s = B_woken"
    using False assms(2) by (cases "ia_second s") (auto simp: ia_over_def)
  then show ?thesis using \<open>\<not> ia_owned s\<close> ia_lock ib_lock ib_return by cases blast+
qed

interpretation interleaved: live_system "\<lambda>s. s = interleaved_add" "ia_step False" ia_inv ia_over
proof unfold_locales
  show "ia_inv s" if "s = interleaved_add" for s using that by (simp add: interleaved_add_def ia_inv_def)
qed (use ia_inv_step ia_progress in blast)+

text \<open>The broadcast comes before the second thread waits.\<close>

lemma wakeup_lost:
  "\<exists>s. reach (\<lambda>s. s = interleaved_add) (ia_step False) s \<and> ia_first s = A_exit \<and> ia_second s = B_sleep"
proof -
  define s1 where "s1 = interleaved_add\<lparr>ia_first := A_add, ia_owned := True\<rparr>"
  define s2 where "s2 = s1\<lparr>ia_first := A_broadcast, ia_owned := False, ia_i := 5, ia_sum := ia_sum s1 + range_sum array 0 5\<rparr>"
  define s3 where "s3 = s2\<lparr>ia_first := A_exit, ia_second := (if ia_second s2 = B_sleep then B_woken else ia_second s2)\<rparr>"
  define s4 where "s4 = s3\<lparr>ia_second := B_wait, ia_owned := True\<rparr>"
  define s5 where "s5 = s4\<lparr>ia_second := B_sleep, ia_owned := False\<rparr>"
  note defs = s1_def s2_def s3_def s4_def s5_def interleaved_add_def
  have "ia_step False interleaved_add s1" unfolding s1_def by (rule ia_lock) (simp_all add: defs)
  moreover have "ia_step False s1 s2" unfolding s2_def by (rule ia_add) (simp add: defs)
  moreover have "ia_step False s2 s3" unfolding s3_def by (rule ia_broadcast) (simp add: defs)
  moreover have "ia_step False s3 s4" unfolding s4_def by (rule ib_lock) (simp_all add: defs)
  moreover have "ia_step False s4 s5" unfolding s5_def by (rule ib_wait) (simp add: defs)
  ultimately have "reach (\<lambda>s. s = interleaved_add) (ia_step False) s5"
    using reach_along_run [OF reach_init [where init = "\<lambda>s. s = interleaved_add", OF refl], where ts = "[s1, s2, s3, s4, s5]"] by simp
  moreover have "ia_first s5 = A_exit" and "ia_second s5 = B_sleep" by (simp_all add: defs)
  ultimately show ?thesis by blast
qed

text \<open>The second thread wakes up before the first has begun and adds everything.\<close>

lemma early_wakeup:
  "\<exists>s. reach (\<lambda>s. s = interleaved_add) (ia_step True) s \<and> ia_first s = A_broadcast \<and> ia_second s = B_exit \<and> ia_sum s = 70"
proof -
  define s1 where "s1 = interleaved_add\<lparr>ia_second := B_wait, ia_owned := True\<rparr>"
  define s2 where "s2 = s1\<lparr>ia_second := B_sleep, ia_owned := False\<rparr>"
  define s3 where "s3 = s2\<lparr>ia_second := B_woken\<rparr>"
  define s4 where "s4 = s3\<lparr>ia_second := B_add, ia_owned := True\<rparr>"
  define s5 where "s5 = s4\<lparr>ia_second := B_exit, ia_owned := False, ia_i := max (ia_i s4) 10,
    ia_sum := ia_sum s4 + range_sum array (ia_i s4) 10\<rparr>"
  define s6 where "s6 = s5\<lparr>ia_first := A_add, ia_owned := True\<rparr>"
  define s7 where "s7 = s6\<lparr>ia_first := A_broadcast, ia_owned := False, ia_i := 5, ia_sum := ia_sum s6 + range_sum array 0 5\<rparr>"
  note defs = s1_def s2_def s3_def s4_def s5_def s6_def s7_def interleaved_add_def
  have "ia_step True interleaved_add s1" unfolding s1_def by (rule ib_lock) (simp_all add: defs)
  moreover have "ia_step True s1 s2" unfolding s2_def by (rule ib_wait) (simp add: defs)
  moreover have "ia_step True s2 s3" unfolding s3_def by (rule ib_spurious) (simp_all add: defs)
  moreover have "ia_step True s3 s4" unfolding s4_def by (rule ib_return) (simp_all add: defs)
  moreover have "ia_step True s4 s5" unfolding s5_def by (rule ib_add) (simp add: defs)
  moreover have "ia_step True s5 s6" unfolding s6_def by (rule ia_lock) (simp_all add: defs)
  moreover have "ia_step True s6 s7" unfolding s7_def by (rule ia_add) (simp add: defs)
  ultimately have "reach (\<lambda>s. s = interleaved_add) (ia_step True) s7"
    using reach_along_run [OF reach_init [where init = "\<lambda>s. s = interleaved_add", OF refl], where ts = "[s1, s2, s3, s4, s5, s6, s7]"] by simp
  moreover have "ia_first s7 = A_broadcast" and "ia_second s7 = B_exit" and "ia_sum s7 = 70" by (simp_all add: defs)
  ultimately show ?thesis by blast
qed

text \<open>
  The interleaved addition is right only by luck.  Without spurious wake-ups a run ends either with
  both threads gone and the sum 55, or, when the broadcast came first, with the second thread asleep
  forever and the sum 15; the latter does happen.  With a spurious wake-up the first half can be
  added twice, which gives 70.
\<close>

theorem interleaved_add_outcome:
  assumes "reach (\<lambda>s. s = interleaved_add) (ia_step False) s" and "stuck (ia_step False) s"
  shows "ia_first s = A_exit \<and> (ia_second s = B_exit \<and> ia_sum s = 55 \<or> ia_second s = B_sleep \<and> ia_sum s = 15) \<and>
     (\<exists>s. reach (\<lambda>s. s = interleaved_add) (ia_step False) s \<and> ia_first s = A_exit \<and> ia_second s = B_sleep) \<and>
     (\<exists>s. reach (\<lambda>s. s = interleaved_add) (ia_step True) s \<and> ia_first s = A_broadcast \<and> ia_second s = B_exit \<and> ia_sum s = 70)"
proof -
  have "ia_over s" using assms by (rule interleaved.no_deadlock)
  moreover have "ia_inv s" using assms(1) by (rule interleaved.reach_inv)
  ultimately have "ia_first s = A_exit \<and> (ia_second s = B_exit \<and> ia_sum s = 55 \<or> ia_second s = B_sleep \<and> ia_sum s = 15)"
    by (auto simp: ia_over_def ia_inv_def)
  then show ?thesis using wakeup_lost early_wakeup by blast
qed

theorem interleaved_add_outcome_witness:
  "\<exists>s. reach (\<lambda>s. s = interleaved_add) (ia_step False) s \<and> stuck (ia_step False) s \<and> ia_sum s = 15"
proof -
  obtain s where s: "reach (\<lambda>s. s = interleaved_add) (ia_step False) s" "ia_first s = A_exit" "ia_second s = B_sleep"
    using wakeup_lost by blast
  then have "stuck (ia_step False) s" by (auto simp: stuck_def elim: ia_step.cases)
  then show ?thesis using interleaved_add_outcome [OF s(1)] s by auto
qed

end
