(* ===== verification/Zeromq.thy ===== *)
theory Zeromq
  imports Stream_Sockets
begin

text \<open>
  The ZeroMQ benchmark \<^verbatim>\<open>source/zeromq\<close>.  The library itself is not part of the sources: its calls are
  events, and what the programs rely on is the hypothesis \<open>transfers\<close> about their replies.
\<close>

section \<open>The programs\<close>

text \<open>\<open>zmq_send\<close> of the first \<open>sz\<close> bytes, and \<open>zmq_recv\<close> into a buffer of \<open>sz\<close> bytes.\<close>

definition zmq_send :: "int \<Rightarrow> u8 list \<Rightarrow> int \<Rightarrow> int prog" where
  "zmq_send socket buffer sz =
     (if sz < 0 then halt_c (Undefined ''zmq_send with a negative size'')
      else sys_ret (Zmq (Zmq_send socket (take (nat sz) buffer))))"

definition zmq_recv :: "int \<Rightarrow> u8 list \<Rightarrow> int \<Rightarrow> (int \<times> u8 list) prog" where
  "zmq_recv socket buffer sz =
     (if sz < 0 then halt_c (Undefined ''zmq_recv with a negative size'')
      else bind_c (sys (Zmq (Zmq_recv socket sz))) (\<lambda>r.
        return_c (ret r, if ret r < 0 then buffer
          else take (nat sz) (dat r) @ drop (length (take (nat sz) (dat r))) buffer)))"

fun zmq_client_rounds :: "int \<Rightarrow> Arguments \<Rightarrow> nat \<Rightarrow> u8 list \<Rightarrow> u8 list prog" where
  "zmq_client_rounds socket args 0 buffer = return_c buffer"
| "zmq_client_rounds socket args (Suc left) buffer =
     bind_c (zmq_send socket buffer (sint (a_size args))) (\<lambda>r.
     if r < sint (a_size args) then throw ''Error sending on client-side''
     else bind_c (zmq_recv socket buffer (sint (a_size args))) (\<lambda>(r, buffer).
       if r < sint (a_size args) then throw ''Error receiving on client-side''
       else zmq_client_rounds socket args left buffer))"

definition zmq_client_communicate :: "int \<Rightarrow> Arguments \<Rightarrow> unit prog" where
  "zmq_client_communicate socket args =
     bind_c (malloc (sint (a_size args))) (\<lambda>buffer.
     bind_c (zmq_client_rounds socket args (nat (sint (a_count args))) buffer) (\<lambda>buffer.
     sys_do (Misc (Free 0))))"

definition zmq_cleanup :: "int \<Rightarrow> int \<Rightarrow> unit prog" where
  "zmq_cleanup context socket = seq_c (sys_do (Zmq (Zmq_close socket))) (sys_do (Zmq (Zmq_ctx_destroy context)))"

definition zmq_client_create_socket :: "int \<Rightarrow> bool \<Rightarrow> int prog" where
  "zmq_client_create_socket context use_tcp =
     bind_c (sys_ret (Zmq (Zmq_socket context False))) (\<lambda>socket.
     if socket = 0 then throw ''Error creating socket''
     else bind_c (sys_ret (Zmq (Zmq_connect socket (if use_tcp then ''tcp://localhost:6969'' else ''ipc:///tmp/zmq_ipc'')))) (\<lambda>r.
       if r = -1 then throw ''Error binding socket to address'' else return_c socket))"

definition zmq_create_context :: "int prog" where
  "zmq_create_context =
     bind_c (sys_ret (Zmq Zmq_ctx_new)) (\<lambda>context.
       if context = 0 then throw ''Error creating ZMQ context'' else return_c context)"

definition zmq_client_main :: "string \<Rightarrow> string list \<Rightarrow> int prog" where
  "zmq_client_main tail argv =
     (let use_tcp = check_flag tail ''tcp'' argv; args = parse_arguments argv in
      bind_c zmq_create_context (\<lambda>context.
      bind_c (zmq_client_create_socket context use_tcp) (\<lambda>socket.
      seq_c (zmq_client_communicate socket args)
      (seq_c (zmq_cleanup context socket) (return_c 0)))))"

fun zmq_server_rounds :: "int \<Rightarrow> Arguments \<Rightarrow> nat \<Rightarrow> u8 list \<times> Benchmarks \<Rightarrow> (u8 list \<times> Benchmarks) prog" where
  "zmq_server_rounds socket args 0 st = return_c st"
| "zmq_server_rounds socket args (Suc left) (buffer, bench) =
     bind_c now (\<lambda>t.
     bind_c (zmq_recv socket buffer (sint (a_size args))) (\<lambda>(r, buffer).
     if r < sint (a_size args) then throw ''Error receiving on server-side''
     else (let buffer = replicate (nat (sint (a_size args))) 0x2A @ drop (nat (sint (a_size args))) buffer in
       bind_c (zmq_send socket buffer (sint (a_size args))) (\<lambda>r.
       if r < sint (a_size args) then throw ''Error sending on server-side''
       else bind_c (benchmark (bench\<lparr>b_single_start := t\<rparr>)) (\<lambda>bench.
         zmq_server_rounds socket args left (buffer, bench))))))"

definition zmq_server_communicate :: "Benchmarks \<Rightarrow> int \<Rightarrow> Arguments \<Rightarrow> report prog" where
  "zmq_server_communicate bench0 socket args =
     bind_c (malloc (sint (a_size args))) (\<lambda>buffer.
     bind_c (setup_benchmarks bench0) (\<lambda>bench.
     bind_c (zmq_server_rounds socket args (nat (sint (a_count args))) (buffer, bench)) (\<lambda>(buffer, bench).
     bind_c (evaluate bench args) (\<lambda>report.
     seq_c (sys_do (Misc (Free 0))) (return_c report)))))"

definition zmq_server_create_socket :: "int \<Rightarrow> bool \<Rightarrow> int prog" where
  "zmq_server_create_socket context use_tcp =
     bind_c (sys_ret (Zmq (Zmq_socket context True))) (\<lambda>socket.
     if socket = 0 then throw ''Error creating socket''
     else bind_c (sys_ret (Zmq (Zmq_bind socket (if use_tcp then ''tcp://*:6969'' else ''ipc:///tmp/zmq_ipc'')))) (\<lambda>r.
       if r = -1 then throw ''Error binding socket to address'' else return_c socket))"

definition zmq_server_cleanup :: "int \<Rightarrow> int \<Rightarrow> unit prog" where
  "zmq_server_cleanup context socket = seq_c (sys_do (Zmq (Zmq_close socket))) (sys_do (Zmq (Zmq_ctx_destroy context)))"

definition zmq_server_create_context :: "int prog" where
  "zmq_server_create_context =
     bind_c (sys_ret (Zmq Zmq_ctx_new)) (\<lambda>context.
       if context = 0 then throw ''Error creating ZMQ context'' else return_c context)"

definition zmq_server_main :: "string \<Rightarrow> Benchmarks \<Rightarrow> string list \<Rightarrow> report prog" where
  "zmq_server_main tail bench0 argv =
     (let use_tcp = check_flag tail ''tcp'' argv; args = parse_arguments argv in
      bind_c zmq_server_create_context (\<lambda>context.
      bind_c (zmq_server_create_socket context use_tcp) (\<lambda>socket.
      bind_c (zmq_server_communicate bench0 socket args) (\<lambda>report.
      seq_c (zmq_server_cleanup context socket) (return_c report)))))"

section \<open>Rounds\<close>

text \<open>The documented behaviour of the library's blocking calls on messages of the agreed size.\<close>

definition transfers :: "os \<Rightarrow> int \<Rightarrow> nat \<Rightarrow> bool" where
  "transfers os socket sz \<longleftrightarrow>
     (\<forall>calls. ret (os calls (Zmq (Zmq_recv socket (int sz)))) = int sz \<and>
        length (dat (os calls (Zmq (Zmq_recv socket (int sz))))) = sz) \<and>
     (\<forall>calls bs. ret (os calls (Zmq (Zmq_send socket bs))) = int (length bs))"

definition server_round_calls :: "int \<Rightarrow> nat \<Rightarrow> call list" where
  "server_round_calls socket sz =
     [Misc Timespec_get, Zmq (Zmq_recv socket (int sz)), Zmq (Zmq_send socket (replicate sz 0x2A)), Misc Timespec_get]"

lemma zmq_recv_run:
  assumes "transfers (w_os w) socket (nat sz)" and "0 \<le> sz"
  shows "\<exists>buffer' w'. zmq_recv socket buffer sz w = (Inr (sz, buffer'), w') \<and>
     w_calls w' = w_calls w @ [Zmq (Zmq_recv socket sz)] \<and> w_os w' = w_os w"
  using assms by (simp add: zmq_recv_def transfers_def sys_def Let_def prog_simps)

lemma zmq_send_run:
  assumes "transfers (w_os w) socket (nat sz)" and "0 \<le> sz" and "nat sz \<le> length buffer"
  shows "\<exists>w'. zmq_send socket buffer sz w = (Inr sz, w') \<and>
     w_calls w' = w_calls w @ [Zmq (Zmq_send socket (take (nat sz) buffer))] \<and> w_os w' = w_os w"
  using assms by (simp add: zmq_send_def transfers_def sys_def Let_def prog_simps)

lemma zmq_server_one:
  assumes "transfers (w_os w) socket (nat (sint (a_size args)))" and "0 \<le> sint (a_size args)"
  shows "\<exists>buffer' bench' w'. zmq_server_rounds socket args (Suc left) (buffer, bench) w =
       zmq_server_rounds socket args left (buffer', bench') w' \<and> b_count bench' = b_count bench + 1 \<and>
     w_os w' = w_os w \<and> w_calls w' = w_calls w @ server_round_calls socket (nat (sint (a_size args)))"
proof -
  let ?sz = "sint (a_size args)"
  obtain t w1 where w1: "now w = (Inr t, w1)" "w_calls w1 = w_calls w @ [Misc Timespec_get]" "w_os w1 = w_os w"
    using now_run by blast
  obtain b w2 where w2: "zmq_recv socket buffer ?sz w1 = (Inr (?sz, b), w2)"
    "w_calls w2 = w_calls w1 @ [Zmq (Zmq_recv socket ?sz)]" "w_os w2 = w_os w1"
    using zmq_recv_run [of w1 socket ?sz buffer] assms w1(3) by auto
  define b' where "b' = replicate (nat ?sz) 0x2A @ drop (nat ?sz) b"
  obtain w3 where w3: "zmq_send socket b' ?sz w2 = (Inr ?sz, w3)"
    "w_calls w3 = w_calls w2 @ [Zmq (Zmq_send socket (replicate (nat ?sz) 0x2A))]" "w_os w3 = w_os w2"
    using zmq_send_run [of w2 socket ?sz b'] assms w1(3) w2(3) by (auto simp: b'_def)
  obtain u w4 where w4: "benchmark (bench\<lparr>b_single_start := t\<rparr>) w3 = (Inr (benchmark_at (bench\<lparr>b_single_start := t\<rparr>) u), w4)"
    "w_calls w4 = w_calls w3 @ [Misc Timespec_get]" "w_os w4 = w_os w3"
    using benchmark_run by blast
  have "zmq_server_rounds socket args (Suc left) (buffer, bench) w =
      zmq_server_rounds socket args left (b', benchmark_at (bench\<lparr>b_single_start := t\<rparr>) u) w4"
    by (simp add: bind_fst_return [where p = now, OF w1(1)] bind_fst_return [where p = "zmq_recv socket buffer ?sz", OF w2(1)]
        bind_fst_return [where p = "zmq_send socket b' ?sz", OF w3(1)] Let_def b'_def [symmetric]
        bind_fst_return [where p = "benchmark (bench\<lparr>b_single_start := t\<rparr>)", OF w4(1)])
  then show ?thesis
    using w1 w2 w3 w4 assms(2) by (auto simp: server_round_calls_def intro!: exI)
qed

text \<open>
  The ZeroMQ server counts its messages.  With a library that transfers messages of the agreed size
  completely, \<open>count\<close> rounds take exactly one clock reading, one receive, one answer of \<open>size\<close> stars and
  one more clock reading each, none fails, and every one is counted.
\<close>

theorem zmq_server_counts:
  assumes "transfers (w_os w) socket (nat (sint (a_size args)))" and "0 \<le> sint (a_size args)"
  shows "\<exists>buffer' bench' w'. zmq_server_rounds socket args n (buffer, bench) w = (Inr (buffer', bench'), w') \<and>
     b_count bench' = b_count bench + of_nat n \<and>
     w_calls w' = w_calls w @ concat (replicate n (server_round_calls socket (nat (sint (a_size args)))))"
  using assms(1)
proof (induction n arbitrary: buffer bench w)
  case 0
  then show ?case by (simp add: return_c_def)
next
  case (Suc n)
  obtain buffer1 bench1 w1 where one: "zmq_server_rounds socket args (Suc n) (buffer, bench) w =
       zmq_server_rounds socket args n (buffer1, bench1) w1" "b_count bench1 = b_count bench + 1"
     "w_os w1 = w_os w" "w_calls w1 = w_calls w @ server_round_calls socket (nat (sint (a_size args)))"
    using zmq_server_one [OF Suc.prems assms(2)] by blast
  from Suc.IH [of w1 buffer1 bench1] obtain buffer2 bench2 w2 where
    "zmq_server_rounds socket args n (buffer1, bench1) w1 = (Inr (buffer2, bench2), w2)"
    "b_count bench2 = b_count bench1 + of_nat n"
    "w_calls w2 = w_calls w1 @ concat (replicate n (server_round_calls socket (nat (sint (a_size args)))))"
    using one(3) Suc.prems by auto
  then show ?case using one by (auto simp: algebra_simps)
qed

definition sample_zmq_world :: world where
  "sample_zmq_world = \<lparr>w_os = (\<lambda>_ c. case c of
       Zmq (Zmq_recv _ sz) \<Rightarrow> \<lparr>ret = sz, err = 0, dat = replicate (nat sz) 0x31, nums = [], addrs = []\<rparr>
     | Zmq (Zmq_send _ bs) \<Rightarrow> ok_reply (int (length bs))
     | _ \<Rightarrow> ok_reply 1), w_calls = [], w_errno = 0\<rparr>"

theorem zmq_server_counts_witness:
  "\<exists>buffer' bench' w'. zmq_server_rounds 5 \<lparr>a_size = 4, a_count = 3\<rparr> 3 ([], sample_bench) sample_zmq_world =
     (Inr (buffer', bench'), w') \<and> b_count bench' = 3"
  using zmq_server_counts [of sample_zmq_world 5 "\<lparr>a_size = 4, a_count = 3\<rparr>" 3 "[]" sample_bench]
  by (auto simp: transfers_def sample_zmq_world_def sample_bench_def)

end
