(* ===== verification/Socket_Demos.thy ===== *)
theory Socket_Demos
  imports Stream_Sockets
begin

text \<open>
  The stand-alone socket programs beside the benchmarks: \<^verbatim>\<open>source/tcp/other\<close> (a greeting server in two
  versions, its client, and a name look-up) and \<^verbatim>\<open>other/fexp\<close> (a UNIX-domain server and client).  The
  textual form of an address, which \<open>inet_ntop\<close> computes, is the parameter \<open>ntop\<close>.
\<close>

section \<open>Shared pieces\<close>

definition AF_INET :: int where "AF_INET = 2"

text \<open>The address proper inside a \<open>sockaddr\<close>: \<open>sin_addr\<close> or \<open>sin6_addr\<close>.\<close>

definition get_in_addr :: "int \<Rightarrow> u8 list \<Rightarrow> u8 list" where
  "get_in_addr family sa = (if family = AF_INET then take 4 (drop 4 sa) else take 16 (drop 8 sa))"

definition print_address :: "(int \<Rightarrow> u8 list \<Rightarrow> string) \<Rightarrow> addrinfo \<Rightarrow> unit prog" where
  "print_address ntop a =
     (let type = (if ai_family a = AF_INET then ''IPv4'' else ''IPv6'');
          ip = ntop (ai_family a) (get_in_addr (ai_family a) (ai_addr a))
      in sys_do (Misc (Printf (type @ '': '' @ ip @ '' ... ''))))"

text \<open>The copies of these functions in the other programs; the one in the benchmark is never called.\<close>

definition tcp_print_address :: "(int \<Rightarrow> u8 list \<Rightarrow> string) \<Rightarrow> addrinfo \<Rightarrow> unit prog" where
  "tcp_print_address ntop a =
     (let (address, type) =
            (if ai_family a = AF_INET then (take 4 (drop 4 (ai_addr a)), ''IPv4'')
             else (take 16 (drop 8 (ai_addr a)), ''IPv6''))
      in sys_do (Misc (Printf (type @ '': '' @ ntop (ai_family a) address @ '' ... ''))))"

definition ip_print_address :: "(int \<Rightarrow> u8 list \<Rightarrow> string) \<Rightarrow> addrinfo \<Rightarrow> unit prog" where
  "ip_print_address ntop a =
     (let (address, type) =
            (if ai_family a = AF_INET then (take 4 (drop 4 (ai_addr a)), ''IPv4'')
             else (take 16 (drop 8 (ai_addr a)), ''IPv6''))
      in sys_do (Misc (Printf (type @ '': '' @ ntop (ai_family a) address @ '' ... ''))))"

definition model_server_get_in_addr :: "int \<Rightarrow> u8 list \<Rightarrow> u8 list" where
  "model_server_get_in_addr family sa = (if family = AF_INET then take 4 (drop 4 sa) else take 16 (drop 8 sa))"

definition model_client_get_in_addr :: "int \<Rightarrow> u8 list \<Rightarrow> u8 list" where
  "model_client_get_in_addr family sa = (if family = AF_INET then take 4 (drop 4 sa) else take 16 (drop 8 sa))"

lemma address_copies:
  "tcp_print_address = print_address" "ip_print_address = print_address"
  "model_server_get_in_addr = get_in_addr" "model_client_get_in_addr = get_in_addr"
  by (auto simp: fun_eq_iff tcp_print_address_def ip_print_address_def print_address_def get_in_addr_def
      model_server_get_in_addr_def model_client_get_in_addr_def)

definition perror :: "string \<Rightarrow> unit prog" where
  "perror s = sys_do (Misc (Perror s))"

definition fail_with :: "string \<Rightarrow> 'a prog" where
  "fail_with s = seq_c (perror s) (halt_c (Exited 1))"

text \<open>The handler collects every child that has ended and leaves \<open>errno\<close> as it was.\<close>

fun reap :: "nat \<Rightarrow> unit prog" where
  "reap 0 = halt_c Running"
| "reap (Suc n) = bind_c (sys_ret (Proc Waitpid)) (\<lambda>r. if r > 0 then reap n else return_c ())"

definition sigchld_handler :: "nat \<Rightarrow> unit prog" where
  "sigchld_handler n =
     bind_c get_errno (\<lambda>saved_errno. seq_c (reap n) (\<lambda>w. (Inr (), w\<lparr>w_errno := saved_errno\<rparr>)))"

text \<open>The same handler in the reference server.\<close>

definition model_sigchld_handler :: "nat \<Rightarrow> unit prog" where
  "model_sigchld_handler n =
     bind_c get_errno (\<lambda>saved_errno. seq_c (reap n) (\<lambda>w. (Inr (), w\<lparr>w_errno := saved_errno\<rparr>)))"

text \<open>
  It makes exactly one call more than there are children to collect, and \<open>errno\<close>, which the last call may
  set, is what it was.
\<close>

lemma reap_counts:
  assumes "\<forall>i<k. ret (w_os w (w_calls w @ replicate i (Proc Waitpid)) (Proc Waitpid)) > 0"
    and "ret (w_os w (w_calls w @ replicate k (Proc Waitpid)) (Proc Waitpid)) \<le> 0" and "k < n"
  shows "fst (reap n w) = Inr () \<and> w_calls (snd (reap n w)) = w_calls w @ replicate (Suc k) (Proc Waitpid)"
  using assms
proof (induction k arbitrary: n w)
  case 0
  then show ?case by (cases n) (simp_all add: prog_simps sys_def Let_def)
next
  case (Suc k)
  obtain m where n: "n = Suc m" and m: "k < m" using Suc.prems(3) by (cases n) auto
  define w1 where "w1 = snd (sys (Proc Waitpid) w)"
  have w1: "w_os w1 = w_os w" "w_calls w1 = w_calls w @ [Proc Waitpid]" by (simp_all add: w1_def sys_def Let_def)
  have "ret (w_os w (w_calls w) (Proc Waitpid)) > 0" using Suc.prems(1) by force
  then have "reap n w = reap m w1" by (simp add: n w1_def prog_simps sys_def Let_def)
  moreover have "ret (w_os w1 (w_calls w1 @ replicate i (Proc Waitpid)) (Proc Waitpid)) > 0" if "i < k" for i
    using Suc.prems(1) [rule_format, of "Suc i"] that by (simp add: w1)
  moreover have "ret (w_os w1 (w_calls w1 @ replicate k (Proc Waitpid)) (Proc Waitpid)) \<le> 0"
    using Suc.prems(2) by (simp add: w1)
  ultimately show ?case using Suc.IH [of w1 m] m by (simp add: w1)
qed

lemma handler_collects:
  assumes "\<forall>i<k. ret (w_os w (w_calls w @ replicate i (Proc Waitpid)) (Proc Waitpid)) > 0"
    and "ret (w_os w (w_calls w @ replicate k (Proc Waitpid)) (Proc Waitpid)) \<le> 0" and "k < n"
    and "handler \<in> {sigchld_handler, model_sigchld_handler}"
  shows "fst (handler n w) = Inr () \<and> w_errno (snd (handler n w)) = w_errno w \<and>
     w_calls (snd (handler n w)) = w_calls w @ replicate (Suc k) (Proc Waitpid)"
  using reap_counts [OF assms(1-3)] assms(4)
  by (cases "reap n w") (auto simp: sigchld_handler_def model_sigchld_handler_def bind_c_def seq_c_def get_errno_def)

section \<open>The greeting server\<close>

definition DEMO_PORT :: string where "DEMO_PORT = ''3490''"

text \<open>\<open>bind\<close> is compared with 1 here, and the loop ends after the first socket in any case.\<close>

fun demo_get_address :: "(int \<Rightarrow> u8 list \<Rightarrow> string) \<Rightarrow> addrinfo list \<Rightarrow> int \<Rightarrow> (addrinfo option \<times> int) prog" where
  "demo_get_address ntop [] socket_fd = return_c (None, socket_fd)"
| "demo_get_address ntop (a # as) socket_fd =
     seq_c (print_address ntop a)
     (bind_c (sys_ret (Sock (Socket (ai_family a) (ai_socktype a) (ai_protocol a)))) (\<lambda>socket_fd.
      if socket_fd = -1 then seq_c (perror ''could not connect!'') (demo_get_address ntop as socket_fd)
      else bind_c (sys_ret (Sock (Setsockopt socket_fd SO_REUSEADDR [1]))) (\<lambda>r.
        if r = -1 then fail_with ''could not reclaim socket!''
        else bind_c (sys_ret (Sock (Bind socket_fd (ai_addr a)))) (\<lambda>r.
          seq_c (when_c (r = 1) (seq_c (sys_do (File (Close socket_fd))) (perror ''could not bind socket to address!'')))
          (return_c (Some a, socket_fd))))))"

definition greeting :: "u8 list" where
  "greeting = map (\<lambda>c. of_nat (of_char c)) ''Hello, world!''"

text \<open>One connection; the child greets and exits, the parent closes its copy.  The reply to \<open>accept\<close>
  carries the peer's family and address.\<close>

definition demo_accept :: "(int \<Rightarrow> u8 list \<Rightarrow> string) \<Rightarrow> int \<Rightarrow> unit \<Rightarrow> unit prog" where
  "demo_accept ntop socket_fd _ =
     bind_c (sys (Sock (Accept socket_fd))) (\<lambda>o'.
     if ret o' = -1 then fail_with ''Error accepting!''
     else seq_c (sys_do (Misc (Printf (''Server: Conneted to: '' @ ntop (nums o' ! 0) (get_in_addr (nums o' ! 0) (dat o')) @ [CHR 0x0A]))))
       (bind_c (sys_ret (Proc Fork)) (\<lambda>pid.
        if pid = 0 then
          seq_c (sys_do (File (Close socket_fd)))
          (bind_c (sys_ret (Sock (Send (ret o') greeting))) (\<lambda>r.
           if r = -1 then fail_with ''Failed to send message to connected client!''
           else seq_c (sys_do (File (Close (ret o')))) (halt_c (Exited 0))))
        else sys_do (File (Close (ret o'))))))"

definition demo_server_main :: "nat \<Rightarrow> (int \<Rightarrow> u8 list \<Rightarrow> string) \<Rightarrow> int \<Rightarrow> int prog" where
  "demo_server_main n ntop sd0 =
     bind_c (sys (Sock (Getaddrinfo [] DEMO_PORT AF_UNSPEC SOCK_STREAM))) (\<lambda>r.
     if ret r \<noteq> 0 then seq_c (print_error ''getaddrinfo failed: '') (halt_c (Exited 1))
     else bind_c (demo_get_address ntop (addrs r) sd0) (\<lambda>(it, socket_fd).
       seq_c (sys_do (Sock Freeaddrinfo))
       (if it = None then fail_with ''Could not find valid address!''
        else bind_c (sys_ret (Sock (Listen socket_fd 10))) (\<lambda>r.
          if r = 1 then fail_with ''Could not start listening on socket!''
          else seq_c (sys_do (Misc (Printf ''Server: Wainting for connections ...'')))
            (forever_c n (demo_accept ntop socket_fd) ())))))"

section \<open>The reference server and client\<close>

text \<open>Here failures are -1, and an address that cannot be bound or connected is passed over.\<close>

fun model_server_get_address :: "addrinfo list \<Rightarrow> int \<Rightarrow> (addrinfo option \<times> int) prog" where
  "model_server_get_address [] sockfd = return_c (None, sockfd)"
| "model_server_get_address (p # ps) sockfd =
     bind_c (sys_ret (Sock (Socket (ai_family p) (ai_socktype p) (ai_protocol p)))) (\<lambda>sockfd.
     if sockfd = -1 then seq_c (perror ''server: socket'') (model_server_get_address ps sockfd)
     else bind_c (sys_ret (Sock (Setsockopt sockfd SO_REUSEADDR [1]))) (\<lambda>r.
       if r = -1 then fail_with ''setsockopt''
       else bind_c (sys_ret (Sock (Bind sockfd (ai_addr p)))) (\<lambda>r.
         if r = -1 then seq_c (sys_do (File (Close sockfd))) (seq_c (perror ''server: bind'') (model_server_get_address ps sockfd))
         else return_c (Some p, sockfd))))"

definition model_accept :: "(int \<Rightarrow> u8 list \<Rightarrow> string) \<Rightarrow> int \<Rightarrow> unit \<Rightarrow> unit prog" where
  "model_accept ntop sockfd _ =
     bind_c (sys (Sock (Accept sockfd))) (\<lambda>o'.
     if ret o' = -1 then perror ''accept''
     else seq_c (sys_do (Misc (Printf (''server: got connection from '' @ ntop (nums o' ! 0) (model_server_get_in_addr (nums o' ! 0) (dat o')) @ [CHR 0x0A]))))
       (bind_c (sys_ret (Proc Fork)) (\<lambda>pid.
        if pid = 0 then
          seq_c (sys_do (File (Close sockfd)))
          (bind_c (sys_ret (Sock (Send (ret o') greeting))) (\<lambda>r.
           seq_c (when_c (r = -1) (perror ''send''))
           (seq_c (sys_do (File (Close (ret o')))) (halt_c (Exited 0)))))
        else sys_do (File (Close (ret o'))))))"

definition model_server_main :: "nat \<Rightarrow> (int \<Rightarrow> u8 list \<Rightarrow> string) \<Rightarrow> int \<Rightarrow> int prog" where
  "model_server_main n ntop sd0 =
     bind_c (sys (Sock (Getaddrinfo [] DEMO_PORT AF_UNSPEC SOCK_STREAM))) (\<lambda>r.
     if ret r \<noteq> 0 then seq_c (print_error ''getaddrinfo: '') (return_c 1)
     else bind_c (model_server_get_address (addrs r) sd0) (\<lambda>(p, sockfd).
       seq_c (sys_do (Sock Freeaddrinfo))
       (if p = None then seq_c (print_error ''server: failed to bind'') (halt_c (Exited 1))
        else bind_c (sys_ret (Sock (Listen sockfd 10))) (\<lambda>r.
          if r = -1 then fail_with ''listen''
          else bind_c (sys_ret (Proc Sigaction_chld)) (\<lambda>r.
            if r = -1 then fail_with ''sigaction''
            else seq_c (sys_do (Misc (Printf (''server: waiting for connections...'' @ [CHR 0x0A]))))
              (forever_c n (model_accept ntop sockfd) ()))))))"

fun model_client_connect :: "addrinfo list \<Rightarrow> int \<Rightarrow> (addrinfo option \<times> int) prog" where
  "model_client_connect [] sockfd = return_c (None, sockfd)"
| "model_client_connect (p # ps) sockfd =
     bind_c (sys_ret (Sock (Socket (ai_family p) (ai_socktype p) (ai_protocol p)))) (\<lambda>sockfd.
     if sockfd = -1 then seq_c (perror ''client: socket'') (model_client_connect ps sockfd)
     else bind_c (sys_ret (Sock (Connect sockfd (ai_addr p)))) (\<lambda>r.
       if r = -1 then seq_c (perror ''client: connect'') (seq_c (sys_do (File (Close sockfd))) (model_client_connect ps sockfd))
       else return_c (Some p, sockfd)))"

text \<open>What \<open>%s\<close> prints of a buffer.\<close>

definition c_string :: "u8 list \<Rightarrow> string" where
  "c_string bs = map (\<lambda>b. char_of (unat b)) (takeWhile (\<lambda>b. b \<noteq> 0) bs)"

definition model_client_main :: "(int \<Rightarrow> u8 list \<Rightarrow> string) \<Rightarrow> int \<Rightarrow> string list \<Rightarrow> int prog" where
  "model_client_main ntop sd0 argv =
     (if length argv \<noteq> 2 then seq_c (print_error ''usage: client hostname'') (halt_c (Exited 1))
      else bind_c (sys (Sock (Getaddrinfo (argv ! 1) DEMO_PORT AF_UNSPEC SOCK_STREAM))) (\<lambda>r.
        if ret r \<noteq> 0 then seq_c (print_error ''getaddrinfo: '') (return_c 1)
        else bind_c (model_client_connect (addrs r) sd0) (\<lambda>(p, sockfd).
          case p of None \<Rightarrow> seq_c (print_error ''client: failed to connect'') (return_c 2)
          | Some p \<Rightarrow>
              seq_c (sys_do (Misc (Printf (''client: connecting to '' @ ntop (ai_family p) (model_client_get_in_addr (ai_family p) (ai_addr p)) @ [CHR 0x0A]))))
              (seq_c (sys_do (Sock Freeaddrinfo))
              (bind_c (sys (Sock (Recv sockfd 99))) (\<lambda>r.
               if ret r = -1 then fail_with ''recv''
               else seq_c (sys_do (Misc (Printf (''client: received '' @ [CHR 0x27] @ c_string (take (nat (ret r)) (dat r)) @ [CHR 0x27, CHR 0x0A]))))
                 (seq_c (sys_do (File (Close sockfd))) (return_c 0))))))))"

section \<open>The look-up\<close>

fun print_all :: "(int \<Rightarrow> u8 list \<Rightarrow> string) \<Rightarrow> addrinfo list \<Rightarrow> unit prog" where
  "print_all ntop [] = return_c ()"
| "print_all ntop (a # as) = seq_c (ip_print_address ntop a) (print_all ntop as)"

definition ip_main :: "(int \<Rightarrow> u8 list \<Rightarrow> string) \<Rightarrow> string list \<Rightarrow> int prog" where
  "ip_main ntop argv =
     (if length argv < 2 then seq_c (print_error ''usage: ip hostname'') (return_c 1)
      else bind_c (sys (Sock (Getaddrinfo (argv ! 1) [] AF_UNSPEC SOCK_STREAM))) (\<lambda>r.
        if ret r \<noteq> 0 then seq_c (print_error ''getaddrinfo: '') (return_c 2)
        else seq_c (sys_do (Misc (Printf (''IP addresses for '' @ argv ! 1 @ '':'' @ [CHR 0x0A, CHR 0x0A]))))
          (seq_c (print_all ntop (addrs r))
          (seq_c (sys_do (Sock Freeaddrinfo)) (return_c 0)))))"

section \<open>The UNIX-domain pair\<close>

text \<open>\<open>buffer[nbytes] = 0\<close> on a buffer of 256 bytes.\<close>

definition terminate_buffer :: "int \<Rightarrow> u8 list \<Rightarrow> u8 list prog" where
  "terminate_buffer nbytes bs =
     (if 0 \<le> nbytes \<and> nbytes < 256 then return_c (take (nat nbytes) bs @ [0])
      else halt_c (Undefined ''write outside the buffer''))"

definition ascii :: "string \<Rightarrow> u8 list" where
  "ascii s = map (\<lambda>c. of_nat (of_char c)) s"

definition connection_handler :: "int \<Rightarrow> int prog" where
  "connection_handler connection_fd =
     bind_c (sys (File (Read connection_fd 256))) (\<lambda>r.
     bind_c (terminate_buffer (ret r) (dat r)) (\<lambda>buffer.
     seq_c (sys_do (Misc (Printf (''MESSAGE FROM CLIENT: '' @ c_string buffer @ [CHR 0x0A]))))
     (seq_c (sys_do (File (Write connection_fd (ascii ''hello from the server''))))
     (seq_c (sys_do (File (Close connection_fd))) (return_c 0)))))"

fun fexp_accept_loop :: "nat \<Rightarrow> int \<Rightarrow> int prog" where
  "fexp_accept_loop 0 socket_fd = halt_c Running"
| "fexp_accept_loop (Suc n) socket_fd =
     bind_c (sys_ret (Sock (Accept socket_fd))) (\<lambda>connection_fd.
     if connection_fd > -1 then
       bind_c (sys_ret (Proc Fork)) (\<lambda>child.
         if child = 0 then connection_handler connection_fd
         else seq_c (sys_do (File (Close connection_fd))) (fexp_accept_loop n socket_fd))
     else seq_c (sys_do (File (Close socket_fd))) (seq_c (sys_do (File (Unlink ''./demo_socket''))) (return_c 0)))"

definition fexp_server_main :: "nat \<Rightarrow> int prog" where
  "fexp_server_main n =
     bind_c (sys_ret (Sock (Socket AF_UNIX SOCK_STREAM 0))) (\<lambda>socket_fd.
     if socket_fd < 0 then seq_c (sys_do (Misc (Printf (''socket() failed'' @ [CHR 0x0A])))) (return_c 1)
     else seq_c (sys_do (File (Unlink ''./demo_socket'')))
       (bind_c (sys_ret (Sock (Bind_un socket_fd ''./demo_socket''))) (\<lambda>r.
        if r \<noteq> 0 then seq_c (sys_do (Misc (Printf (''bind() failed'' @ [CHR 0x0A])))) (return_c 1)
        else bind_c (sys_ret (Sock (Listen socket_fd 5))) (\<lambda>r.
          if r \<noteq> 0 then seq_c (sys_do (Misc (Printf (''listen() failed'' @ [CHR 0x0A])))) (return_c 1)
          else fexp_accept_loop n socket_fd))))"

definition client_message :: "u8 list" where
  "client_message = ascii ''hello from a client'' @ replicate (256 - 19) 0x2A"

definition fexp_client_main :: "int prog" where
  "fexp_client_main =
     bind_c (sys_ret (Sock (Socket AF_UNIX SOCK_STREAM 0))) (\<lambda>socket_fd.
     if socket_fd < 0 then seq_c (sys_do (Misc (Printf (''socket() failed'' @ [CHR 0x0A])))) (return_c 1)
     else bind_c (sys_ret (Sock (Connect_un socket_fd ''./demo_socket''))) (\<lambda>r.
       if r \<noteq> 0 then seq_c (sys_do (Misc (Printf (''connect() failed'' @ [CHR 0x0A])))) (return_c 1)
       else seq_c (sys_do (File (Write socket_fd client_message)))
         (bind_c (sys (File (Read socket_fd 256))) (\<lambda>r.
          bind_c (terminate_buffer (ret r) (dat r)) (\<lambda>buffer.
          seq_c (sys_do (Misc (Printf (''MESSAGE FROM SERVER: '' @ c_string buffer @ [CHR 0x0A]))))
          (seq_c (sys_do (File (Close socket_fd))) (return_c 0)))))))"

section \<open>Which address a server takes\<close>

text \<open>A system whose replies depend on the call alone: the address gets a socket, and can be bound.\<close>

definition gets_socket :: "(call \<Rightarrow> reply) \<Rightarrow> addrinfo \<Rightarrow> bool" where
  "gets_socket f a \<longleftrightarrow> ret (f (Sock (Socket (ai_family a) (ai_socktype a) (ai_protocol a)))) \<noteq> -1"

definition can_bind :: "(call \<Rightarrow> reply) \<Rightarrow> addrinfo \<Rightarrow> bool" where
  "can_bind f a \<longleftrightarrow> gets_socket f a \<and>
     ret (f (Sock (Bind (ret (f (Sock (Socket (ai_family a) (ai_socktype a) (ai_protocol a))))) (ai_addr a)))) \<noteq> -1"

text \<open>
  The reference server takes the first address it can bind, and knows when there is none; the greeting
  server takes the first address that gets a socket, bound or not.
\<close>

lemma model_server_takes:
  assumes "w_os w = (\<lambda>_. f)" and "\<forall>fd. ret (f (Sock (Setsockopt fd SO_REUSEADDR [1]))) \<noteq> -1"
  shows "\<exists>fd. fst (model_server_get_address as sd w) = Inr (List.find (can_bind f) as, fd)"
  using assms(1)
proof (induction as arbitrary: sd w)
  case Nil
  then show ?case by (simp add: return_c_def)
next
  case (Cons a as)
  then show ?case
    using assms(2) by (auto simp: can_bind_def gets_socket_def perror_def fail_with_def sys_def Let_def prog_simps)
qed

lemma demo_server_takes:
  assumes "w_os w = (\<lambda>_. f)" and "\<forall>fd. ret (f (Sock (Setsockopt fd SO_REUSEADDR [1]))) \<noteq> -1"
  shows "\<exists>fd. fst (demo_get_address ntop as sd w) = Inr (List.find (gets_socket f) as, fd)"
  using assms(1)
proof (induction as arbitrary: sd w)
  case Nil
  then show ?case by (simp add: return_c_def)
next
  case (Cons a as)
  then show ?case
    using assms(2)
    by (auto simp: gets_socket_def print_address_def perror_def fail_with_def sys_def Let_def prog_simps)
qed

lemma sigchld_keeps_errno: "fst (sigchld_handler n w) = Inr () \<Longrightarrow> w_errno (snd (sigchld_handler n w)) = w_errno w"
  by (auto simp: sigchld_handler_def prog_simps split: prod.splits sum.splits)

section \<open>The missing byte\<close>

text \<open>
  The message of the client fills the server's buffer completely: a server that reads all of it writes
  the terminating zero behind the buffer.  With fewer bytes read it answers; an error of \<open>read\<close> makes
  it write before the buffer.
\<close>

lemma connection_handler_outcome:
  "length client_message = 256 \<and>
   fst (connection_handler fd w) =
     (if 0 \<le> ret (w_os w (w_calls w) (File (Read fd 256))) \<and> ret (w_os w (w_calls w) (File (Read fd 256))) < 256
      then Inr 0 else Inl (Undefined ''write outside the buffer''))"
  by (simp add: client_message_def ascii_def connection_handler_def terminate_buffer_def sys_def Let_def prog_simps)

end
