(* ===== verification/Cpp_Demos.thy ===== *)
theory Cpp_Demos
  imports Socket_Demos
begin

text \<open>
  The C++ socket pair \<^verbatim>\<open>source/tcp/other/server.cpp\<close> and \<^verbatim>\<open>client.cpp\<close>: the client sends one word it
  reads from the standard input, the server prints it and acknowledges it.  An exception that nobody
  catches ends the program through \<open>std::terminate\<close>.
\<close>

section \<open>The programs\<close>

definition runtime_error :: "string \<Rightarrow> 'a prog" where
  "runtime_error message = halt_c (Terminated message)"

definition CPP_PORT :: nat where "CPP_PORT = 6969"

text \<open>Host to network byte order.\<close>

definition htons :: "nat \<Rightarrow> u8 list" where
  "htons port = [of_nat (port div 256), of_nat port]"

text \<open>
  A \<open>sockaddr_in\<close>: the family, the port, the address and eight bytes of padding, \<open>pad\<close>, which neither
  program initialises.
\<close>

definition sockaddr_in :: "u8 list \<Rightarrow> u8 list \<Rightarrow> u8 list" where
  "sockaddr_in addr pad = [of_int AF_INET, 0] @ htons CPP_PORT @ addr @ pad"

text \<open>What \<open>read\<close> leaves in a buffer of 256 zero bytes.\<close>

definition read_into_zeros :: "reply \<Rightarrow> u8 list" where
  "read_into_zeros r = overlay (replicate 256 0) (payload r)"

text \<open>\<open>cout << buffer\<close> prints up to the first zero; without one it reads past the buffer.\<close>

definition print_buffer :: "string \<Rightarrow> u8 list \<Rightarrow> string \<Rightarrow> unit prog" where
  "print_buffer before buffer after =
     (if 0 \<in> set buffer then sys_do (Misc (Printf (before @ c_string buffer @ after)))
      else halt_c (Undefined ''read beyond the buffer''))"

definition acknowledgement :: "u8 list" where
  "acknowledgement = ascii ''Message transmission successful!''"

definition cpp_server_main :: "u8 list \<Rightarrow> int prog" where
  "cpp_server_main pad =
     bind_c (sys_ret (Sock (Socket AF_INET SOCK_STREAM 0))) (\<lambda>socket_descriptor.
     if socket_descriptor < 0 then runtime_error ''Could not open socket!''
     else bind_c (sys_ret (Sock (Bind socket_descriptor (sockaddr_in [0, 0, 0, 0] pad)))) (\<lambda>return_code.
     if return_code < 0 then runtime_error ''Could not bind socket to ''
     else seq_c (sys_do (Sock (Listen socket_descriptor 5)))
     (bind_c (sys_ret (Sock (Accept socket_descriptor))) (\<lambda>communication_socket.
     if communication_socket < 0 then runtime_error ''Error while accepting socket connection!''
     else bind_c (sys (File (Read communication_socket 256))) (\<lambda>r.
     if ret r < 0 then runtime_error ''Error while reading from socket!''
     else seq_c (print_buffer ''Received message: '' (read_into_zeros r) [CHR 0x0A])
     (bind_c (sys_ret (File (Write communication_socket acknowledgement))) (\<lambda>return_code.
     if return_code < 0 then runtime_error ''Error while writing acknowledgement message!''
     else seq_c (sys_do (File (Close communication_socket)))
     (seq_c (sys_do (File (Close socket_descriptor))) (return_c 0)))))))))"

text \<open>
  The reply to \<open>gethostbyname\<close> is zero for a null pointer; otherwise it carries the first address, which
  is copied over the uninitialised \<open>sin_addr\<close>.  \<open>cin >> input\<close> delivers a word.
\<close>

definition cpp_client_main :: "u8 list \<Rightarrow> u8 list \<Rightarrow> int prog" where
  "cpp_client_main addr0 pad =
     bind_c (sys_ret (Sock (Socket AF_INET SOCK_STREAM 0))) (\<lambda>socket_descriptor.
     if socket_descriptor < 0 then runtime_error ''Could not open socket!''
     else bind_c (sys (Sock (Gethostbyname ''localhost''))) (\<lambda>server.
     if ret server = 0 then runtime_error ''Could not find host!''
     else if length (dat server) > 4 then halt_c (Undefined ''write beyond the address'')
     else bind_c (sys_ret (Sock (Connect socket_descriptor (sockaddr_in (overlay addr0 (dat server)) pad)))) (\<lambda>return_code.
     if return_code < 0 then runtime_error ''Could not connect to socket!''
     else seq_c (sys_do (Misc (Printf ''Please enter a message: '')))
     (bind_c (sys (Misc Input_word)) (\<lambda>input.
     bind_c (sys_ret (File (Write socket_descriptor (dat input)))) (\<lambda>return_code.
     if return_code < 0 then runtime_error ''Error while writing to socket!''
     else bind_c (sys (File (Read socket_descriptor 256))) (\<lambda>r.
     if ret r < 0 then runtime_error ''Could not read from socket!''
     else seq_c (print_buffer [CHR 0x0A] (read_into_zeros r) [])
     (seq_c (sys_do (File (Close socket_descriptor))) (return_c 0)))))))))"

section \<open>What they do\<close>

text \<open>\<open>read\<close> returns at most as many bytes as it was asked for.\<close>

lemma zeros_hold_string:
  assumes "ret r \<le> 256"
  shows "0 \<in> set (read_into_zeros r) \<longleftrightarrow> ret r < 256 \<or> 0 \<in> set (payload r)"
proof (cases "ret r < 256")
  case True
  then have "0 < 256 - nat (ret r)" by simp
  then show ?thesis using True by (simp add: read_into_zeros_def overlay_def drop_replicate set_replicate_conv_if)
next
  case False
  then have "ret r = 256" using assms by simp
  then show ?thesis by (simp add: read_into_zeros_def overlay_def)
qed

text \<open>
  The server with a system whose replies depend on the call alone: every failure of a call it checks
  ends it, a full buffer without a zero makes it print from beyond the buffer, and otherwise it prints
  the bytes it read up to the first zero, acknowledges with exactly 32 bytes and closes both sockets.
\<close>

lemma cpp_server_outcome:
  fixes f :: "call \<Rightarrow> reply"
  defines "sd \<equiv> ret (f (Sock (Socket AF_INET SOCK_STREAM 0)))"
  defines "cs \<equiv> ret (f (Sock (Accept sd)))"
  defines "r \<equiv> f (File (Read cs 256))"
  assumes "w_os w = (\<lambda>_. f)" and "ret r \<le> 256" and "0 \<le> sd" and "0 \<le> cs" and "0 \<le> ret r"
    and "0 \<le> ret (f (Sock (Bind sd (sockaddr_in [0, 0, 0, 0] pad))))"
    and "0 \<le> ret (f (File (Write cs acknowledgement)))"
  shows "length acknowledgement = 32 \<and>
     (if ret r = 256 \<and> 0 \<notin> set (payload r)
      then fst (cpp_server_main pad w) = Inl (Undefined ''read beyond the buffer'')
      else fst (cpp_server_main pad w) = Inr 0 \<and>
        drop (length (w_calls w) + 5) (w_calls (snd (cpp_server_main pad w))) =
          [Misc (Printf (''Received message: '' @ c_string (read_into_zeros r) @ [CHR 0x0A])),
           File (Write cs acknowledgement), File (Close cs), File (Close sd)])"
  using assms zeros_hold_string [of r]
  by (simp add: cpp_server_main_def acknowledgement_def ascii_def print_buffer_def runtime_error_def
      prog_simps sys_def Let_def)

lemma cpp_client_outcome:
  fixes f :: "call \<Rightarrow> reply"
  defines "sd \<equiv> ret (f (Sock (Socket AF_INET SOCK_STREAM 0)))"
  defines "r \<equiv> f (File (Read sd 256))"
  assumes "w_os w = (\<lambda>_. f)" and "ret r \<le> 256" and "0 \<le> sd" and "0 \<le> ret r"
    and "ret (f (Sock (Gethostbyname ''localhost''))) \<noteq> 0" and "length (dat (f (Sock (Gethostbyname ''localhost'')))) = 4"
    and "0 \<le> ret (f (Sock (Connect sd (sockaddr_in (dat (f (Sock (Gethostbyname ''localhost''))) @ drop 4 addr0) pad))))"
    and "0 \<le> ret (f (File (Write sd (dat (f (Misc Input_word))))))"
  shows "if ret r = 256 \<and> 0 \<notin> set (payload r)
      then fst (cpp_client_main addr0 pad w) = Inl (Undefined ''read beyond the buffer'')
      else fst (cpp_client_main addr0 pad w) = Inr 0 \<and>
        drop (length (w_calls w) + 5) (w_calls (snd (cpp_client_main addr0 pad w))) =
          [File (Write sd (dat (f (Misc Input_word)))), File (Read sd 256),
           Misc (Printf ([CHR 0x0A] @ c_string (read_into_zeros r))), File (Close sd)]"
  using assms zeros_hold_string [of r]
  by (simp add: cpp_client_main_def print_buffer_def runtime_error_def overlay_def prog_simps sys_def Let_def)

text \<open>What arrives in one piece, is shorter than the buffer and has no zero is printed as it was sent.\<close>

lemma unat_ascii: "char_of (unat (of_nat (of_char c) :: u8)) = c"
proof -
  have "of_char c < (256 :: nat)" using of_char_mod_256 [where c = c and ?'a = nat] mod_less_divisor [of 256 "of_char c :: nat"] by simp
  then show ?thesis by (simp add: unat_of_nat)
qed

lemma ascii_zero: "(of_nat (of_char c) :: u8) = 0 \<longleftrightarrow> c = CHR 0x00"
proof
  assume "(of_nat (of_char c) :: u8) = 0"
  then have "char_of (unat (0 :: u8)) = c" using unat_ascii [of c] by simp
  then show "c = CHR 0x00" by (simp add: char_of_def)
qed simp

lemma message_printed:
  assumes "payload r = ascii word" and "length word < 256" and "CHR 0x00 \<notin> set word"
  shows "c_string (read_into_zeros r) = word"
proof -
  have "takeWhile (\<lambda>b. b \<noteq> 0) (ascii word @ replicate (256 - length word) (0 :: u8)) = ascii word"
    using assms(2,3) by (subst takeWhile_append2) (auto simp: ascii_def ascii_zero)
  then show ?thesis using assms(1)
    by (simp add: c_string_def read_into_zeros_def overlay_def drop_replicate ascii_def unat_ascii o_def)
qed

end
