(* ===== verification/Trace_Logic.thy ===== *)
theory Trace_Logic
  imports Timed_Loop
begin

text \<open>
  From programs to protocols.  A run of a program leaves a list of events, the calls it made with their
  replies.  An automaton over such events describes one side of a protocol; \<open>follows\<close> says that every
  run of a program is accepted by an automaton, with a proof rule per program construct.  Two programs
  that run side by side on a shared object have two event lists; \<open>joint\<close> says that some interleaving of
  both is a behaviour of the object.  The locale \<open>program_pair\<close> connects all this to a step relation by a
  simulation: if every event of either side, together with its effect on the object, is matched by a
  sequence of steps, then joint runs of the programs end in states that represent reachable ones.
\<close>

section \<open>Events\<close>

type_synonym event = "call \<times> reply"

text \<open>The events of the calls \<open>cs\<close> made after \<open>h\<close>.\<close>

fun log :: "os \<Rightarrow> call list \<Rightarrow> call list \<Rightarrow> event list" where
  "log os h [] = []"
| "log os h (c # cs) = (c, os h c) # log os (h @ [c]) cs"

text \<open>The events between two worlds of one run.\<close>

definition events :: "world \<Rightarrow> world \<Rightarrow> event list" where
  "events w w' = log (w_os w) (w_calls w) (drop (length (w_calls w)) (w_calls w'))"

lemma log_append: "log os h (cs @ ds) = log os h cs @ log os (h @ cs) ds"
  by (induction cs arbitrary: h) simp_all

section \<open>Automata\<close>

fun path :: "('p \<Rightarrow> event \<Rightarrow> 'p option) \<Rightarrow> 'p \<Rightarrow> event list \<Rightarrow> 'p option" where
  "path A p [] = Some p"
| "path A p (e # es) = (case A p e of None \<Rightarrow> None | Some q \<Rightarrow> path A q es)"

lemma path_append: "path A p (es @ fs) = (case path A p es of None \<Rightarrow> None | Some q \<Rightarrow> path A q fs)"
  by (induction es arbitrary: p) (simp_all split: option.splits)

text \<open>A relation between states and what has happened, kept by every event, holds along a path.\<close>

lemma path_inv:
  assumes "\<And>p es e p'. I p es \<Longrightarrow> A p e = Some p' \<Longrightarrow> I p' (es @ [e])" and "path A p es = Some p'" and "I p []"
  shows "I p' es"
proof -
  have "I p' (ds @ es)" if "I p ds" and "path A p es = Some p'" for ds
    using that
  proof (induction es arbitrary: p ds)
    case (Cons e es)
    then obtain q where "A p e = Some q" and "path A q es = Some p'" by (auto split: option.splits)
    then show ?case using Cons.IH [of q "ds @ [e]"] assms(1) Cons.prems(1) by simp
  qed simp
  then show ?thesis using assms(2,3) by force
qed

text \<open>
  Every run of \<open>prog\<close> is a path of the automaton from \<open>p\<close>; its outcome, a value or the way it stopped,
  and the state reached are related by \<open>Q\<close>.
\<close>

definition follows :: "('p \<Rightarrow> event \<Rightarrow> 'p option) \<Rightarrow> 'p \<Rightarrow> 'a prog \<Rightarrow> (halt + 'a \<Rightarrow> 'p \<Rightarrow> bool) \<Rightarrow> bool" where
  "follows A p prog Q \<longleftrightarrow> (\<forall>w r w'. prog w = (r, w') \<longrightarrow>
     (\<exists>cs q. w_calls w' = w_calls w @ cs \<and> w_os w' = w_os w \<and>
        path A p (log (w_os w) (w_calls w) cs) = Some q \<and> Q r q))"

named_theorems follows_intros "rules for programs that follow an automaton"
named_theorems prog_norm "normal form of programs: nested binds of single calls"

lemma followsD:
  assumes "follows A p prog Q" and "prog w = (r, w')"
  shows "\<exists>q. path A p (events w w') = Some q \<and> Q r q"
  using assms unfolding follows_def events_def by fastforce

lemma follows_return [follows_intros]: "Q (Inr x) p \<Longrightarrow> follows A p (return_c x) Q"
  by (simp add: follows_def return_c_def)

lemma follows_halt [follows_intros]: "Q (Inl h) p \<Longrightarrow> follows A p (halt_c h) Q"
  by (simp add: follows_def halt_c_def)

lemma follows_sys:
  assumes "\<And>r. \<exists>q. A p (c, r) = Some q \<and> Q (Inr r) q"
  shows "follows A p (sys c) Q"
  unfolding follows_def
proof (intro allI impI)
  fix w r w' assume "sys c w = (r, w')"
  then have "r = Inr (w_os w (w_calls w) c)" and "w_calls w' = w_calls w @ [c]" and "w_os w' = w_os w"
    by (auto simp: sys_def Let_def)
  then show "\<exists>cs q. w_calls w' = w_calls w @ cs \<and> w_os w' = w_os w \<and>
        path A p (log (w_os w) (w_calls w) cs) = Some q \<and> Q r q"
    using assms [of "w_os w (w_calls w) c"] by (intro exI [of _ "[c]"]) auto
qed

lemma follows_bind:
  assumes m: "follows A p m R" and stop: "\<And>h q. R (Inl h) q \<Longrightarrow> Q (Inl h) q"
    and k: "\<And>x q. R (Inr x) q \<Longrightarrow> follows A q (k x) Q"
  shows "follows A p (bind_c m k) Q"
  unfolding follows_def
proof (intro allI impI)
  fix w r w' assume run: "bind_c m k w = (r, w')"
  obtain a w1 where first: "m w = (a, w1)" by (cases "m w")
  from m [unfolded follows_def, rule_format, OF first]
  obtain cs q where cs: "w_calls w1 = w_calls w @ cs" "w_os w1 = w_os w"
    "path A p (log (w_os w) (w_calls w) cs) = Some q" "R a q" by blast
  show "\<exists>cs q. w_calls w' = w_calls w @ cs \<and> w_os w' = w_os w \<and>
        path A p (log (w_os w) (w_calls w) cs) = Some q \<and> Q r q"
  proof (cases a)
    case (Inl h)
    then have "r = Inl h" and "w' = w1" using run first by (simp_all add: bind_c_def)
    then show ?thesis using cs stop Inl by blast
  next
    case (Inr x)
    then have rest: "k x w1 = (r, w')" and "R (Inr x) q" using run first cs(4) by (simp_all add: bind_c_def)
    from k [OF \<open>R (Inr x) q\<close>, unfolded follows_def, rule_format, OF rest]
    obtain ds t where "w_calls w' = w_calls w1 @ ds" "w_os w' = w_os w1"
      "path A q (log (w_os w1) (w_calls w1) ds) = Some t" "Q r t" by blast
    then show ?thesis using cs by (intro exI [of _ "cs @ ds"] exI [of _ t]) (simp add: log_append path_append)
  qed
qed

text \<open>The rules the proofs use: a call in front of the rest of the program.\<close>

lemma follows_call [follows_intros]:
  assumes "\<And>r. A p (c, r) \<noteq> None" and "\<And>r q. A p (c, r) = Some q \<Longrightarrow> follows A q (k r) Q"
  shows "follows A p (bind_c (sys c) k) Q"
  by (rule follows_bind [OF follows_sys [where Q = "\<lambda>x q. \<exists>r. x = Inr r \<and> A p (c, r) = Some q"]])
    (use assms in auto)

lemma follows_if [follows_intros]:
  assumes "b \<Longrightarrow> follows A p m Q" and "\<not> b \<Longrightarrow> follows A p m' Q"
  shows "follows A p (if b then m else m') Q"
  using assms by simp

lemma follows_mono: "follows A p m R \<Longrightarrow> (\<And>x q. R x q \<Longrightarrow> Q x q) \<Longrightarrow> follows A p m Q"
  unfolding follows_def by meson

text \<open>
  A program that only adds calls follows every automaton from a state that accepts everything.  An
  automaton goes to such a state when a reply is not the one the protocol guarantees; the shared object
  then excludes it.
\<close>

definition honest :: "'a prog \<Rightarrow> bool" where
  "honest prog \<longleftrightarrow> follows (\<lambda>(p :: unit) e. Some p) () prog (\<lambda>_ _. True)"

named_theorems honest_intros "programs that only add calls"

lemma honest_return [honest_intros]: "honest (return_c x)"
  by (simp add: honest_def follows_return)

lemma honest_halt [honest_intros]: "honest (halt_c h)"
  by (simp add: honest_def follows_halt)

lemma honest_sys [honest_intros]: "honest (sys c)"
  by (simp add: honest_def follows_sys)

lemma honest_bind [honest_intros]: "honest p \<Longrightarrow> (\<And>x. honest (k x)) \<Longrightarrow> honest (bind_c p k)"
  unfolding honest_def by (rule follows_bind) auto

lemma honest_if [honest_intros]: "honest p \<Longrightarrow> honest q \<Longrightarrow> honest (if b then p else q)"
  by simp

lemma honest_derived [honest_intros]:
  "honest (sys_ret c)" "honest (sys_do c)" "honest p \<Longrightarrow> honest (when_c b p)"
  "honest p \<Longrightarrow> honest q \<Longrightarrow> honest (seq_c p q)"
  by (auto simp: sys_ret_def sys_do_def when_c_def seq_c_def intro!: honest_intros)

lemma honest_forever [honest_intros]: "(\<And>s. honest (body s)) \<Longrightarrow> honest (forever_c n body s)"
  by (induction n arbitrary: s) (auto intro!: honest_intros)

lemma path_stay: "(\<And>e. A p e = Some p) \<Longrightarrow> path A p es = Some p"
  by (induction es) simp_all

definition lost :: "('p \<Rightarrow> event \<Rightarrow> 'p option) \<Rightarrow> (halt + 'a \<Rightarrow> 'p \<Rightarrow> bool) \<Rightarrow> 'p \<Rightarrow> bool" where
  "lost A Q p \<longleftrightarrow> (\<forall>e. A p e = Some p) \<and> (\<forall>r. Q r p)"

lemma follows_lost: "lost A Q p \<Longrightarrow> honest prog \<Longrightarrow> follows A p prog Q"
  using path_stay [of A p] unfolding lost_def honest_def follows_def by (auto; metis)

text \<open>
  Loops.  \<open>I\<close> relates the loop's variable to the automaton's state, \<open>H\<close> says how the body may stop.
\<close>

abbreviation outcome :: "(halt \<Rightarrow> 'p \<Rightarrow> bool) \<Rightarrow> ('a \<Rightarrow> 'p \<Rightarrow> bool) \<Rightarrow> halt + 'a \<Rightarrow> 'p \<Rightarrow> bool" where
  "outcome H I r q \<equiv> (case r of Inl h \<Rightarrow> H h q | Inr x \<Rightarrow> I x q)"

lemma follows_forever:
  assumes "\<And>s q. I s q \<Longrightarrow> follows A q (body s) (outcome H I)" and "I s p" and "\<And>s q. I s q \<Longrightarrow> H Running q"
  shows "follows A p (forever_c n body s) (outcome H J)"
  using assms(2)
proof (induction n arbitrary: s p)
  case 0
  then show ?case using assms(3) by (auto intro: follows_halt)
next
  case (Suc n)
  show ?case by (simp, rule follows_bind [OF assms(1) [OF Suc.prems]]) (use Suc.IH in simp_all)
qed

lemma follows_gettimeofday:
  assumes "\<And>r. A p (Misc Gettimeofday, r) = Some p" and "\<And>v. follows A p (k v) Q"
  shows "follows A p (bind_c gettimeofday k) Q"
  unfolding gettimeofday_def bind_assoc using assms by (intro follows_call) auto

lemma follows_timed_loop:
  assumes round: "\<And>s cnt q. I (s, cnt) q \<Longrightarrow> follows A q (body s) (outcome H (\<lambda>s'. I (s', cnt + 1)))"
    and clock: "\<And>s cnt q r. I (s, cnt) q \<Longrightarrow> A q (Misc Gettimeofday, r) = Some q"
    and running: "\<And>x q. I x q \<Longrightarrow> H Running q"
    and "I (s, cnt) p"
  shows "follows A p (timed_loop n startTime body s cnt) (outcome H I)"
  using assms(4)
proof (induction n arbitrary: s cnt p)
  case 0
  then show ?case using running by (auto intro: follows_halt)
next
  case (Suc n)
  have "follows A p (bind_c (body s) (\<lambda>s'. timed_loop n startTime body s' (cnt + 1))) (outcome H I)"
    by (rule follows_bind [OF round [OF Suc.prems]]) (use Suc.IH in simp_all)
  then show ?case unfolding timed_loop.simps
    by (intro follows_gettimeofday clock [OF Suc.prems]) (auto intro!: follows_return simp: Suc.prems)
qed

lemma follows_timed_run:
  assumes "\<And>s cnt q. I (s, cnt) q \<Longrightarrow> follows A q (body s) (outcome H (\<lambda>s'. I (s', cnt + 1)))"
    and "\<And>s cnt q r. I (s, cnt) q \<Longrightarrow> A q (Misc Gettimeofday, r) = Some q"
    and "\<And>x q. I x q \<Longrightarrow> H Running q" and "I (s, 0) p"
  shows "follows A p (timed_run n body s) (outcome H I)"
  unfolding timed_run_def
  by (intro follows_gettimeofday assms(2) [OF assms(4)]) (auto intro!: follows_timed_loop [where I = I] assms)

text \<open>The clock readings a program measures with.\<close>

fun reading :: "event \<Rightarrow> u64 list" where
  "reading (c, r) = (if c = Misc Timespec_get then [now_value (nums r ! 0) (nums r ! 1)] else [])"

lemma measure_all_append [simp]:
  "measure_all b (ms @ [(start, stop)]) = benchmark_at ((measure_all b ms)\<lparr>b_single_start := start\<rparr>) stop"
  by (induction b ms rule: measure_all.induct) simp_all

text \<open>
  A measuring client: control point, statistics, and the pairs of start time and clock reading so far.
  The start times received are those of the pairs, and one more while the client is \<open>measuring\<close>; the
  statistics are those of the pairs.
\<close>

type_synonym 'pc client = "'pc \<times> Benchmarks \<times> (u64 \<times> u64) list"

definition recorded ::
    "(event list \<Rightarrow> u64 list) \<Rightarrow> 'pc \<Rightarrow> Benchmarks \<Rightarrow> 'pc client \<Rightarrow> event list \<Rightarrow> bool" where
  "recorded start measuring b0 = (\<lambda>(pc, b, ms) es.
     start es = map fst ms @ (if pc = measuring then [b_single_start b] else []) \<and>
     concat (map reading es) = map snd ms \<and>
     b = (if pc = measuring then (measure_all b0 ms)\<lparr>b_single_start := b_single_start b\<rparr> else measure_all b0 ms))"

text \<open>The state of a client between two rounds, with what its loop carries.\<close>

definition between :: "'pc \<Rightarrow> Benchmarks \<Rightarrow> u64 \<Rightarrow> 'pc client \<Rightarrow> bool" where
  "between head b cnt = (\<lambda>(pc, b', ms). pc = head \<and> b' = b \<and> cnt = of_nat (length ms))"

lemma recorded_between:
  assumes "recorded start measuring b0 k es" and "between head b cnt k" and "head \<noteq> measuring"
  shows "b = measure_all b0 (zip (start es) (concat (map reading es))) \<and>
     cnt = of_nat (length (start es))"
  using assms by (auto simp: recorded_def between_def zip_map_fst_snd)

lemma follows_measuring_run:
  assumes "\<And>s cnt k. I (bench_of s) cnt k \<Longrightarrow> follows A k (body s) (outcome H (\<lambda>s'. I (bench_of s') (cnt + 1)))"
    and "\<And>b cnt k r. I b cnt k \<Longrightarrow> A k (Misc Gettimeofday, r) = Some k"
    and "\<And>b cnt k. I b cnt k \<Longrightarrow> H Running k" and "I (bench_of s) 0 k"
  shows "follows A k (timed_run n body s) (outcome H (\<lambda>x. I (bench_of (fst x)) (snd x)))"
proof (rule follows_timed_run)
  fix s cnt k assume "I (bench_of (fst (s, cnt))) (snd (s, cnt)) k"
  then show "follows A k (body s) (outcome H (\<lambda>s'. I (bench_of (fst (s', cnt + 1))) (snd (s', cnt + 1))))"
    using assms(1) unfolding fst_conv snd_conv by blast
qed (use assms(2-4) in auto)

text \<open>Normal form.\<close>

lemma bind_if [prog_norm]: "bind_c (if b then p else q) k = (if b then bind_c p k else bind_c q k)"
  by simp

lemma bind_sys_ret [prog_norm]: "bind_c (sys_ret c) k = bind_c (sys c) (\<lambda>r. k (ret r))"
  by (simp add: sys_ret_def bind_assoc)

lemma bind_sys_do [prog_norm]: "bind_c (sys_do c) k = bind_c (sys c) (\<lambda>_. k ())"
  by (simp add: sys_do_def bind_assoc)

lemma bind_now [prog_norm]:
  "bind_c now k = bind_c (sys (Misc Timespec_get)) (\<lambda>r. k (now_value (nums r ! 0) (nums r ! 1)))"
  by (simp add: now_def bind_assoc)

lemma bind_benchmark [prog_norm]:
  "bind_c (benchmark b) k =
     bind_c (sys (Misc Timespec_get)) (\<lambda>r. k (benchmark_at b (now_value (nums r ! 0) (nums r ! 1))))"
  by (simp add: benchmark_def bind_assoc bind_now)

lemma bind_when [prog_norm]: "bind_c (when_c b p) k = (if b then bind_c p k else k ())"
  by (simp add: when_c_def)

lemmas [prog_norm] = seq_c_def bind_assoc bind_return bind_halt throw_def

text \<open>A program that ends in a call, as a bind.\<close>

lemma sys_do_norm [prog_norm]: "sys_do c = bind_c (sys c) (\<lambda>_. return_c ())"
  by (simp add: sys_do_def)

lemma benchmark_norm [prog_norm]:
  "benchmark b = bind_c (sys (Misc Timespec_get)) (\<lambda>r. return_c (benchmark_at b (now_value (nums r ! 0) (nums r ! 1))))"
  by (simp add: benchmark_def bind_now)

text \<open>Running a program in normal form on a concrete world, call by call.\<close>

lemma run_call:
  "bind_c (sys c) k \<lparr>w_os = os, w_calls = cs, w_errno = e\<rparr> =
     k (os cs c) \<lparr>w_os = os, w_calls = cs @ [c], w_errno = (if ret (os cs c) = -1 then err (os cs c) else e)\<rparr>"
  by (simp add: bind_c_def sys_def Let_def)

lemma run_end:
  "return_c x \<lparr>w_os = os, w_calls = cs, w_errno = e\<rparr> = (Inr x, \<lparr>w_os = os, w_calls = cs, w_errno = e\<rparr>)"
  "halt_c h \<lparr>w_os = os, w_calls = cs, w_errno = e\<rparr> = (Inl h, \<lparr>w_os = os, w_calls = cs, w_errno = e\<rparr>)"
  by (simp_all add: return_c_def halt_c_def)

lemma bind_gettimeofday [prog_norm]:
  "bind_c gettimeofday k = bind_c (sys (Misc Gettimeofday)) (\<lambda>r. k (ret r, Timeval (nums r ! 0) (nums r ! 1)))"
  by (simp add: gettimeofday_def bind_assoc)

lemmas run_simps = run_call run_end prog_norm timed_run_def timed_loop.simps eval_nat_numeral

section \<open>Two programs on one object\<close>

text \<open>
  The object is shared: \<open>objA ob e\<close> is what the event \<open>e\<close> of the first program makes of it, \<open>None\<close> if the
  call has no such reply in this state of the object (it would block, or return something else).
\<close>

inductive joint :: "('o \<Rightarrow> event \<Rightarrow> 'o option) \<Rightarrow> ('o \<Rightarrow> event \<Rightarrow> 'o option) \<Rightarrow> 'o \<Rightarrow> event list \<Rightarrow> event list \<Rightarrow> 'o \<Rightarrow> bool"
  for objA objB :: "'o \<Rightarrow> event \<Rightarrow> 'o option"
where
  joint_nil: "joint objA objB ob [] [] ob"
| joint_left: "objA ob e = Some ob' \<Longrightarrow> joint objA objB ob' es fs ob'' \<Longrightarrow> joint objA objB ob (e # es) fs ob''"
| joint_right: "objB ob f = Some ob' \<Longrightarrow> joint objA objB ob' es fs ob'' \<Longrightarrow> joint objA objB ob es (f # fs) ob''"

text \<open>The interleaving given by a schedule, \<open>True\<close> for the first program's turn.\<close>

fun play :: "('o \<Rightarrow> event \<Rightarrow> 'o option) \<Rightarrow> ('o \<Rightarrow> event \<Rightarrow> 'o option) \<Rightarrow> bool list \<Rightarrow> 'o \<Rightarrow> event list \<Rightarrow> event list \<Rightarrow> 'o option" where
  "play objA objB [] ob es fs = (if es = [] \<and> fs = [] then Some ob else None)"
| "play objA objB (True # sched) ob es fs =
     (case es of [] \<Rightarrow> None | e # es' \<Rightarrow> (case objA ob e of None \<Rightarrow> None | Some ob' \<Rightarrow> play objA objB sched ob' es' fs))"
| "play objA objB (False # sched) ob es fs =
     (case fs of [] \<Rightarrow> None | f # fs' \<Rightarrow> (case objB ob f of None \<Rightarrow> None | Some ob' \<Rightarrow> play objA objB sched ob' es fs'))"

lemma play_joint: "play objA objB sched ob es fs = Some ob' \<Longrightarrow> joint objA objB ob es fs ob'"
  by (induction objA objB sched ob es fs rule: play.induct)
    (auto split: list.splits option.splits if_splits intro: joint.intros)

lemma reach_star: "reach init step s \<Longrightarrow> step\<^sup>*\<^sup>* s t \<Longrightarrow> reach init step t"
  by (rotate_tac, induction rule: rtranclp_induct) (auto intro: reach_step)

locale program_pair = invariant_system init step inv
  for init :: "'s \<Rightarrow> bool" and step :: "'s \<Rightarrow> 's \<Rightarrow> bool" and inv :: "'s \<Rightarrow> bool" +
  fixes A :: "'p \<Rightarrow> event \<Rightarrow> 'p option" and B :: "'q \<Rightarrow> event \<Rightarrow> 'q option"
    and objA :: "'o \<Rightarrow> event \<Rightarrow> 'o option" and objB :: "'o \<Rightarrow> event \<Rightarrow> 'o option"
    and rep :: "'o \<Rightarrow> 'p \<Rightarrow> 'q \<Rightarrow> 's \<Rightarrow> bool"
  assumes left_sim: "inv s \<Longrightarrow> rep ob p q s \<Longrightarrow> A p e = Some p' \<Longrightarrow> objA ob e = Some ob' \<Longrightarrow>
      \<exists>s'. step\<^sup>*\<^sup>* s s' \<and> rep ob' p' q s'"
    and right_sim: "inv s \<Longrightarrow> rep ob p q s \<Longrightarrow> B q e = Some q' \<Longrightarrow> objB ob e = Some ob' \<Longrightarrow>
      \<exists>s'. step\<^sup>*\<^sup>* s s' \<and> rep ob' p q' s'"
begin

lemma star_inv: "step\<^sup>*\<^sup>* s t \<Longrightarrow> inv s \<Longrightarrow> inv t"
  by (induction rule: rtranclp_induct) (auto intro: inv_step)

lemma joint_sim:
  assumes "joint objA objB ob es fs ob'" and "path A p es = Some p'" and "path B q fs = Some q'"
    and "rep ob p q s" and "inv s"
  shows "\<exists>s'. step\<^sup>*\<^sup>* s s' \<and> rep ob' p' q' s'"
  using assms
proof (induction arbitrary: p q s rule: joint.induct)
  case (joint_nil ob)
  then show ?case by auto
next
  case (joint_left ob e ob' es fs ob'')
  then obtain p1 where p1: "A p e = Some p1" "path A p1 es = Some p'" by (auto split: option.splits)
  then obtain t where t: "step\<^sup>*\<^sup>* s t" "rep ob' p1 q t" using left_sim joint_left.hyps joint_left.prems by blast
  then show ?case
    using joint_left.IH [OF p1(2) joint_left.prems(2) t(2)] star_inv joint_left.prems(4) rtranclp_trans by meson
next
  case (joint_right ob f ob' es fs ob'')
  then obtain q1 where q1: "B q f = Some q1" "path B q1 fs = Some q'" by (auto split: option.splits)
  then obtain t where t: "step\<^sup>*\<^sup>* s t" "rep ob' p q1 t" using right_sim joint_right.hyps joint_right.prems by blast
  then show ?case
    using joint_right.IH [OF joint_right.prems(1) q1(2) t(2)] star_inv joint_right.prems(4) rtranclp_trans by meson
qed

text \<open>Two programs that follow the automata, run jointly, stay in the reachable states.\<close>

lemma programs_reach:
  assumes "follows A p prog Q" and "prog w = (r, w')" and "follows B q prog' Q'" and "prog' v = (r', v')"
    and "joint objA objB ob (events w w') (events v v') ob'" and "rep ob p q s" and "init s"
  shows "\<exists>p' q' s'. path A p (events w w') = Some p' \<and> path B q (events v v') = Some q' \<and>
     reach init step s' \<and> inv s' \<and> rep ob' p' q' s' \<and> Q r p' \<and> Q' r' q'"
proof -
  obtain p' q' where paths: "path A p (events w w') = Some p'" "Q r p'" "path B q (events v v') = Some q'" "Q' r' q'"
    using followsD [OF assms(1,2)] followsD [OF assms(3,4)] by blast
  then obtain s' where s': "step\<^sup>*\<^sup>* s s'" "rep ob' p' q' s'"
    using joint_sim [OF assms(5) _ _ assms(6)] inv_init [OF assms(7)] by blast
  then have "reach init step s'" using reach_star [OF reach_init [where init = init, OF assms(7)]] by blast
  then show ?thesis using paths s' reach_inv by blast
qed

end

end
