(* ===== verification/Shared_Memory_Runs.thy ===== *)
theory Shared_Memory_Runs
  imports Guard_Handshake Trace_Logic
begin

text \<open>
  The loops of the shared-memory programs of \<^verbatim>\<open>source/shm\<close> and \<^verbatim>\<open>source/mmap\<close>, run side by side on one
  segment with every byte access interleaved, simulate the handshake of the two processes.
\<close>

section \<open>The two sides\<close>

datatype hs_pc = V_wait | V_now | V_copy nat u64

datatype hc_pc = L_head | L_wait | L_copy "u8 list" | L_measure

fun guard_server_auto :: "int \<Rightarrow> hs_pc \<times> u64 list \<Rightarrow> event \<Rightarrow> (hs_pc \<times> u64 list) option" where
  "guard_server_auto seg (V_wait, sent) (c, r) =
     (if c = Ipc (Shm_load seg 0 1) then Some (if loaded r = turn_server then V_now else V_wait, sent) else None)"
| "guard_server_auto seg (V_now, sent) (c, r) =
     (if c = Misc Timespec_get then Some (V_copy 0 (now_value (nums r ! 0) (nums r ! 1)), sent) else None)"
| "guard_server_auto seg (V_copy i t, sent) (c, r) =
     (if i < 8 then (if c = Ipc (Shm_store seg (Suc i) [bytes_of_u64 t ! i]) then Some (V_copy (Suc i) t, sent) else None)
      else if c = Ipc (Shm_store seg 0 [turn_client]) then Some (V_wait, sent @ [t]) else None)"

fun guard_client_auto :: "int \<Rightarrow> hc_pc client \<Rightarrow> event \<Rightarrow> hc_pc client option" where
  "guard_client_auto seg (L_head, b, ms) (c, r) =
     (if c = Misc Gettimeofday then Some (L_head, b, ms)
      else if c = Ipc (Shm_store seg 0 [turn_server]) then Some (L_wait, b, ms) else None)"
| "guard_client_auto seg (L_wait, b, ms) (c, r) =
     (if c = Ipc (Shm_load seg 0 1) then Some (if loaded r = turn_client then L_copy [] else L_wait, b, ms) else None)"
| "guard_client_auto seg (L_copy bs, b, ms) (c, r) =
     (if c = Ipc (Shm_load seg (Suc (length bs)) 1)
      then Some (if length bs < 7 then (L_copy (bs @ [loaded r]), b, ms)
        else (L_measure, b\<lparr>b_single_start := u64_of_bytes (bs @ [loaded r])\<rparr>, ms))
      else None)"
| "guard_client_auto seg (L_measure, b, ms) (c, r) =
     (if c = Misc Timespec_get
      then Some (L_head, benchmark_at b (now_value (nums r ! 0) (nums r ! 1)),
        ms @ [(b_single_start b, now_value (nums r ! 0) (nums r ! 1))])
      else None)"

section \<open>The segment\<close>

text \<open>Loads return what is there and stores change it, at the address the segment has in the process.\<close>

definition segment_obj :: "int \<Rightarrow> u8 list \<Rightarrow> event \<Rightarrow> u8 list option" where
  "segment_obj seg m = (\<lambda>(c, r). case c of
     Ipc (Shm_load seg' off k) \<Rightarrow>
       if seg' \<noteq> seg then Some m
       else if off + k \<le> length m \<and> dat r = take k (drop off m) then Some m else None
   | Ipc (Shm_store seg' off bs) \<Rightarrow>
       if seg' \<noteq> seg then Some m
       else if off + length bs \<le> length m then Some (take off m @ bs @ drop (off + length bs) m) else None
   | _ \<Rightarrow> Some m)"

lemma segment_load:
  "segment_obj seg m (Ipc (Shm_load seg off (Suc 0)), r) = Some m' \<longleftrightarrow> off < length m \<and> dat r = [m ! off] \<and> m' = m"
  by (auto simp: segment_obj_def take_Suc_conv_app_nth take_Suc hd_drop_conv_nth)

lemma segment_store:
  "segment_obj seg m (Ipc (Shm_store seg off [b]), r) = Some m' \<longleftrightarrow> off < length m \<and> m' = m[off := b]"
  by (auto simp: segment_obj_def upd_conv_take_nth_drop)

lemma segment_other [simp]: "segment_obj seg m (Misc c, r) = Some m"
  by (simp add: segment_obj_def)

section \<open>The simulation\<close>

text \<open>
  The step relation counts down the checks of the clock that will find time left; a program does not
  know that number in advance, so the simulation may raise it at the head of the loop.
\<close>

inductive open_step :: "handshake \<Rightarrow> handshake \<Rightarrow> bool" where
  open_move: "handshake_step s t \<Longrightarrow> open_step s t"
| open_time: "g_cpc s = C_check \<Longrightarrow> open_step s (s\<lparr>g_left := Suc (g_left s)\<rparr>)"

definition open_init :: "handshake \<Rightarrow> bool" where "open_init s \<longleftrightarrow> (\<exists>n. handshake_init n s)"

definition open_inv :: "handshake \<Rightarrow> bool" where "open_inv s \<longleftrightarrow> (\<exists>n. handshake_inv n s)"

lemma open_inv_step:
  assumes "open_inv s" and "open_step s t"
  shows "open_inv t"
proof -
  obtain n where n: "handshake_inv n s" using assms(1) by (auto simp: open_inv_def)
  show ?thesis using assms(2)
  proof cases
    case open_move
    then show ?thesis using handshake_inv_step n by (auto simp: open_inv_def)
  next
    case open_time
    then have "handshake_inv (Suc n) t" using n by (auto simp: handshake_defs)
    then show ?thesis by (auto simp: open_inv_def)
  qed
qed

fun server_place :: "hs_pc \<Rightarrow> handshake \<Rightarrow> bool" where
  "server_place V_wait s \<longleftrightarrow> g_spc s = S_wait"
| "server_place V_now s \<longleftrightarrow> g_spc s = S_now"
| "server_place (V_copy i t) s \<longleftrightarrow> g_spc s = S_copy i \<and> g_stamp s = t"

fun client_place :: "hc_pc \<Rightarrow> handshake \<Rightarrow> bool" where
  "client_place L_head s \<longleftrightarrow> g_cpc s = C_check"
| "client_place L_wait s \<longleftrightarrow> g_cpc s = C_wait"
| "client_place (L_copy bs) s \<longleftrightarrow> g_cpc s = C_copy (length bs) \<and> take (length bs) (g_buf s) = bs \<and> length bs < 8"
| "client_place L_measure s \<longleftrightarrow> g_cpc s = C_measure"

lemma server_place_frame [simp]:
  "server_place p (s\<lparr>g_guard := x0\<rparr>) = server_place p s"
  "server_place p (s\<lparr>g_data := x1\<rparr>) = server_place p s"
  "server_place p (s\<lparr>g_cpc := x2\<rparr>) = server_place p s"
  "server_place p (s\<lparr>g_buf := x3\<rparr>) = server_place p s"
  "server_place p (s\<lparr>g_bench := x4\<rparr>) = server_place p s"
  "server_place p (s\<lparr>g_left := x5\<rparr>) = server_place p s"
  "server_place p (s\<lparr>g_sent := x6\<rparr>) = server_place p s"
  "server_place p (s\<lparr>g_got := x7\<rparr>) = server_place p s"
  by (cases p; simp)+

lemma client_place_frame [simp]:
  "client_place k (s\<lparr>g_guard := x0\<rparr>) = client_place k s"
  "client_place k (s\<lparr>g_data := x1\<rparr>) = client_place k s"
  "client_place k (s\<lparr>g_spc := x2\<rparr>) = client_place k s"
  "client_place k (s\<lparr>g_stamp := x3\<rparr>) = client_place k s"
  "client_place k (s\<lparr>g_bench := x4\<rparr>) = client_place k s"
  "client_place k (s\<lparr>g_left := x5\<rparr>) = client_place k s"
  "client_place k (s\<lparr>g_sent := x6\<rparr>) = client_place k s"
  "client_place k (s\<lparr>g_got := x7\<rparr>) = client_place k s"
  by (cases k; simp)+

definition guard_rep :: "u8 list \<Rightarrow> hs_pc \<times> u64 list \<Rightarrow> hc_pc client \<Rightarrow> handshake \<Rightarrow> bool" where
  "guard_rep m = (\<lambda>(spc, sent) (cpc, b, ms) s. (\<exists>behind. m = g_guard s # g_data s @ behind) \<and>
     server_place spc s \<and> client_place cpc s \<and> g_sent s = sent \<and> g_bench s = b \<and> g_got s = map fst ms)"

lemma guard_server_sim:
  assumes "open_inv s" and "guard_rep m p k s" and "guard_server_auto seg p e = Some p'" and "segment_obj seg m e = Some m'"
  shows "\<exists>s'. open_step\<^sup>*\<^sup>* s s' \<and> guard_rep m' p' k s'"
proof -
  obtain spc sent cpc b ms c r where [simp]: "p = (spc, sent)" "k = (cpc, b, ms)" "e = (c, r)"
    by (cases p; cases k; cases e)
  have len: "length (g_data s) = 8" using assms(1) by (auto simp: open_inv_def handshake_defs)
  have move: "open_step\<^sup>*\<^sup>* s t" if "handshake_step s t" for t using open_move [OF that] by blast
  note facts = assms(2-4) guard_rep_def
  show ?thesis
  proof (cases spc)
    case V_wait
    then have "m' = m" and "loaded r = g_guard s" using facts by (auto simp: segment_load split: if_splits)
    then show ?thesis using facts V_wait move [OF s_turn]
      by (intro exI [of _ "if g_guard s = turn_server then s\<lparr>g_spc := S_now\<rparr> else s"]) (auto split: if_splits)
  next
    case V_now
    then show ?thesis using facts move [OF s_now [of s "now_value (nums r ! 0) (nums r ! 1)"]]
      by (intro exI [of _ "s\<lparr>g_spc := S_copy 0, g_stamp := now_value (nums r ! 0) (nums r ! 1)\<rparr>"]) (auto split: if_splits)
  next
    case (V_copy i t)
    show ?thesis
    proof (cases "i < 8")
      case True
      then show ?thesis using facts V_copy len move [OF s_copy [of s i]]
        by (intro exI [of _ "s\<lparr>g_spc := S_copy (Suc i), g_data := (g_data s)[i := bytes_of_u64 (g_stamp s) ! i]\<rparr>"])
          (auto simp: segment_store list_update_append split: if_splits)
    next
      case False
      have "i \<le> 8" using assms(1) facts V_copy by (auto simp: open_inv_def handshake_defs)
      then show ?thesis using False facts V_copy move [OF s_notify [of s]]
        by (intro exI [of _ "s\<lparr>g_spc := S_wait, g_guard := turn_client, g_sent := g_sent s @ [g_stamp s]\<rparr>"])
          (auto simp: segment_store split: if_splits)
    qed
  qed
qed

lemma guard_client_sim:
  assumes "open_inv s" and "guard_rep m p k s" and "guard_client_auto seg k e = Some k'" and "segment_obj seg m e = Some m'"
  shows "\<exists>s'. open_step\<^sup>*\<^sup>* s s' \<and> guard_rep m' p k' s'"
proof -
  obtain spc sent cpc b ms c r where [simp]: "p = (spc, sent)" "k = (cpc, b, ms)" "e = (c, r)"
    by (cases p; cases k; cases e)
  have len: "length (g_data s) = 8" "length (g_buf s) = 8" using assms(1) by (auto simp: open_inv_def handshake_defs)
  have move: "open_step\<^sup>*\<^sup>* s t" if "handshake_step s t" for s t using open_move [OF that] by blast
  note facts = assms(2-4) guard_rep_def
  show ?thesis
  proof (cases cpc)
    case L_head
    define t where "t = s\<lparr>g_cpc := C_notify\<rparr>"
    have "open_step\<^sup>*\<^sup>* s t" "open_step\<^sup>*\<^sup>* t (t\<lparr>g_cpc := C_wait, g_guard := turn_server\<rparr>)"
    proof -
      have c: "g_cpc s = C_check" using L_head facts by simp
      have "handshake_step (s\<lparr>g_left := Suc (g_left s)\<rparr>) t"
        using c_go [of "s\<lparr>g_left := Suc (g_left s)\<rparr>" "g_left s"] c by (simp add: t_def)
      then show "open_step\<^sup>*\<^sup>* s t" using open_time [OF c] move by (meson converse_rtranclp_into_rtranclp)
      show "open_step\<^sup>*\<^sup>* t (t\<lparr>g_cpc := C_wait, g_guard := turn_server\<rparr>)" by (rule move, rule c_notify) (simp add: t_def)
    qed
    then have go: "open_step\<^sup>*\<^sup>* s (t\<lparr>g_cpc := C_wait, g_guard := turn_server\<rparr>)" by (rule rtranclp_trans)
    show ?thesis using facts L_head go
      by (intro exI [of _ "if c = Misc Gettimeofday then s else t\<lparr>g_cpc := C_wait, g_guard := turn_server\<rparr>"])
        (auto simp: segment_store t_def split: if_splits)
  next
    case L_wait
    from L_wait have "m' = m" and "loaded r = g_guard s" using facts by (auto simp: segment_load split: if_splits)
    then show ?thesis using facts L_wait move [OF c_turn]
      by (intro exI [of _ "if g_guard s = turn_client then s\<lparr>g_cpc := C_copy 0\<rparr> else s"]) (auto split: if_splits)
  next
    case (L_copy bs)
    let ?i = "length bs"
    define t where "t = s\<lparr>g_cpc := C_copy (Suc ?i), g_buf := (g_buf s)[?i := g_data s ! ?i]\<rparr>"
    have bs: "take ?i (g_buf s) = bs" "?i < 8" "m' = m" "loaded r = g_data s ! ?i" "g_cpc s = C_copy ?i"
      using facts L_copy len by (auto simp: segment_load nth_append split: if_splits)
    then have taken: "take (Suc ?i) (g_buf t) = bs @ [loaded r]"
      using len by (simp add: t_def take_Suc_conv_app_nth)
    have step: "open_step\<^sup>*\<^sup>* s t" using move [OF c_copy [of s ?i]] bs by (simp add: t_def)
    show ?thesis
    proof (cases "?i < 7")
      case True
      then show ?thesis using facts L_copy bs taken step
        by (intro exI [of _ t]) (auto simp: t_def split: if_splits)
    next
      case False
      then have i: "?i = 7" using bs by simp
      define u where "u = t\<lparr>g_cpc := C_measure, g_bench := (g_bench t)\<lparr>b_single_start := u64_of_bytes (g_buf t)\<rparr>\<rparr>"
      have "g_buf t = bs @ [loaded r]" using taken len i by (simp add: t_def)
      moreover have "open_step\<^sup>*\<^sup>* s u" using step move [OF c_read [of t]] i by (simp add: u_def t_def)
      ultimately show ?thesis using facts L_copy bs i by (intro exI [of _ u]) (auto simp: u_def t_def split: if_splits)
    qed
  next
    case L_measure
    let ?u = "now_value (nums r ! 0) (nums r ! 1)"
    let ?t = "s\<lparr>g_cpc := C_check, g_bench := benchmark_at (g_bench s) ?u, g_got := g_got s @ [b_single_start (g_bench s)]\<rparr>"
    show ?thesis using facts L_measure move [OF c_measure [of s ?u]] by (intro exI [of _ ?t]) (auto split: if_splits)
  qed
qed

interpretation guard_programs: program_pair open_init open_step open_inv "guard_server_auto seg" "guard_client_auto seg'"
    "segment_obj seg" "segment_obj seg'" guard_rep for seg seg'
proof unfold_locales
  show "open_inv s" if "open_init s" for s using that handshake_inv_init by (auto simp: open_init_def open_inv_def)
qed (fact open_inv_step guard_server_sim guard_client_sim)+

section \<open>The programs follow the two sides\<close>

lemma follows_spin:
  assumes "\<And>r. A p (Ipc (Shm_load seg 0 1), r) = Some (if loaded r = b then q else p)" and "seg \<noteq> -1"
    and "Q (Inl Running) p" and "follows A q (k ()) Q"
  shows "follows A p (bind_c (spin_until n seg b) k) Q"
proof (induction n)
  case 0
  then show ?case using assms(3) by (simp add: follows_halt)
next
  case (Suc n)
  then show ?case using assms
    by (auto simp: shared_load_def bind_assoc intro!: follows_call split: if_splits)
qed

lemma follows_store:
  assumes "follows (guard_server_auto seg) (V_copy 8 t, sent) (k ()) Q"
  shows "follows (guard_server_auto seg) (V_copy 0 t, sent) (bind_c (store_bytes seg (Suc 0) (bytes_of_u64 t)) k) Q"
proof -
  have "follows (guard_server_auto seg) (V_copy (8 - j) t, sent)
      (bind_c (store_bytes seg (Suc (8 - j)) (drop (8 - j) (bytes_of_u64 t))) k) Q" if "j \<le> 8" for j
    using that
  proof (induction j)
    case (Suc j)
    then have drop: "drop (8 - Suc j) (bytes_of_u64 t) = bytes_of_u64 t ! (8 - Suc j) # drop (8 - j) (bytes_of_u64 t)"
      by (simp add: Cons_nth_drop_Suc Suc_diff_Suc flip: Suc_diff_Suc)
    have "Suc (8 - Suc j) = 8 - j" using Suc.prems by simp
    then show ?case unfolding drop using Suc
      by (auto simp: prog_norm intro!: follows_call split: if_splits)
  qed (use assms in simp)
  from this [of 8] show ?thesis by simp
qed

lemma follows_load:
  assumes "\<And>bs. length bs = 8 \<Longrightarrow>
      follows (guard_client_auto seg) (L_measure, b\<lparr>b_single_start := u64_of_bytes bs\<rparr>, ms) (k bs) Q"
  shows "follows (guard_client_auto seg) (L_copy [], b, ms) (bind_c (load_bytes seg (Suc 0) 8) k) Q"
  using assms
  by (auto simp: eval_nat_numeral bind_assoc intro!: follows_call)

text \<open>The rounds of both benchmarks do the same.\<close>

lemma mmap_rounds: "mmap_server_round = shm_server_round" "mmap_client_round = shm_client_round"
  by (simp_all add: fun_eq_iff mmap_server_round_def shm_server_round_def mmap_client_round_def shm_client_round_def
      mmap_client_msg_wait_def shm_client_msg_wait_def mmap_server_wait_def shm_server_wait_def mmap_client_wait_def
      shm_client_wait_def mmap_server_notify_def shm_server_notify_def mmap_client_notify_def shm_client_notify_def)

abbreviation only_running :: "halt \<Rightarrow> 'p \<Rightarrow> bool" where
  "only_running h p \<equiv> h = Running"

lemma shm_server_follows:
  assumes "seg \<noteq> -1" and "fst p = V_wait"
  shows "follows (guard_server_auto seg) p (shm_server_round n seg u) (outcome only_running (\<lambda>_ p. fst p = V_wait))"
  unfolding shm_server_round_def shm_server_wait_def shm_server_notify_def seq_c_def bind_now
proof (rule follows_spin [where q = "(V_now, snd p)"], goal_cases)
  case 4
  show ?case using assms(1)
    by (auto simp: shared_store_def prog_norm intro!: follows_store follows_intros split: if_splits)
qed (use assms in \<open>cases p; simp\<close>)+

lemma shm_client_follows:
  assumes "seg \<noteq> -1" and "between L_head b cnt k"
  shows "follows (guard_client_auto seg) k (shm_client_round n seg b) (outcome only_running (\<lambda>b'. between L_head b' (cnt + 1)))"
proof -
  obtain ms where k: "k = (L_head, b, ms)" "cnt = of_nat (length ms)" using assms(2) by (cases k) (simp add: between_def)
  have "follows (guard_client_auto seg) (L_wait, b, ms) (shm_client_msg_wait n seg b)
      (outcome only_running (\<lambda>b'. between L_head b' (cnt + 1)))"
    unfolding shm_client_msg_wait_def shm_client_wait_def seq_c_def
  proof (rule follows_spin [where q = "(L_copy [], b, ms)"], goal_cases)
    case 4
    show ?case using assms(1) k(2)
      by (auto simp: shared_load_def prog_norm between_def intro!: follows_load follows_intros split: if_splits)
  qed (use assms(1) in simp_all)
  then show ?thesis using assms(1) k(1)
    by (auto simp: shm_client_round_def shm_client_notify_def shared_store_def prog_norm intro!: follows_call split: if_splits)
qed

lemma shm_server_loop_follows:
  assumes "seg \<noteq> -1"
  shows "follows (guard_server_auto seg) (V_wait, []) (forever_c n (shm_server_round f seg) ())
     (outcome only_running (\<lambda>_ _. False))"
  using shm_server_follows [OF assms] by (intro follows_forever [where I = "\<lambda>_ p. fst p = V_wait"]) auto

lemma shm_client_loop_follows:
  assumes "seg \<noteq> -1"
  shows "follows (guard_client_auto seg) (L_head, b, []) (timed_run n (shm_client_round f seg) b)
     (outcome only_running (\<lambda>x. between L_head (fst x) (snd x)))"
  by (rule follows_measuring_run [where bench_of = "\<lambda>b. b"])
    (use shm_client_follows [OF assms] in \<open>auto simp: between_def\<close>)

section \<open>What the programs measure\<close>

text \<open>The bytes a client has copied out of the segment, and the start times they make up.\<close>

fun copied :: "event \<Rightarrow> u8 list" where
  "copied (c, r) = (case c of Ipc (Shm_load seg off k) \<Rightarrow> if off = 0 then [] else [loaded r] | _ \<Rightarrow> [])"

fun chunks :: "u8 list \<Rightarrow> u64 list" where
  "chunks bs = (if length bs < 8 then [] else u64_of_bytes (take 8 bs) # chunks (drop 8 bs))"

declare chunks.simps [simp del]

lemma chunks_short [simp]: "length bs < 8 \<Longrightarrow> chunks bs = []"
  by (simp add: chunks.simps)

lemma chunks_append: "8 dvd length xs \<Longrightarrow> chunks (xs @ ys) = chunks xs @ chunks ys"
proof (induction xs rule: chunks.induct)
  case (1 xs)
  show ?case
  proof (cases "length xs < 8")
    case False
    then have "chunks (drop 8 xs @ ys) = chunks (drop 8 xs) @ chunks ys"
      using 1 by (simp add: dvd_diff_nat)
    then show ?thesis using False by (simp add: chunks.simps [of "xs @ ys"] chunks.simps [of xs])
  next
    case True
    then have "xs = []" using 1(2) by (cases xs) (auto dest: dvd_imp_le)
    then show ?thesis by simp
  qed
qed

lemma chunks_one [simp]: "length bs = 8 \<Longrightarrow> chunks bs = [u64_of_bytes bs]"
  by (simp add: chunks.simps)

definition guard_starts :: "event list \<Rightarrow> u64 list" where
  "guard_starts es = chunks (concat (map copied es))"

definition taken :: "hs_pc \<times> u64 list \<Rightarrow> u64 list" where
  "taken p = snd p @ (case fst p of V_copy i t \<Rightarrow> [t] | _ \<Rightarrow> [])"

lemma guard_server_sent:
  assumes "path (guard_server_auto seg) (V_wait, []) es = Some p"
  shows "taken p = concat (map reading es)"
  using assms
proof (rule path_inv [where I = "\<lambda>p es. taken p = concat (map reading es)", rotated])
  fix p es e p' assume "taken p = concat (map reading es)" and "guard_server_auto seg p e = Some p'"
  then show "taken p' = concat (map reading (es @ [e]))"
    by (cases p; cases e; cases "fst p") (auto simp: taken_def split: if_splits)
qed (simp add: taken_def)

definition copying :: "hc_pc client \<Rightarrow> event list \<Rightarrow> bool" where
  "copying k es \<longleftrightarrow> (\<exists>full. 8 dvd length full \<and>
     concat (map copied es) = full @ (case fst k of L_copy bs \<Rightarrow> bs | _ \<Rightarrow> [])) \<and>
     (\<forall>bs. fst k = L_copy bs \<longrightarrow> length bs < 8)"

lemma guard_client_measured:
  assumes "path (guard_client_auto seg) (L_head, b0, []) es = Some k"
  shows "copying k es \<and> recorded guard_starts L_measure b0 k es"
  using assms
proof (rule path_inv [where I = "\<lambda>k es. copying k es \<and> recorded guard_starts L_measure b0 k es", rotated])
  fix k es e k' assume I: "copying k es \<and> recorded guard_starts L_measure b0 k es"
    and step: "guard_client_auto seg k e = Some k'"
  obtain full where full: "8 dvd length full"
      "concat (map copied es) = full @ (case fst k of L_copy bs \<Rightarrow> bs | _ \<Rightarrow> [])"
    and short: "\<forall>bs. fst k = L_copy bs \<longrightarrow> length bs < 8" using I by (auto simp: copying_def)
  obtain cpc b ms c r where [simp]: "k = (cpc, b, ms)" "e = (c, r)" by (cases k; cases e)
  show "copying k' (es @ [e]) \<and> recorded guard_starts L_measure b0 k' (es @ [e])"
  proof (cases cpc)
    case (L_copy bs)
    have "8 dvd Suc (length full + 7)" using full(1) by presburger
    moreover have "length bs < 7 \<or> length bs = 7" using short L_copy by auto
    ultimately show ?thesis using L_copy I step full
      by (elim disjE) (auto simp: copying_def recorded_def guard_starts_def chunks_append split: if_splits)
  qed (use I step full in \<open>auto simp: copying_def recorded_def guard_starts_def split: if_splits\<close>)
qed (simp add: copying_def recorded_def guard_starts_def)

lemma guard_delivers:
  assumes "handshake_inv n s" and "guard_rep m p k s" and "recorded guard_starts L_measure b0 k es"
  shows "\<exists>pre post. taken p = pre @ guard_starts es @ post \<and> length pre \<le> 1 \<and> length post \<le> 1"
proof -
  obtain spc sent cpc b ms where [simp]: "p = (spc, sent)" "k = (cpc, b, ms)" by (cases p; cases k)
  have starts: "guard_starts es = g_got s @ (if cpc = L_measure then [b_single_start (g_bench s)] else [])"
    using assms(2,3) by (auto simp: guard_rep_def recorded_def)
  have sent: "g_sent s = sent" using assms(2) by (simp add: guard_rep_def)
  show ?thesis
  proof (cases "answered s")
    case True
    then have "g_spc s = S_wait" using assms(1) by (auto simp: handshake_defs)
    then have "taken p = sent" using assms(2) by (cases spc) (auto simp: guard_rep_def taken_def)
    moreover obtain pre where "butlast sent = pre @ g_got s" "length pre \<le> 1"
      using True by (auto simp: answered_def delivered_def sent)
    moreover have "sent = butlast sent @ [last sent]" using True by (simp add: answered_def sent)
    moreover have "b_single_start (g_bench s) = last sent" if "cpc = L_measure"
      using assms(1,2) that by (auto simp: handshake_defs guard_rep_def)
    ultimately show ?thesis unfolding starts
      by (intro exI [of _ pre] exI [of _ "if cpc = L_measure then [] else [last sent]"]) (auto split: if_splits)
  next
    case False
    then have "delivered sent (g_got s)" and "cpc \<noteq> L_measure"
      using assms(1,2) by (cases cpc; auto simp: handshake_inv_def client_inv_def idle_def guard_rep_def)+
    then obtain pre where "sent = pre @ g_got s" "length pre \<le> 1" by (auto simp: delivered_def)
    then show ?thesis unfolding starts using \<open>cpc \<noteq> L_measure\<close>
      by (intro exI [of _ pre] exI [of _ "case spc of V_copy i t \<Rightarrow> [t] | _ \<Rightarrow> []"]) (cases spc; simp add: taken_def)
  qed
qed

text \<open>
  C5: Client and server programs on one segment.  Take any run of the server's loop and any run of the
  client's measuring loop, of the shm or of the mmap benchmark, whose single-byte accesses are in some
  interleaving those of one segment of at least nine bytes, with any contents at the start.  Then neither
  program fails, however long they run and wherever each has the segment.  The start times the client
  has copied out, byte by byte, are the clock readings of the server, complete and in order, up to one
  at the beginning that answered a guard left over from an earlier run and one under way; and a client
  that has left its loop has counted and measured each of them against its own next clock reading.
\<close>

theorem guard_programs_measure:
  assumes "server \<in> {shm_server_round f seg, mmap_server_round f seg}"
    and "client \<in> {shm_client_round f' seg', mmap_client_round f' seg'}"
    and "seg \<noteq> -1" and "seg' \<noteq> -1" and "9 \<le> length m"
    and "forever_c n server () w = ((r, w') :: (halt + unit) \<times> world)"
    and "timed_run k client bench v = (r', v')"
    and "joint (segment_obj seg) (segment_obj seg') m (events w w') (events v v') m'"
  defines "starts \<equiv> guard_starts (events v v')"
  shows "r = Inl Running \<and>
     (\<exists>pre post. concat (map reading (events w w')) = pre @ starts @ post \<and> length pre \<le> 1 \<and> length post \<le> 1) \<and>
     (case r' of Inl h \<Rightarrow> h = Running
      | Inr (b, cnt) \<Rightarrow> b = measure_all bench (zip starts (concat (map reading (events v v')))) \<and>
          cnt = of_nat (length starts))"
proof -
  have "server = shm_server_round f seg" and "client = shm_client_round f' seg'"
    using assms(1,2) by (auto simp: mmap_rounds)
  note runs = assms(6,7) [unfolded this]
  define s where "s = sample_handshake\<lparr>g_guard := hd m, g_data := take 8 (tl m), g_bench := bench\<rparr>"
  have "\<exists>behind. m = hd m # take 8 (tl m) @ behind"
    using assms(5) by (intro exI [of _ "drop 8 (tl m)"]) (cases m; simp)
  then have start: "open_init s" "guard_rep m (V_wait, []) (L_head, bench, []) s"
    using assms(5) by (auto simp: s_def open_init_def handshake_init_def sample_handshake_def guard_rep_def)
  from guard_programs.programs_reach [OF shm_server_loop_follows [OF assms(3)] runs(1)
      shm_client_loop_follows [OF assms(4)] runs(2) assms(8) start(2,1)]
  obtain p k s' where paths: "path (guard_server_auto seg) (V_wait, []) (events w w') = Some p"
      "path (guard_client_auto seg') (L_head, bench, []) (events v v') = Some k"
    and inv: "open_inv s'" and rep: "guard_rep m' p k s'"
    and outcomes: "outcome only_running (\<lambda>_ _. False) r p"
      "outcome only_running (\<lambda>x. between L_head (fst x) (snd x)) r' k"
    by auto
  have meas: "recorded guard_starts L_measure bench k (events v v')" using guard_client_measured [OF paths(2)] by simp
  have "r = Inl Running" using outcomes(1) by (simp split: sum.splits)
  moreover have "\<exists>pre post. taken p = pre @ starts @ post \<and> length pre \<le> 1 \<and> length post \<le> 1"
    using inv guard_delivers [OF _ rep meas] unfolding starts_def by (auto simp: open_inv_def)
  moreover have "b = measure_all bench (zip starts (concat (map reading (events v v')))) \<and> cnt = of_nat (length starts)"
    if "r' = Inr (b, cnt)" for b cnt
    using outcomes(2) that recorded_between [OF meas] unfolding starts_def by simp
  ultimately show ?thesis using outcomes(2) guard_server_sent [OF paths(1)] by (auto split: sum.splits)
qed

text \<open>One message through a segment that was fresh: the two worlds, and the interleaving.\<close>

definition sample_shm_server :: world where
  "sample_shm_server = \<lparr>w_os = (\<lambda>_ c. case c of
       Ipc (Shm_load _ _ _) \<Rightarrow> \<lparr>ret = 0, err = 0, dat = [turn_server], nums = [], addrs = []\<rparr>
     | Misc Timespec_get \<Rightarrow> \<lparr>ret = 1, err = 0, dat = [], nums = [3, 7], addrs = []\<rparr> | _ \<Rightarrow> ok_reply 0),
     w_calls = [], w_errno = 0\<rparr>"

definition sample_shm_client :: world where
  "sample_shm_client = \<lparr>w_os = (\<lambda>calls c. case c of
       Ipc (Shm_load _ off _) \<Rightarrow>
         \<lparr>ret = 0, err = 0, dat = [(turn_client # bytes_of_u64 (now_value 3 7)) ! off], nums = [], addrs = []\<rparr>
     | Misc Timespec_get \<Rightarrow> \<lparr>ret = 1, err = 0, dat = [], nums = [3, 9], addrs = []\<rparr>
     | Misc Gettimeofday \<Rightarrow>
         \<lparr>ret = 0, err = 0, dat = [], nums = [3, if Misc Timespec_get \<in> set calls then 200000 else 0], addrs = []\<rparr>
     | _ \<Rightarrow> ok_reply 0), w_calls = [], w_errno = 0\<rparr>"

definition server_copy :: "int \<Rightarrow> call list" where
  "server_copy seg = map (\<lambda>i. Ipc (Shm_store seg (Suc i) [bytes_of_u64 (now_value 3 7) ! i])) [0..<8]"

definition client_copy :: "int \<Rightarrow> call list" where
  "client_copy seg = map (\<lambda>i. Ipc (Shm_load seg (Suc i) 1)) [0..<8]"

lemma store_stamp: "store_bytes seg off (bytes_of_u64 t) = store_bytes seg off (map ((!) (bytes_of_u64 t)) [0..<8])"
  using map_nth [of "bytes_of_u64 t"] by simp

lemma load_stamp: "map ((!) (bytes_of_u64 t)) [0..<8] = bytes_of_u64 t"
  using map_nth [of "bytes_of_u64 t"] by simp

lemma sample_shm_server_run:
  "forever_c 1 (shm_server_round 1 4096) () sample_shm_server =
     ((Inl Running, sample_shm_server\<lparr>w_calls := [Ipc (Shm_load 4096 0 1), Misc Timespec_get] @ server_copy 4096 @
       [Ipc (Shm_store 4096 0 [turn_client])]\<rparr>) :: (halt + unit) \<times> world)"
  by (simp add: shm_server_round_def shm_server_wait_def shm_server_notify_def shared_load_def shared_store_def
      store_stamp sample_shm_server_def server_copy_def run_simps)

lemma sample_shm_client_run:
  "timed_run 2 (shm_client_round 1 8192) sample_bench sample_shm_client =
     (Inr (benchmark_at (sample_bench\<lparr>b_single_start := now_value 3 7\<rparr>) (now_value 3 9), 1),
      sample_shm_client\<lparr>w_calls := [Misc Gettimeofday, Misc Gettimeofday, Ipc (Shm_store 8192 0 [turn_server]),
        Ipc (Shm_load 8192 0 1)] @ client_copy 8192 @ [Misc Timespec_get, Misc Gettimeofday]\<rparr>)"
  using load_stamp [of "now_value 3 7"]
  by (simp add: shm_client_round_def shm_client_notify_def shm_client_msg_wait_def shm_client_wait_def shared_load_def
      shared_store_def sample_shm_client_def client_copy_def run_simps)

lemma sample_shm_joint:
  "joint (segment_obj 4096) (segment_obj 8192) (replicate 9 0)
     (events sample_shm_server (sample_shm_server\<lparr>w_calls := [Ipc (Shm_load 4096 0 1), Misc Timespec_get] @ server_copy 4096 @
       [Ipc (Shm_store 4096 0 [turn_client])]\<rparr>))
     (events sample_shm_client (sample_shm_client\<lparr>w_calls := [Misc Gettimeofday, Misc Gettimeofday,
        Ipc (Shm_store 8192 0 [turn_server]), Ipc (Shm_load 8192 0 1)] @ client_copy 8192 @
        [Misc Timespec_get, Misc Gettimeofday]\<rparr>)) (turn_client # map ((!) (bytes_of_u64 (now_value 3 7))) [0..<8])"
  by (rule play_joint [where sched = "replicate 3 False @ replicate 11 True @ replicate 11 False"])
    (simp add: events_def sample_shm_server_def sample_shm_client_def server_copy_def client_copy_def segment_obj_def
      eval_nat_numeral)

theorem guard_programs_measure_witness:
  "case fst (timed_run 2 (shm_client_round 1 8192) sample_bench sample_shm_client) of
     Inl _ \<Rightarrow> False | Inr (b, cnt) \<Rightarrow> cnt = 1"
  using guard_programs_measure [OF _ _ _ _ _ sample_shm_server_run sample_shm_client_run sample_shm_joint]
  unfolding sample_shm_client_run by simp

end
