(* ===== verification/Message_Queue.thy ===== *)
theory Message_Queue
  imports Stream_Sockets Trace_Logic
begin

text \<open>
  The System V message queue benchmark \<^verbatim>\<open>source/mq\<close>: the programs over system calls, and both
  processes on the queue as a step relation.
\<close>

section \<open>The programs\<close>

definition MAXIMUM_MESSAGE_SIZE :: c_int where "MAXIMUM_MESSAGE_SIZE = 2048"
definition CLIENT_MESSAGE :: int where "CLIENT_MESSAGE = 1"
definition SERVER_MESSAGE :: int where "SERVER_MESSAGE = 2"

text \<open>A message with its flexible array; the room behind the type is \<open>args->size\<close> bytes.\<close>

record Message =
  m_type :: int
  m_buffer :: "u8 list"

definition create_message :: "Arguments \<Rightarrow> Message prog" where
  "create_message args =
     bind_c (malloc (8 + sint (a_size args))) (\<lambda>block. return_c \<lparr>m_type = 0, m_buffer = drop 8 block\<rparr>)"

text \<open>What a write of \<open>bs\<close> at the start of the buffer leaves, or none if it does not fit.\<close>

definition put_buffer :: "Message \<Rightarrow> u8 list \<Rightarrow> Arguments \<Rightarrow> Message prog" where
  "put_buffer message bs args =
     (if int (length bs) \<le> sint (a_size args)
      then return_c (message\<lparr>m_buffer := bs @ drop (length bs) (m_buffer message)\<rparr>)
      else halt_c (Undefined ''write beyond the message''))"

definition receive_message :: "int \<Rightarrow> Message \<Rightarrow> int \<Rightarrow> int \<Rightarrow> Arguments \<Rightarrow> (int \<times> Message) prog" where
  "receive_message mq message sz type args =
     bind_c (sys (Ipc (Msgrcv mq sz type))) (\<lambda>r.
       if ret r < 0 then return_c (ret r, message)
       else bind_c (put_buffer (message\<lparr>m_type := type\<rparr>) (payload r) args) (\<lambda>message. return_c (ret r, message)))"

definition mq_client_msg_wait :: "int \<Rightarrow> Arguments \<Rightarrow> Message \<times> Benchmarks \<Rightarrow> (Message \<times> Benchmarks) prog" where
  "mq_client_msg_wait mq args = (\<lambda>(message, bench).
     bind_c (receive_message mq message 8 SERVER_MESSAGE args) (\<lambda>(r, message).
       if r < 8 then throw ''Error receiving on client-side''
       else bind_c (benchmark (bench\<lparr>b_single_start := u64_of_bytes (take 8 (m_buffer message))\<rparr>))
         (\<lambda>bench. return_c (message, bench))))"

definition mq_client_create_mq :: "sigaction \<Rightarrow> int prog" where
  "mq_client_create_mq sa0 =
     seq_c (client_once sa0 WAIT)
     (bind_c (generate_key ''mq'') (\<lambda>key.
      bind_c (sys_ret (Ipc (Msgget key False))) (\<lambda>mq.
       if mq = -1 then throw ''Error retrieving message-queue on client-side'' else return_c mq)))"

definition mq_client_round :: "int \<Rightarrow> Arguments \<Rightarrow> Message \<times> Benchmarks \<Rightarrow> (Message \<times> Benchmarks) prog" where
  "mq_client_round mq args = (\<lambda>(message, bench).
     if sint (a_size args) < 0 then halt_c (Undefined ''memset beyond the message'')
     else bind_c (put_buffer (message\<lparr>m_type := CLIENT_MESSAGE\<rparr>) (replicate (nat (sint (a_size args))) 0x31) args)
       (\<lambda>message.
        bind_c (sys_ret (Ipc (Msgsnd mq (m_type message) (take (nat (sint (a_size args))) (m_buffer message)) False)))
          (\<lambda>r. if r = -1 then throw ''Error sending on client-side''
               else mq_client_msg_wait mq args (message, bench))))"

definition mq_client_main :: "nat \<Rightarrow> sigaction \<Rightarrow> Benchmarks \<Rightarrow> string list \<Rightarrow> report prog" where
  "mq_client_main n sa0 bench0 argv =
     (let args = parse_arguments argv;
          args = (if sint (a_size args) > sint MAXIMUM_MESSAGE_SIZE then args\<lparr>a_size := MAXIMUM_MESSAGE_SIZE\<rparr> else args) in
      bind_c (create_message args) (\<lambda>message.
      bind_c (mq_client_create_mq sa0) (\<lambda>mq.
      bind_c (setup_benchmarks bench0) (\<lambda>bench.
      bind_c (timed_run n (mq_client_round mq args) (message, bench)) (\<lambda>((message, bench), cnt).
      seq_c (print_count cnt [])
      (bind_c (evaluate bench args) (\<lambda>report.
       seq_c (sys_do (Misc (Free 0))) (return_c report))))))))"

definition mq_server_cleanup :: "int \<Rightarrow> unit prog" where
  "mq_server_cleanup mq =
     bind_c (sys_ret (Ipc (Msgctl_rmid mq))) (\<lambda>r.
       if r = -1 then throw ''Error removing message queue'' else sys_do (Misc (Free 0)))"

definition mq_server_round :: "int \<Rightarrow> Arguments \<Rightarrow> Message \<Rightarrow> Message prog" where
  "mq_server_round mq args message =
     bind_c (receive_message mq message (sint (a_size args)) CLIENT_MESSAGE args) (\<lambda>(r, message).
       if r < sint (a_size args) then throw ''Error receiving on server-side''
       else bind_c now (\<lambda>timestamp.
         bind_c (put_buffer (message\<lparr>m_type := SERVER_MESSAGE\<rparr>) (bytes_of_u64 timestamp) args) (\<lambda>message.
         bind_c (sys_ret (Ipc (Msgsnd mq (m_type message) (take 8 (m_buffer message)) True))) (\<lambda>r.
           if r = -1 then throw ''Error sending on server-side'' else return_c message))))"

definition mq_server_communicate :: "nat \<Rightarrow> int \<Rightarrow> Arguments \<Rightarrow> unit prog" where
  "mq_server_communicate n mq args =
     bind_c (create_message args) (\<lambda>message.
     seq_c (forever_c n (mq_server_round mq args) message) (mq_server_cleanup mq))"

definition mq_server_create_mq :: "sigaction \<Rightarrow> int prog" where
  "mq_server_create_mq sa0 =
     bind_c (generate_key ''mq'') (\<lambda>key.
     bind_c (sys_ret (Ipc (Msgget key True))) (\<lambda>mq.
     if mq = -1 then throw ''Error creating message-queue on server-side''
     else seq_c (server_once sa0 NOTIFY) (return_c mq)))"

definition limit_message_size :: "Arguments \<Rightarrow> Arguments prog" where
  "limit_message_size args =
     (if sint (a_size args) > sint MAXIMUM_MESSAGE_SIZE
      then seq_c (print_error ''Reduced the message size to 2048 bytes!'')
        (return_c (args\<lparr>a_size := MAXIMUM_MESSAGE_SIZE\<rparr>))
      else return_c args)"

definition mq_server_main :: "nat \<Rightarrow> sigaction \<Rightarrow> string list \<Rightarrow> int prog" where
  "mq_server_main n sa0 argv =
     bind_c (limit_message_size (parse_arguments argv)) (\<lambda>args.
     bind_c (mq_server_create_mq sa0) (\<lambda>mq.
     seq_c (mq_server_communicate n mq args) (return_c 0)))"

section \<open>One round of the server\<close>

text \<open>A queue that hands out complete messages and accepts every answer.\<close>

definition queue_serves :: "os \<Rightarrow> int \<Rightarrow> nat \<Rightarrow> bool" where
  "queue_serves os mq sz \<longleftrightarrow>
     (\<forall>calls. ret (os calls (Ipc (Msgrcv mq (int sz) CLIENT_MESSAGE))) = int sz \<and>
        length (dat (os calls (Ipc (Msgrcv mq (int sz) CLIENT_MESSAGE)))) = sz) \<and>
     (\<forall>calls bs. ret (os calls (Ipc (Msgsnd mq SERVER_MESSAGE bs True))) = 0)"

text \<open>
  One round of the message-queue server.  With messages of at least eight bytes, a queue that hands
  out complete messages and accepts answers makes the server receive one message, read the clock and
  answer with exactly the eight bytes of that reading.  With shorter messages every round writes the
  timestamp beyond the end of the message it allocated.
\<close>

theorem mq_server_round_outcome:
  assumes "queue_serves (w_os w) mq (nat (sint (a_size args)))" and "0 \<le> sint (a_size args)"
  shows "if 8 \<le> sint (a_size args)
     then \<exists>message' w' stamp. mq_server_round mq args message w = (Inr message', w') \<and> w_os w' = w_os w \<and>
       fst (now (w\<lparr>w_calls := w_calls w @ [Ipc (Msgrcv mq (sint (a_size args)) CLIENT_MESSAGE)]\<rparr>)) = Inr stamp \<and>
       w_calls w' = w_calls w @ [Ipc (Msgrcv mq (sint (a_size args)) CLIENT_MESSAGE), Misc Timespec_get,
         Ipc (Msgsnd mq SERVER_MESSAGE (bytes_of_u64 stamp) True)]
     else fst (mq_server_round mq args message w) = Inl (Undefined ''write beyond the message'')"
  using assms
  by (simp add: mq_server_round_def receive_message_def put_buffer_def queue_serves_def now_def sys_def Let_def
      throw_def prog_simps)

definition sample_mq_world :: world where
  "sample_mq_world = \<lparr>w_os = (\<lambda>_ c. case c of
       Ipc (Msgrcv _ sz _) \<Rightarrow> \<lparr>ret = sz, err = 0, dat = replicate (nat sz) 0x31, nums = [], addrs = []\<rparr>
     | Misc Timespec_get \<Rightarrow> \<lparr>ret = 1, err = 0, dat = [], nums = [3, 7], addrs = []\<rparr>
     | _ \<Rightarrow> ok_reply 0), w_calls = [], w_errno = 0\<rparr>"

theorem mq_server_round_outcome_witness:
  "fst (mq_server_round 5 \<lparr>a_size = 4, a_count = 1\<rparr> \<lparr>m_type = 0, m_buffer = []\<rparr> sample_mq_world) =
     Inl (Undefined ''write beyond the message'')"
  using mq_server_round_outcome [of sample_mq_world 5 "\<lparr>a_size = 4, a_count = 1\<rparr>" "\<lparr>m_type = 0, m_buffer = []\<rparr>"]
  by (simp add: queue_serves_def sample_mq_world_def)

section \<open>Both processes on the queue\<close>

text \<open>
  The queue is a list of typed messages and holds at most \<open>qbytes\<close> bytes.  A receiver takes the first
  message of its type and blocks while there is none; it fails on one that is longer than its buffer
  (which stays in the queue) or shorter than expected.  A message that does not fit into the queue blocks the client
  and, sent without waiting, makes the server fail.
\<close>

type_synonym queue = "(int \<times> u8 list) list"

fun take_message :: "int \<Rightarrow> queue \<Rightarrow> (u8 list \<times> queue) option" where
  "take_message ty [] = None"
| "take_message ty ((ty', bs) # q) =
     (if ty' = ty then Some (bs, q) else map_option (\<lambda>(b, q'). (b, (ty', bs) # q')) (take_message ty q))"

definition queued_bytes :: "queue \<Rightarrow> nat" where
  "queued_bytes q = sum_list (map (length \<circ> snd) q)"

datatype mqs_pc = W_recv | W_now | W_send u64 | W_failed

datatype mqc_pc = K_head | K_send | K_recv | K_measure | K_done | K_failed

record mq_state =
  mq_queue :: queue
  mq_spc :: mqs_pc
  mq_cpc :: mqc_pc
  mq_bench :: Benchmarks
  mq_sent :: "u64 list"
  mq_got :: "u64 list"

inductive mq_step :: "nat \<Rightarrow> nat \<Rightarrow> mq_state \<Rightarrow> mq_state \<Rightarrow> bool" for sz qbytes :: nat where
  mq_s_recv: "mq_spc s = W_recv \<Longrightarrow> take_message CLIENT_MESSAGE (mq_queue s) = Some (bs, q) \<Longrightarrow> length bs \<le> sz \<Longrightarrow>
     mq_step sz qbytes s (s\<lparr>mq_queue := q, mq_spc := (if length bs < sz then W_failed else W_now)\<rparr>)"
| mq_s_long: "mq_spc s = W_recv \<Longrightarrow> take_message CLIENT_MESSAGE (mq_queue s) = Some (bs, q) \<Longrightarrow> \<not> length bs \<le> sz \<Longrightarrow>
     mq_step sz qbytes s (s\<lparr>mq_spc := W_failed\<rparr>)"
| mq_s_now: "mq_spc s = W_now \<Longrightarrow> mq_step sz qbytes s (s\<lparr>mq_spc := W_send t\<rparr>)"
| mq_s_send: "mq_spc s = W_send t \<Longrightarrow> queued_bytes (mq_queue s) + 8 \<le> qbytes \<Longrightarrow>
     mq_step sz qbytes s (s\<lparr>mq_queue := mq_queue s @ [(SERVER_MESSAGE, bytes_of_u64 t)], mq_spc := W_recv,
       mq_sent := mq_sent s @ [t]\<rparr>)"
| mq_s_full: "mq_spc s = W_send t \<Longrightarrow> \<not> queued_bytes (mq_queue s) + 8 \<le> qbytes \<Longrightarrow>
     mq_step sz qbytes s (s\<lparr>mq_spc := W_failed\<rparr>)"
| mq_c_leave: "mq_cpc s = K_head \<Longrightarrow> mq_step sz qbytes s (s\<lparr>mq_cpc := K_done\<rparr>)"
| mq_c_go: "mq_cpc s = K_head \<Longrightarrow> mq_step sz qbytes s (s\<lparr>mq_cpc := K_send\<rparr>)"
| mq_c_send: "mq_cpc s = K_send \<Longrightarrow> queued_bytes (mq_queue s) + sz \<le> qbytes \<Longrightarrow>
     mq_step sz qbytes s (s\<lparr>mq_queue := mq_queue s @ [(CLIENT_MESSAGE, replicate sz 0x31)], mq_cpc := K_recv\<rparr>)"
| mq_c_recv: "mq_cpc s = K_recv \<Longrightarrow> take_message SERVER_MESSAGE (mq_queue s) = Some (bs, q) \<Longrightarrow> length bs \<le> 8 \<Longrightarrow>
     mq_step sz qbytes s (s\<lparr>mq_queue := q, mq_cpc := (if length bs < 8 then K_failed else K_measure),
       mq_bench := (mq_bench s)\<lparr>b_single_start := u64_of_bytes (take 8 bs)\<rparr>\<rparr>)"
| mq_c_long: "mq_cpc s = K_recv \<Longrightarrow> take_message SERVER_MESSAGE (mq_queue s) = Some (bs, q) \<Longrightarrow> \<not> length bs \<le> 8 \<Longrightarrow>
     mq_step sz qbytes s (s\<lparr>mq_cpc := K_failed\<rparr>)"
| mq_c_measure: "mq_cpc s = K_measure \<Longrightarrow>
     mq_step sz qbytes s (s\<lparr>mq_cpc := K_head, mq_bench := benchmark_at (mq_bench s) u,
       mq_got := mq_got s @ [b_single_start (mq_bench s)]\<rparr>)"

definition mq_init :: "nat \<Rightarrow> nat \<Rightarrow> mq_state \<Rightarrow> bool" where
  "mq_init sz qbytes s \<longleftrightarrow> 8 \<le> sz \<and> sz \<le> qbytes \<and> mq_queue s = [] \<and> mq_spc s = W_recv \<and>
     mq_cpc s = K_head \<and> b_count (mq_bench s) = 0 \<and> mq_sent s = [] \<and> mq_got s = []"

text \<open>Where the one message is: with the client, queued for the server, with it, or queued for the client.\<close>

definition at_client_side :: "mq_state \<Rightarrow> bool" where
  "at_client_side s \<longleftrightarrow> mq_cpc s \<noteq> K_recv \<and> mq_cpc s \<noteq> K_failed \<and> mq_queue s = [] \<and> mq_spc s = W_recv \<and>
     mq_sent s = mq_got s @ (if mq_cpc s = K_measure then [b_single_start (mq_bench s)] else [])"

definition asked :: "nat \<Rightarrow> mq_state \<Rightarrow> bool" where
  "asked sz s \<longleftrightarrow> mq_cpc s = K_recv \<and> mq_queue s = [(CLIENT_MESSAGE, replicate sz 0x31)] \<and> mq_spc s = W_recv \<and>
     mq_sent s = mq_got s"

definition at_server_side :: "mq_state \<Rightarrow> bool" where
  "at_server_side s \<longleftrightarrow> mq_cpc s = K_recv \<and> mq_queue s = [] \<and> (mq_spc s = W_now \<or> (\<exists>t. mq_spc s = W_send t)) \<and>
     mq_sent s = mq_got s"

definition replied :: "mq_state \<Rightarrow> bool" where
  "replied s \<longleftrightarrow> mq_cpc s = K_recv \<and> mq_spc s = W_recv \<and>
     (\<exists>t. mq_queue s = [(SERVER_MESSAGE, bytes_of_u64 t)] \<and> mq_sent s = mq_got s @ [t])"

definition mq_inv :: "nat \<Rightarrow> nat \<Rightarrow> mq_state \<Rightarrow> bool" where
  "mq_inv sz qbytes s \<longleftrightarrow> 8 \<le> sz \<and> sz \<le> qbytes \<and> b_count (mq_bench s) = of_nat (length (mq_got s)) \<and>
     (at_client_side s \<or> asked sz s \<or> at_server_side s \<or> replied s)"

lemmas mq_defs = mq_inv_def at_client_side_def asked_def at_server_side_def replied_def
  CLIENT_MESSAGE_def SERVER_MESSAGE_def queued_bytes_def

lemma mq_inv_init: "mq_init sz qbytes s \<Longrightarrow> mq_inv sz qbytes s"
  by (simp add: mq_init_def mq_defs)

lemma mq_inv_step: "mq_inv sz qbytes s \<Longrightarrow> mq_step sz qbytes s t \<Longrightarrow> mq_inv sz qbytes t"
  by (erule mq_step.cases) (auto simp: mq_defs benchmark_at_def Let_def)

lemma mq_progress:
  assumes "mq_inv sz qbytes s" and "mq_cpc s \<noteq> K_done"
  shows "\<exists>t. mq_step sz qbytes s t"
proof -
  consider "at_client_side s" | "asked sz s" | "at_server_side s" | "replied s"
    using assms(1) by (auto simp: mq_inv_def)
  then show ?thesis
  proof cases
    case 1
    then have "mq_queue s = []" by (simp add: at_client_side_def)
    then have "queued_bytes (mq_queue s) + sz \<le> qbytes" using assms(1) by (simp add: mq_inv_def queued_bytes_def)
    moreover have "mq_cpc s \<noteq> K_recv" "mq_cpc s \<noteq> K_failed" using 1 by (simp_all add: at_client_side_def)
    ultimately show ?thesis
      using assms(2) by (cases "mq_cpc s") (use mq_c_go mq_c_send mq_c_measure in blast)+
  next
    case 2
    then show ?thesis using mq_s_recv [of s "replicate sz 0x31" "[]"] by (auto simp: asked_def)
  next
    case 3
    then show ?thesis using mq_s_now mq_s_send mq_s_full unfolding at_server_side_def by metis
  next
    case 4
    then obtain t where "mq_cpc s = K_recv" and "take_message SERVER_MESSAGE (mq_queue s) = Some (bytes_of_u64 t, [])"
      by (auto simp: replied_def)
    then show ?thesis using mq_c_recv [of s "bytes_of_u64 t"] by auto
  qed
qed

interpretation one_message: live_system "mq_init sz qbytes" "mq_step sz qbytes" "mq_inv sz qbytes"
    "\<lambda>s. mq_cpc s = K_done" for sz qbytes
  by unfold_locales (blast intro: mq_inv_init mq_inv_step mq_progress)+

text \<open>
  C13: The exchange over the message queue.  If a message has room for a timestamp and fits into the queue, then in every reachable
  state at most one is there, neither process has failed (in particular the answer sent without
  waiting is never refused), the start times the client has measured are the server's clock readings
  in order with at most one still under way, and nothing deadlocks before the client leaves its loop.
\<close>

theorem mq_exchange:
  assumes "reach (mq_init sz qbytes) (mq_step sz qbytes) s"
  shows "length (mq_queue s) \<le> 1 \<and> mq_spc s \<noteq> W_failed \<and> mq_cpc s \<noteq> K_failed \<and>
     (mq_sent s = mq_got s \<or> (\<exists>t. mq_sent s = mq_got s @ [t])) \<and>
     b_count (mq_bench s) = of_nat (length (mq_got s)) \<and>
     (stuck (mq_step sz qbytes) s \<longrightarrow> mq_cpc s = K_done)"
proof -
  have inv: "mq_inv sz qbytes s" using assms by (rule one_message.reach_inv)
  then have "length (mq_queue s) \<le> 1" and "mq_spc s \<noteq> W_failed" and "mq_cpc s \<noteq> K_failed"
    and "mq_sent s = mq_got s \<or> (\<exists>t. mq_sent s = mq_got s @ [t])"
    and "b_count (mq_bench s) = of_nat (length (mq_got s))"
    by (auto simp: mq_defs split: if_splits)
  then show ?thesis using one_message.no_deadlock [OF assms] by blast
qed

definition sample_mq :: mq_state where
  "sample_mq = \<lparr>mq_queue = [], mq_spc = W_recv, mq_cpc = K_head, mq_bench = sample_bench, mq_sent = [], mq_got = []\<rparr>"

text \<open>One message on its way to the server.\<close>

theorem mq_exchange_witness:
  "\<exists>s. reach (mq_init 8 16384) (mq_step 8 16384) s \<and> mq_queue s \<noteq> [] \<and> mq_spc s \<noteq> W_failed"
proof -
  define s1 where "s1 = sample_mq\<lparr>mq_cpc := K_send\<rparr>"
  define s2 where "s2 = s1\<lparr>mq_queue := mq_queue s1 @ [(CLIENT_MESSAGE, replicate 8 0x31)], mq_cpc := K_recv\<rparr>"
  have init: "mq_init 8 16384 sample_mq" by (simp add: mq_init_def sample_mq_def sample_bench_def)
  have "mq_step 8 16384 sample_mq s1" unfolding s1_def by (rule mq_c_go) (simp add: sample_mq_def)
  moreover have "mq_step 8 16384 s1 s2" unfolding s2_def
    by (rule mq_c_send) (simp_all add: s1_def sample_mq_def queued_bytes_def)
  ultimately have reached: "reach (mq_init 8 16384) (mq_step 8 16384) s2"
    using one_message.run_reach [OF reach_init [where init = "mq_init 8 16384", OF init], of "[s1, s2]"] by simp
  moreover have "mq_queue s2 \<noteq> []" by (simp add: s2_def)
  ultimately show ?thesis using mq_exchange [OF reached] by blast
qed

section \<open>The programs on the queue\<close>

text \<open>What the events of each side mean for its control point, statistics and ghost lists.\<close>

fun mq_server_auto :: "int \<Rightarrow> nat \<Rightarrow> mqs_pc \<times> u64 list \<Rightarrow> event \<Rightarrow> (mqs_pc \<times> u64 list) option" where
  "mq_server_auto mq sz (W_recv, sent) (c, r) =
     (if c = Ipc (Msgrcv mq (int sz) CLIENT_MESSAGE) then Some (if ret r = int sz then W_now else W_failed, sent) else None)"
| "mq_server_auto mq sz (W_now, sent) (c, r) =
     (if c = Misc Timespec_get then Some (W_send (now_value (nums r ! 0) (nums r ! 1)), sent) else None)"
| "mq_server_auto mq sz (W_send t, sent) (c, r) =
     (if c = Ipc (Msgsnd mq SERVER_MESSAGE (bytes_of_u64 t) True)
      then Some (if ret r = -1 then (W_failed, sent) else (W_recv, sent @ [t])) else None)"
| "mq_server_auto mq sz (W_failed, sent) e = None"

type_synonym mqc_state = "mqc_pc client"

fun mq_client_auto :: "int \<Rightarrow> nat \<Rightarrow> mqc_state \<Rightarrow> event \<Rightarrow> mqc_state option" where
  "mq_client_auto mq sz (K_head, b, ms) (c, r) =
     (if c = Misc Gettimeofday then Some (K_head, b, ms)
      else if c = Ipc (Msgsnd mq CLIENT_MESSAGE (replicate sz 0x31) False)
      then Some (if ret r = -1 then K_failed else K_recv, b, ms) else None)"
| "mq_client_auto mq sz (K_recv, b, ms) (c, r) =
     (if c = Ipc (Msgrcv mq 8 SERVER_MESSAGE)
      then Some (if ret r < 8 \<or> int sz < ret r then (K_failed, b, ms)
        else (K_measure, b\<lparr>b_single_start := u64_of_bytes (take 8 (payload r))\<rparr>, ms))
      else None)"
| "mq_client_auto mq sz (K_measure, b, ms) (c, r) =
     (if c = Misc Timespec_get
      then Some (K_head, benchmark_at b (now_value (nums r ! 0) (nums r ! 1)),
        ms @ [(b_single_start b, now_value (nums r ! 0) (nums r ! 1))])
      else None)"
| "mq_client_auto mq sz (K_send, b, ms) e = None"
| "mq_client_auto mq sz (K_done, b, ms) e = None"
| "mq_client_auto mq sz (K_failed, b, ms) e = None"

text \<open>The kernel's queue: which reply a call gets, and what it leaves.\<close>

definition queue_obj :: "nat \<Rightarrow> int \<Rightarrow> queue \<Rightarrow> event \<Rightarrow> queue option" where
  "queue_obj qbytes mq q = (\<lambda>(c, r). case c of
     Ipc (Msgrcv mq' n ty) \<Rightarrow>
       if mq' \<noteq> mq then Some q
       else (case take_message ty q of None \<Rightarrow> None
         | Some (bs, q') \<Rightarrow>
             if int (length bs) \<le> n then (if ret r = int (length bs) \<and> dat r = bs then Some q' else None)
             else (if ret r = -1 then Some q else None))
   | Ipc (Msgsnd mq' ty bs nowait) \<Rightarrow>
       if mq' \<noteq> mq then Some q
       else if queued_bytes q + length bs \<le> qbytes then (if ret r = 0 then Some (q @ [(ty, bs)]) else None)
       else (if nowait \<and> ret r = -1 then Some q else None)
   | _ \<Rightarrow> Some q)"

fun mq_whole :: "queue \<Rightarrow> mqs_pc \<times> u64 list \<Rightarrow> mqc_state \<Rightarrow> mq_state" where
  "mq_whole q (spc, sent) (cpc, b, ms) =
     \<lparr>mq_queue = q, mq_spc = spc, mq_cpc = cpc, mq_bench = b, mq_sent = sent, mq_got = map fst ms\<rparr>"

lemma mq_server_steps:
  assumes "mq_inv sz qbytes (mq_whole q p k)" and "mq_server_auto mq sz p e = Some p'"
    and "queue_obj qbytes mq q e = Some q'"
  shows "(mq_step sz qbytes)\<^sup>*\<^sup>* (mq_whole q p k) (mq_whole q' p' k)"
proof -
  obtain spc sent cpc b ms c r where [simp]: "p = (spc, sent)" "k = (cpc, b, ms)" "e = (c, r)"
    by (cases p; cases k; cases e)
  have "mq_step sz qbytes (mq_whole q p k) (mq_whole q' p' k)"
  proof (cases spc)
    case W_recv
    then obtain bs where "take_message CLIENT_MESSAGE q = Some (bs, q')" "length bs = sz" "p' = (W_now, sent)"
      using assms by (auto simp: queue_obj_def mq_defs split: if_splits)
    then show ?thesis using mq_s_recv [of "mq_whole q p k" bs q' sz qbytes] W_recv by simp
  next
    case W_now
    then show ?thesis using assms mq_s_now [of "mq_whole q p k"] by (auto simp: queue_obj_def split: if_splits)
  next
    case (W_send t)
    then have "queued_bytes q + 8 \<le> qbytes" using assms(1) by (auto simp: mq_defs)
    then show ?thesis using W_send assms mq_s_send [of "mq_whole q p k" t qbytes sz]
      by (auto simp: queue_obj_def split: if_splits)
  qed (use assms in simp)
  then show ?thesis by simp
qed

lemma mq_client_steps:
  assumes "mq_inv sz qbytes (mq_whole q p k)" and "mq_client_auto mq sz k e = Some k'"
    and "queue_obj qbytes mq q e = Some q'"
  shows "(mq_step sz qbytes)\<^sup>*\<^sup>* (mq_whole q p k) (mq_whole q' p k')"
proof -
  obtain spc sent cpc b ms c r where [simp]: "p = (spc, sent)" "k = (cpc, b, ms)" "e = (c, r)"
    by (cases p; cases k; cases e)
  show ?thesis
  proof (cases cpc)
    case K_head
    show ?thesis
    proof (cases "c = Misc Gettimeofday")
      case True
      then show ?thesis using assms K_head by (simp add: queue_obj_def)
    next
      case False
      have "queued_bytes q + sz \<le> qbytes" using assms(1) K_head by (auto simp: mq_defs)
      then have new: "q' = q @ [(CLIENT_MESSAGE, replicate sz 0x31)]" "k' = (K_recv, b, ms)"
        using assms K_head False by (auto simp: queue_obj_def split: if_splits)
      have "mq_step sz qbytes (mq_whole q p k) (mq_whole q p (K_send, b, ms))"
        using K_head mq_c_go [of "mq_whole q p k"] by simp
      moreover have "mq_step sz qbytes (mq_whole q p (K_send, b, ms)) (mq_whole q' p k')"
        using \<open>queued_bytes q + sz \<le> qbytes\<close> mq_c_send [of "mq_whole q p (K_send, b, ms)" sz qbytes] new by simp
      ultimately show ?thesis by (meson converse_rtranclp_into_rtranclp r_into_rtranclp)
    qed
  next
    case K_recv
    then obtain bs where "take_message SERVER_MESSAGE q = Some (bs, q')" "length bs = 8"
        "k' = (K_measure, b\<lparr>b_single_start := u64_of_bytes bs\<rparr>, ms)"
      using assms by (auto simp: queue_obj_def mq_defs split: if_splits)
    then show ?thesis using mq_c_recv [of "mq_whole q p k" bs q' sz qbytes] K_recv by auto
  next
    case K_measure
    then show ?thesis using assms mq_c_measure [of "mq_whole q p k" sz qbytes]
      by (auto simp: queue_obj_def split: if_splits)
  qed (use assms in simp_all)
qed

interpretation mq_programs: program_pair "mq_init sz qbytes" "mq_step sz qbytes" "mq_inv sz qbytes"
    "mq_server_auto mq sz" "mq_client_auto mq sz" "queue_obj qbytes mq" "queue_obj qbytes mq"
    "\<lambda>q p k s. s = mq_whole q p k" for sz qbytes mq
  by unfold_locales (blast intro: mq_server_steps mq_client_steps)+

text \<open>The rounds of the two programs follow the automata; they stop only in the failed states.\<close>

definition mq_server_halt :: "halt \<Rightarrow> mqs_pc \<times> u64 list \<Rightarrow> bool" where
  "mq_server_halt h p \<longleftrightarrow> h = Running \<or> fst p = W_failed"

definition mq_client_halt :: "halt \<Rightarrow> mqc_state \<Rightarrow> bool" where
  "mq_client_halt h k \<longleftrightarrow> h = Running \<or> fst k = K_failed"

lemma mq_server_follows:
  assumes "8 \<le> sint (a_size args)" and "fst p = W_recv"
  shows "follows (mq_server_auto mq (nat (sint (a_size args)))) p (mq_server_round mq args message)
     (outcome mq_server_halt (\<lambda>_ p. fst p = W_recv))"
proof -
  obtain sent where "p = (W_recv, sent)" using assms(2) by (cases p) simp
  then show ?thesis using assms(1)
    by (auto simp: mq_server_round_def receive_message_def put_buffer_def mq_server_halt_def prog_norm
        intro!: follows_intros split: if_splits)
qed

lemma mq_server_loop_follows:
  assumes "8 \<le> sint (a_size args)"
  shows "follows (mq_server_auto mq (nat (sint (a_size args)))) (W_recv, []) (forever_c n (mq_server_round mq args) message)
     (outcome mq_server_halt (\<lambda>_ _. False))"
  using mq_server_follows [OF assms]
  by (intro follows_forever [where I = "\<lambda>_ p. fst p = W_recv"]) (simp_all add: mq_server_halt_def)

lemma mq_client_follows:
  assumes "8 \<le> sint (a_size args)" and "between K_head b cnt k"
  shows "follows (mq_client_auto mq (nat (sint (a_size args)))) k (mq_client_round mq args (message, b))
     (outcome mq_client_halt (\<lambda>x. between K_head (snd x) (cnt + 1)))"
proof -
  obtain ms where "k = (K_head, b, ms)" and "cnt = of_nat (length ms)" using assms by (cases k) (simp add: between_def)
  then show ?thesis using assms(1)
    by (auto simp: mq_client_round_def mq_client_msg_wait_def receive_message_def put_buffer_def mq_client_halt_def
        between_def prog_norm intro!: follows_intros split: if_splits)
qed

lemma mq_client_loop_follows:
  assumes "8 \<le> sint (a_size args)"
  shows "follows (mq_client_auto mq (nat (sint (a_size args)))) (K_head, b, []) (timed_run n (mq_client_round mq args) (message, b))
     (outcome mq_client_halt (\<lambda>x. between K_head (snd (fst x)) (snd x)))"
  by (rule follows_measuring_run [where bench_of = snd])
    (use mq_client_follows [OF assms] in \<open>auto simp: mq_client_halt_def between_def\<close>)

text \<open>The timestamps a server has sent and a client has received, read off their events.\<close>

fun mq_stamp :: "event \<Rightarrow> u64 list" where
  "mq_stamp (c, r) = (case c of Ipc (Msgsnd mq ty bs nowait) \<Rightarrow> if ret r = -1 then [] else [u64_of_bytes bs] | _ \<Rightarrow> [])"

fun mq_start :: "event \<Rightarrow> u64 list" where
  "mq_start (c, r) = (case c of Ipc (Msgrcv mq n ty) \<Rightarrow> if ret r < 8 then [] else [u64_of_bytes (take 8 (payload r))] | _ \<Rightarrow> [])"

lemma mq_server_sent:
  assumes "path (mq_server_auto mq sz) (W_recv, []) es = Some p"
  shows "snd p = concat (map mq_stamp es)"
  using assms
proof (rule path_inv [where I = "\<lambda>p es. snd p = concat (map mq_stamp es)", rotated])
  fix p es e p' assume "snd p = concat (map mq_stamp es)" and "mq_server_auto mq sz p e = Some p'"
  then show "snd p' = concat (map mq_stamp (es @ [e]))"
    by (cases p; cases e; cases "fst p") (auto split: if_splits)
qed simp

lemma mq_client_measured:
  assumes "path (mq_client_auto mq sz) (K_head, b0, []) es = Some k"
  shows "fst k = K_failed \<or> recorded (\<lambda>es. concat (map mq_start es)) K_measure b0 k es"
  using assms
proof (rule path_inv [where I = "\<lambda>k es. fst k = K_failed \<or> recorded (\<lambda>es. concat (map mq_start es)) K_measure b0 k es", rotated])
  fix k es e k' assume "fst k = K_failed \<or> recorded (\<lambda>es. concat (map mq_start es)) K_measure b0 k es" and "mq_client_auto mq sz k e = Some k'"
  then show "fst k' = K_failed \<or> recorded (\<lambda>es. concat (map mq_start es)) K_measure b0 k' (es @ [e])"
    by (cases k; cases e; cases "fst k") (auto simp: recorded_def split: if_splits)
qed (simp add: recorded_def)

text \<open>
  C6: Client and server programs on one queue.  Take any run of the server's loop and any run of the
  client's measuring loop whose calls, in some interleaving, the queue answers the way System V queues do.
  If a message has room for a timestamp and fits into the queue, then neither program fails, however
  long they run: each is still running or, the client, has left its loop.  The start times the client
  received are the timestamps the server sent, in order, with at most one under way, and a client that
  has left its loop has counted and measured each of them against its own next clock reading.
\<close>

theorem mq_programs_measure:
  assumes "8 \<le> sint (a_size args)" and "sint (a_size args) \<le> int qbytes" and "b_count bench = 0"
    and "forever_c n (mq_server_round mq args) message w = ((r, w') :: (halt + unit) \<times> world)"
    and "timed_run k (mq_client_round mq args) (message', bench) v = (r', v')"
    and "joint (queue_obj qbytes mq) (queue_obj qbytes mq) [] (events w w') (events v v') q"
  defines "stamps \<equiv> concat (map mq_stamp (events w w'))" and "starts \<equiv> concat (map mq_start (events v v'))"
  shows "r = Inl Running \<and> (\<exists>rest. stamps = starts @ rest \<and> length rest \<le> 1) \<and>
     (case r' of Inl h \<Rightarrow> h = Running
      | Inr ((_, b), cnt) \<Rightarrow> b = measure_all bench (zip starts (concat (map reading (events v v')))) \<and>
          cnt = of_nat (length starts))"
proof -
  define sz where "sz = nat (sint (a_size args))"
  have "mq_init sz qbytes (mq_whole [] (W_recv, []) (K_head, bench, []))"
    using assms(1-3) by (simp add: mq_init_def sz_def nat_le_iff le_nat_iff)
  from mq_programs.programs_reach [OF mq_server_loop_follows [OF assms(1)] assms(4)
      mq_client_loop_follows [OF assms(1)] assms(5,6) refl this [unfolded sz_def]]
  obtain p k where paths: "path (mq_server_auto mq sz) (W_recv, []) (events w w') = Some p"
      "path (mq_client_auto mq sz) (K_head, bench, []) (events v v') = Some k"
    and inv: "mq_inv sz qbytes (mq_whole q p k)"
    and outcomes: "outcome mq_server_halt (\<lambda>_ _. False) r p"
      "outcome mq_client_halt (\<lambda>x. between K_head (snd (fst x)) (snd x)) r' k"
    unfolding sz_def by auto
  have fine: "fst p \<noteq> W_failed" "fst k \<noteq> K_failed" using inv by (cases p; cases k; auto simp: mq_defs)+
  have meas: "recorded (\<lambda>es. concat (map mq_start es)) K_measure bench k (events v v')" using mq_client_measured [OF paths(2)] fine by simp
  have "r = Inl Running" using outcomes(1) fine by (simp add: mq_server_halt_def split: sum.splits)
  moreover have "\<exists>rest. stamps = starts @ rest \<and> length rest \<le> 1"
    using inv mq_server_sent [OF paths(1)] meas unfolding stamps_def starts_def
    by (cases p; cases k) (auto simp: recorded_def mq_defs split: if_splits)
  moreover have "h = Running" if "r' = Inl h" for h
    using outcomes(2) that fine by (simp add: mq_client_halt_def)
  moreover have "b = measure_all bench (zip starts (concat (map reading (events v v')))) \<and> cnt = of_nat (length starts)"
    if "r' = Inr ((m, b), cnt)" for m b cnt
    using outcomes(2) that recorded_between [OF meas] unfolding starts_def by simp
  ultimately show ?thesis by (auto split: sum.splits)
qed

text \<open>One message: the two worlds, and the interleaving.\<close>

definition sample_mq_client :: world where
  "sample_mq_client = \<lparr>w_os = (\<lambda>calls c. case c of
       Ipc (Msgrcv _ _ _) \<Rightarrow> \<lparr>ret = 8, err = 0, dat = bytes_of_u64 (now_value 3 7), nums = [], addrs = []\<rparr>
     | Misc Timespec_get \<Rightarrow> \<lparr>ret = 1, err = 0, dat = [], nums = [3, 9], addrs = []\<rparr>
     | Misc Gettimeofday \<Rightarrow>
         \<lparr>ret = 0, err = 0, dat = [], nums = [3, if Misc Timespec_get \<in> set calls then 200000 else 0], addrs = []\<rparr>
     | _ \<Rightarrow> ok_reply 0), w_calls = [], w_errno = 0\<rparr>"

abbreviation sample_mq_args :: Arguments where "sample_mq_args \<equiv> \<lparr>a_size = 8, a_count = 1\<rparr>"

abbreviation sample_message :: Message where "sample_message \<equiv> \<lparr>m_type = 0, m_buffer = []\<rparr>"

lemma sample_mq_server_run:
  "forever_c 1 (mq_server_round 5 sample_mq_args) sample_message sample_mq_world =
     ((Inl Running, sample_mq_world\<lparr>w_calls := [Ipc (Msgrcv 5 8 1), Misc Timespec_get,
       Ipc (Msgsnd 5 2 (bytes_of_u64 (now_value 3 7)) True)]\<rparr>) :: (halt + unit) \<times> world)"
  by (simp add: mq_server_round_def receive_message_def put_buffer_def sample_mq_world_def now_def
      CLIENT_MESSAGE_def SERVER_MESSAGE_def prog_simps sys_def Let_def throw_def)

lemma sample_mq_client_run:
  "timed_run 2 (mq_client_round 5 sample_mq_args) (sample_message, sample_bench) sample_mq_client =
     (Inr ((\<lparr>m_type = 2, m_buffer = bytes_of_u64 (now_value 3 7)\<rparr>,
         benchmark_at (sample_bench\<lparr>b_single_start := now_value 3 7\<rparr>) (now_value 3 9)), 1),
      sample_mq_client\<lparr>w_calls := [Misc Gettimeofday, Misc Gettimeofday, Ipc (Msgsnd 5 1 (replicate 8 0x31) False),
        Ipc (Msgrcv 5 8 2), Misc Timespec_get, Misc Gettimeofday]\<rparr>)"
  by (simp add: timed_run_def timed_loop.simps eval_nat_numeral mq_client_round_def mq_client_msg_wait_def receive_message_def put_buffer_def
      sample_mq_client_def now_def benchmark_def gettimeofday_def CLIENT_MESSAGE_def SERVER_MESSAGE_def prog_simps sys_def Let_def throw_def)

lemma sample_mq_joint:
  "joint (queue_obj 16384 5) (queue_obj 16384 5) []
     (events sample_mq_world (sample_mq_world\<lparr>w_calls := [Ipc (Msgrcv 5 8 1), Misc Timespec_get,
       Ipc (Msgsnd 5 2 (bytes_of_u64 (now_value 3 7)) True)]\<rparr>))
     (events sample_mq_client (sample_mq_client\<lparr>w_calls := [Misc Gettimeofday, Misc Gettimeofday,
       Ipc (Msgsnd 5 1 (replicate 8 0x31) False), Ipc (Msgrcv 5 8 2), Misc Timespec_get, Misc Gettimeofday]\<rparr>)) []"
  by (rule play_joint [where sched = "[False, False, False, True, True, True, False, False, False]"])
    (simp add: events_def sample_mq_world_def sample_mq_client_def queue_obj_def queued_bytes_def)

theorem mq_programs_measure_witness:
  "case fst (timed_run 2 (mq_client_round 5 sample_mq_args) (sample_message, sample_bench) sample_mq_client) of
     Inl _ \<Rightarrow> False | Inr ((_, b), cnt) \<Rightarrow> b = measure_all sample_bench [(now_value 3 7, now_value 3 9)] \<and> cnt = 1"
  using mq_programs_measure [OF _ _ _ sample_mq_server_run sample_mq_client_run sample_mq_joint]
  unfolding sample_mq_client_run by (simp add: events_def sample_mq_client_def sample_bench_def)

end
