(* ===== verification/Signal_Streams.thy ===== *)
theory Signal_Streams
  imports Stream_Sockets
begin

text \<open>
  The benchmarks that take turns by signals: \<^verbatim>\<open>source/signal\<close>, which sends nothing else, and
  \<^verbatim>\<open>source/pipe/pipe.c\<close> and \<^verbatim>\<open>source/fifo\<close>, which send a timestamp through a stream.  First the
  programs over system calls; then the two processes of the pipe and fifo benchmarks side by side.
\<close>

section \<open>The signal benchmark\<close>

text \<open>
  The client's loop counts \<open>args->size\<close> down while it tests \<open>args->count\<close>; the decrement of the smallest
  \<open>int\<close> is undefined.
\<close>

fun signal_client_rounds :: "nat \<Rightarrow> sigaction \<Rightarrow> Arguments \<Rightarrow> Arguments prog" where
  "signal_client_rounds 0 signal_action args = halt_c Running"
| "signal_client_rounds (Suc n) signal_action args =
     (if sint (a_count args) > 0 then
        seq_c (wait_for_signal signal_action)
        (seq_c notify_server
        (if sint (a_size args) = - (2 ^ 31) then halt_c (Undefined ''signed overflow'')
         else signal_client_rounds n signal_action (args\<lparr>a_size := a_size args - 1\<rparr>)))
      else return_c args)"

definition signal_client_communicate :: "nat \<Rightarrow> sigaction \<Rightarrow> Arguments \<Rightarrow> unit prog" where
  "signal_client_communicate n signal_action args =
     seq_c notify_server (bind_c (signal_client_rounds n signal_action args) (\<lambda>_. return_c ()))"

definition signal_client_main :: "nat \<Rightarrow> sigaction \<Rightarrow> string list \<Rightarrow> unit prog" where
  "signal_client_main n sa0 argv =
     bind_c (setup_client_signals sa0) (\<lambda>signal_action.
     signal_client_communicate n signal_action (parse_arguments argv))"

fun signal_server_rounds :: "sigaction \<Rightarrow> nat \<Rightarrow> Benchmarks \<Rightarrow> Benchmarks prog" where
  "signal_server_rounds signal_action 0 bench = return_c bench"
| "signal_server_rounds signal_action (Suc left) bench =
     bind_c now (\<lambda>t.
     seq_c notify_client
     (seq_c (wait_for_signal signal_action)
     (bind_c (benchmark (bench\<lparr>b_single_start := t\<rparr>)) (signal_server_rounds signal_action left))))"

definition signal_server_communicate :: "Benchmarks \<Rightarrow> sigaction \<Rightarrow> Arguments \<Rightarrow> report prog" where
  "signal_server_communicate bench0 signal_action args =
     seq_c (wait_for_signal signal_action)
     (bind_c (setup_benchmarks bench0) (\<lambda>bench.
      bind_c (signal_server_rounds signal_action (nat (sint (a_count args))) bench) (\<lambda>bench.
      evaluate bench (args\<lparr>a_size := 1\<rparr>))))"

definition signal_server_main :: "Benchmarks \<Rightarrow> sigaction \<Rightarrow> string list \<Rightarrow> report prog" where
  "signal_server_main bench0 sa0 argv =
     bind_c (setup_server_signals sa0) (\<lambda>signal_action.
     signal_server_communicate bench0 signal_action (parse_arguments argv))"

section \<open>The pipe benchmark\<close>

text \<open>
  \<open>char mode[1]\<close> has no room for a terminating zero: what \<open>fdopen\<close> reads is the letter followed by the
  bytes \<open>behind\<close> it, up to the next zero.
\<close>

definition open_stream :: "string \<Rightarrow> int \<times> int \<Rightarrow> bool \<Rightarrow> int prog" where
  "open_stream behind file_descriptor to_open =
     (let mode = (if to_open then CHR ''w'' else CHR ''r'') # behind in
      seq_c (sys_do (File (Close (if to_open then fst file_descriptor else snd file_descriptor))))
      (bind_c (sys_ret (File (Fdopen (if to_open then snd file_descriptor else fst file_descriptor) mode))) (\<lambda>stream.
       if stream = 0 then throw ''Could not open stream for reading'' else return_c stream)))"

text \<open>\<open>fread\<close> and \<open>fwrite\<close> return an unsigned number of items, which never equals -1.\<close>

definition pipe_client_round :: "int \<Rightarrow> sigaction \<Rightarrow> Benchmarks \<Rightarrow> Benchmarks prog" where
  "pipe_client_round stream signal_action bench =
     seq_c notify_server
     (seq_c (wait_for_signal signal_action)
     (bind_c (sys (File (Fread stream))) (\<lambda>r.
      benchmark (if ret r = 1 then bench\<lparr>b_single_start := u64_of_bytes (dat r)\<rparr> else bench))))"

definition pipe_client_communicate ::
    "nat \<Rightarrow> string \<Rightarrow> sigaction \<Rightarrow> Benchmarks \<Rightarrow> int \<times> int \<Rightarrow> Arguments \<Rightarrow> report prog" where
  "pipe_client_communicate n behind sa0 bench0 file_descriptors args =
     bind_c (open_stream behind file_descriptors False) (\<lambda>stream.
     bind_c (setup_client_signals sa0) (\<lambda>signal_action.
     bind_c (setup_benchmarks bench0) (\<lambda>bench.
     bind_c (timed_run n (pipe_client_round stream signal_action) bench) (\<lambda>(bench, cnt).
     seq_c (print_count cnt [])
     (bind_c (evaluate bench args) (\<lambda>report.
      seq_c (sys_do (File (Close (snd file_descriptors)))) (return_c report)))))))"

definition pipe_server_round :: "int \<Rightarrow> sigaction \<Rightarrow> unit \<Rightarrow> unit prog" where
  "pipe_server_round stream signal_action _ =
     seq_c (wait_for_signal signal_action)
     (bind_c now (\<lambda>timestamp.
      seq_c (sys_do (File (Fwrite stream (bytes_of_u64 timestamp))))
     (seq_c (sys_do (File (Fflush stream)))
     notify_client)))"

definition pipe_server_communicate :: "nat \<Rightarrow> string \<Rightarrow> sigaction \<Rightarrow> int \<times> int \<Rightarrow> unit prog" where
  "pipe_server_communicate n behind sa0 file_descriptors =
     bind_c (open_stream behind file_descriptors True) (\<lambda>stream.
     bind_c (setup_server_signals sa0) (\<lambda>signal_action.
     seq_c (forever_c n (pipe_server_round stream signal_action) ())
     (sys_do (File (Close (snd file_descriptors))))))"

text \<open>\<open>None\<close> is the outcome of the parent, which prints no report.\<close>

definition pipe_communicate ::
    "nat \<Rightarrow> string \<Rightarrow> sigaction \<Rightarrow> Benchmarks \<Rightarrow> int \<times> int \<Rightarrow> Arguments \<Rightarrow> report option prog" where
  "pipe_communicate n behind sa0 bench0 file_descriptors args =
     bind_c (sys_ret (Proc Fork)) (\<lambda>pid.
       if pid = -1 then throw ''Error forking process''
       else if pid = 0 then
         bind_c (pipe_client_communicate n behind sa0 bench0 file_descriptors args) (\<lambda>r. return_c (Some r))
       else seq_c (pipe_server_communicate n behind sa0 file_descriptors) (return_c None))"

definition pipe_main :: "nat \<Rightarrow> string \<Rightarrow> sigaction \<Rightarrow> Benchmarks \<Rightarrow> string list \<Rightarrow> report option prog" where
  "pipe_main n behind sa0 bench0 argv =
     bind_c (sys (File Pipe)) (\<lambda>r.
       if ret r < 0 then throw (''Error opening pipe!'' @ [CHR 0x0A])
       else pipe_communicate n behind sa0 bench0 (nums r ! 0, nums r ! 1) (parse_arguments argv))"

section \<open>The fifo benchmark\<close>

definition FIFO_PATH :: string where "FIFO_PATH = ''/tmp/ipc_bench_fifo''"

definition fifo_client_cleanup :: "int \<Rightarrow> unit prog" where
  "fifo_client_cleanup stream = sys_do (File (Fclose stream))"

definition fifo_client_open :: "int prog" where
  "fifo_client_open =
     bind_c (sys_ret (File (Fopen FIFO_PATH ''r''))) (\<lambda>stream.
       if stream = 0 then throw ''Error opening stream to FIFO on client-side'' else return_c stream)"

definition fifo_client_msg_wait :: "int \<Rightarrow> sigaction \<Rightarrow> Benchmarks \<Rightarrow> Benchmarks prog" where
  "fifo_client_msg_wait stream signal_action bench =
     seq_c (wait_for_signal signal_action)
     (bind_c (sys (File (Fread stream))) (\<lambda>r.
      if ret r = 0 then throw ''Error reading buffer''
      else benchmark (bench\<lparr>b_single_start := u64_of_bytes (dat r)\<rparr>)))"

definition fifo_client_round :: "int \<Rightarrow> sigaction \<Rightarrow> Benchmarks \<Rightarrow> Benchmarks prog" where
  "fifo_client_round stream signal_action bench = seq_c notify_server (fifo_client_msg_wait stream signal_action bench)"

definition fifo_client_main :: "nat \<Rightarrow> sigaction \<Rightarrow> Benchmarks \<Rightarrow> string list \<Rightarrow> report prog" where
  "fifo_client_main n sa0 bench0 argv =
     (let args = parse_arguments argv in
      bind_c (setup_client_signals sa0) (\<lambda>signal_action.
      bind_c fifo_client_open (\<lambda>stream.
      bind_c (setup_benchmarks bench0) (\<lambda>bench.
      bind_c (timed_run n (fifo_client_round stream signal_action) bench) (\<lambda>(bench, cnt).
      seq_c (print_count cnt [])
      (bind_c (evaluate bench args) (\<lambda>report.
       seq_c (fifo_client_cleanup stream) (return_c report))))))))"

definition fifo_server_cleanup :: "int \<Rightarrow> unit prog" where
  "fifo_server_cleanup stream =
     seq_c (sys_do (File (Fclose stream)))
     (bind_c (sys_ret (File (Remove FIFO_PATH))) (\<lambda>r.
      if r = -1 then throw ''Error removing FIFO'' else return_c ()))"

definition fifo_server_round :: "int \<Rightarrow> sigaction \<Rightarrow> unit \<Rightarrow> unit prog" where
  "fifo_server_round stream signal_action _ =
     seq_c (wait_for_signal signal_action)
     (bind_c now (\<lambda>timestamp.
      bind_c (sys_ret (File (Fwrite stream (bytes_of_u64 timestamp)))) (\<lambda>r.
      if r = 0 then throw ''Error writing buffer''
      else seq_c (sys_do (File (Fflush stream))) notify_client)))"

definition fifo_server_communicate :: "nat \<Rightarrow> int \<Rightarrow> sigaction \<Rightarrow> unit prog" where
  "fifo_server_communicate n stream signal_action =
     seq_c (forever_c n (fifo_server_round stream signal_action) ()) (fifo_server_cleanup stream)"

text \<open>\<open>mkfifo\<close> returns 0 or -1, so the test \<open>> 0\<close> never fires.\<close>

definition fifo_server_open :: "int prog" where
  "fifo_server_open =
     bind_c (sys_ret (File (Mkfifo FIFO_PATH))) (\<lambda>r.
     if r > 0 then throw ''Error creating FIFO''
     else bind_c (sys_ret (File (Fopen FIFO_PATH ''w''))) (\<lambda>stream.
       if stream = 0 then throw ''Error opening descriptor to FIFO on server side'' else return_c stream))"

definition fifo_server_main :: "nat \<Rightarrow> sigaction \<Rightarrow> string list \<Rightarrow> int prog" where
  "fifo_server_main n sa0 argv =
     bind_c (setup_server_signals sa0) (\<lambda>signal_action.
     bind_c fifo_server_open (\<lambda>stream.
     seq_c (fifo_server_communicate n stream signal_action) (return_c 0)))"

section \<open>The signal client never ends\<close>

lemma sint_pred:
  assumes "sint (x :: c_int) \<noteq> - (2 ^ 31)"
  shows "sint (x - 1) = sint x - 1"
proof -
  have "- (2 ^ 31) \<le> sint x" and "sint x < 2 ^ 31" using sint_ge [of x] sint_lt [of x] by simp_all
  then have "signed_take_bit 31 (sint x - 1) = sint x - 1"
    using assms by (intro signed_take_bit_int_eq_self) simp_all
  then show ?thesis by (simp add: sint_word_ariths)
qed

definition turn_calls :: "sigaction \<Rightarrow> call list" where
  "turn_calls sa = [Proc (Sigwait (sa_mask sa)), Proc (Kill_group SIGUSR1)]"

lemma signal_client_turn:
  assumes "0 < sint (a_count args)"
  shows "\<exists>w'. w_calls w' = w_calls w @ turn_calls sa \<and>
     signal_client_rounds (Suc n) sa args w =
       (if sint (a_size args) = - (2 ^ 31) then (Inl (Undefined ''signed overflow''), w')
        else signal_client_rounds n sa (args\<lparr>a_size := a_size args - 1\<rparr>) w')"
proof -
  obtain w1 where w1: "wait_for_signal sa w = (Inr (), w1)" "w_calls w1 = w_calls w @ [Proc (Sigwait (sa_mask sa))]"
    using sys_do_run unfolding wait_for_signal_def by blast
  obtain w2 where w2: "notify_server w1 = (Inr (), w2)" "w_calls w2 = w_calls w1 @ [Proc (Kill_group SIGUSR1)]"
    using sys_do_run unfolding notify_server_def by blast
  show ?thesis
    using assms w1(2) w2(2) by (intro exI [of _ w2]) (simp add: seq_run w1(1) w2(1) turn_calls_def halt_c_def)
qed

lemma signal_client_rounds_endless:
  assumes "0 < sint (a_count args)"
  shows "fst (signal_client_rounds n sa args w) =
       Inl (if int n \<le> sint (a_size args) + 2 ^ 31 then Running else Undefined ''signed overflow'') \<and>
     (int n \<le> sint (a_size args) + 2 ^ 31 \<longrightarrow>
        w_calls (snd (signal_client_rounds n sa args w)) = w_calls w @ concat (replicate n (turn_calls sa)))"
  using assms
proof (induction n arbitrary: args w)
  case 0
  then show ?case using sint_ge [of "a_size args"] by (simp add: halt_c_def)
next
  case (Suc n)
  obtain w' where w': "w_calls w' = w_calls w @ turn_calls sa"
    "signal_client_rounds (Suc n) sa args w =
       (if sint (a_size args) = - (2 ^ 31) then (Inl (Undefined ''signed overflow''), w')
        else signal_client_rounds n sa (args\<lparr>a_size := a_size args - 1\<rparr>) w')"
    using signal_client_turn [OF Suc.prems] by blast
  show ?case
  proof (cases "sint (a_size args) = - (2 ^ 31)")
    case True
    then show ?thesis using w'(2) by simp
  next
    case False
    then show ?thesis
      using Suc.IH [of "args\<lparr>a_size := a_size args - 1\<rparr>" w'] Suc.prems w' sint_pred [OF False] by simp
  qed
qed

text \<open>
  C34: The client of the signal benchmark never ends.  Its loop counts down the message size while it
  tests the message count: with a positive count it answers signal after signal without ever
  returning, until the size underflows after more than two thousand million rounds; with any other
  count it returns at once.
\<close>

theorem signal_client_endless:
  "(0 < sint (a_count args) \<longrightarrow>
      fst (signal_client_communicate n sa args w) =
        Inl (if int n \<le> sint (a_size args) + 2 ^ 31 then Running else Undefined ''signed overflow'') \<and>
      (int n \<le> sint (a_size args) + 2 ^ 31 \<longrightarrow>
         w_calls (snd (signal_client_communicate n sa args w)) =
           w_calls w @ Proc (Kill_group SIGUSR1) # concat (replicate n (turn_calls sa)))) \<and>
   (sint (a_count args) \<le> 0 \<longrightarrow> fst (signal_client_communicate (Suc n) sa args w) = Inr ())"
proof -
  obtain w1 where start: "notify_server w = (Inr (), w1)"
    and calls: "w_calls w1 = w_calls w @ [Proc (Kill_group SIGUSR1)]"
    using sys_do_run unfolding notify_server_def by blast
  have run: "signal_client_communicate k sa args w = bind_c (signal_client_rounds k sa args) (\<lambda>_. return_c ()) w1" for k
    by (simp add: signal_client_communicate_def seq_run start)
  show ?thesis
  proof (intro conjI impI)
    assume "0 < sint (a_count args)"
    note endless = signal_client_rounds_endless [OF this, of n sa w1]
    have halted: "signal_client_communicate n sa args w =
        (Inl (if int n \<le> sint (a_size args) + 2 ^ 31 then Running else Undefined ''signed overflow''),
         snd (signal_client_rounds n sa args w1))"
      unfolding run by (rule bind_fst_halt) (use endless in blast)
    show "fst (signal_client_communicate n sa args w) =
        Inl (if int n \<le> sint (a_size args) + 2 ^ 31 then Running else Undefined ''signed overflow'')"
      by (simp only: halted fst_conv)
    assume "int n \<le> sint (a_size args) + 2 ^ 31"
    then show "w_calls (snd (signal_client_communicate n sa args w)) =
        w_calls w @ Proc (Kill_group SIGUSR1) # concat (replicate n (turn_calls sa))"
      using endless by (simp add: halted calls)
  next
    assume "sint (a_count args) \<le> 0"
    then show "fst (signal_client_communicate (Suc n) sa args w) = Inr ()"
      by (simp add: run return_c_def bind_c_def)
  qed
qed

theorem signal_client_endless_witness:
  "fst (signal_client_communicate 5 sample_sa \<lparr>a_size = 1, a_count = 1\<rparr> quiet_world) = Inl Running"
  using signal_client_endless [of "\<lparr>a_size = 1, a_count = 1\<rparr>" 5 sample_sa quiet_world] by simp

section \<open>The servers of the pipe and the fifo\<close>

text \<open>The calls of one round; the timestamp is the clock reading after the signal.\<close>

definition turn_trace :: "os \<Rightarrow> int \<Rightarrow> sigaction \<Rightarrow> call list \<Rightarrow> call list" where
  "turn_trace os stream sa calls =
     (let r = os (calls @ [Proc (Sigwait (sa_mask sa))]) (Misc Timespec_get) in
      calls @ [Proc (Sigwait (sa_mask sa)), Misc Timespec_get,
        File (Fwrite stream (bytes_of_u64 (now_value (nums r ! 0) (nums r ! 1)))), File (Fflush stream),
        Proc (Kill_group SIGUSR2)])"

lemma pipe_round_trace:
  "\<exists>s' w'. pipe_server_round stream sa s w = (Inr s', w') \<and> w_os w' = w_os w \<and>
     w_calls w' = turn_trace (w_os w) stream sa (w_calls w)"
  by (simp add: pipe_server_round_def wait_for_signal_def notify_client_def now_def sys_def Let_def prog_simps
      turn_trace_def)

lemma fifo_round_pipe:
  assumes "\<forall>calls bs. ret (w_os w calls (File (Fwrite stream bs))) \<noteq> 0"
  shows "fifo_server_round stream sa s w = pipe_server_round stream sa s w"
  using assms
  by (simp add: fifo_server_round_def pipe_server_round_def wait_for_signal_def now_def sys_def Let_def prog_simps)

lemma keeps_fifo_round: "keeps_os (fifo_server_round stream sa s)"
  unfolding fifo_server_round_def wait_for_signal_def notify_client_def now_def throw_def by (intro os_intros)

text \<open>
  C29: The servers of the pipe and fifo benchmarks are equivalent as long as writes succeed: their loops
  have the same outcome in the same world.  Each round waits for the client's signal, reads the
  clock, writes exactly that reading, flushes it and signals the client, in this order; the loops
  never end.
\<close>

theorem stream_servers_agree:
  assumes "\<forall>calls bs. ret (w_os w calls (File (Fwrite stream bs))) \<noteq> 0"
  shows "forever_c n (fifo_server_round stream sa) () w =
       (forever_c n (pipe_server_round stream sa) () w :: (halt + unit) \<times> world) \<and>
     fst (forever_c n (pipe_server_round stream sa) () w :: (halt + unit) \<times> world) = Inl Running \<and>
     w_calls (snd (forever_c n (pipe_server_round stream sa) () w :: (halt + unit) \<times> world)) =
       (turn_trace (w_os w) stream sa ^^ n) (w_calls w)"
proof (intro conjI)
  show "forever_c n (fifo_server_round stream sa) () w =
       (forever_c n (pipe_server_round stream sa) () w :: (halt + unit) \<times> world)"
    by (rule forever_cong [where os = "w_os w"]) (use assms fifo_round_pipe keeps_fifo_round in auto)
qed (use forever_trace [where os = "w_os w" and body = "pipe_server_round stream sa" and f = "turn_trace (w_os w) stream sa"]
    pipe_round_trace in metis)+

theorem stream_servers_agree_witness:
  "fst (forever_c 3 (fifo_server_round 7 sample_sa) ()
      \<lparr>w_os = (\<lambda>_ _. ok_reply 1), w_calls = [], w_errno = 0\<rparr> :: (halt + unit) \<times> world) = Inl Running"
  using stream_servers_agree [of "\<lparr>w_os = (\<lambda>_ _. ok_reply 1), w_calls = [], w_errno = 0\<rparr>" 7 3 sample_sa] by simp

section \<open>Both processes of the pipe and fifo benchmarks\<close>

text \<open>
  Before its loop a process blocks the signals it waits for, and in the fifo benchmark opens its end of the
  fifo.  In which order is read off the calls its program makes up to the first round.  Opening a
  stream on a pipe that exists (\<open>fdopen\<close>) waits for nobody.
\<close>

datatype start_op = Block "signal list" | Open_fifo

fun op_of_call :: "call \<Rightarrow> start_op list" where
  "op_of_call (Proc (Sigprocmask_block ss)) = [Block ss]"
| "op_of_call (File (Fopen name mode)) = [Open_fifo]"
| "op_of_call _ = []"

definition start_ops :: "call list \<Rightarrow> start_op list" where
  "start_ops cs = concat (map op_of_call cs)"

text \<open>
  The client checks the time and either leaves or notifies the server, waits for its signal, reads a
  timestamp from the stream and measures it.  The server waits for the signal, reads the clock,
  writes and flushes the timestamp and notifies the client.  A signal for a process that has not blocked
  it yet kills the process.  \<open>fopen\<close> on a fifo returns only when both ends are being opened.
\<close>

datatype xs_pc = X_start "start_op list" | X_wait | X_now | X_write u64 | X_notify

datatype xc_pc = Q_start "start_op list" | Q_head | Q_wait | Q_read | Q_measure | Q_done

record sx_state =
  sx_alive :: bool
  sx_mask :: "signal list"
  sx_client_alive :: bool
  sx_client_mask :: "signal list"
  sx_usr1 :: bool
  sx_usr2 :: bool
  sx_stream :: "u64 list"
  sx_spc :: xs_pc
  sx_cpc :: xc_pc
  sx_bench :: Benchmarks
  sx_sent :: "u64 list"
  sx_got :: "u64 list"

definition raise_usr1 :: "sx_state \<Rightarrow> sx_state" where
  "raise_usr1 s = (if SIGUSR1 \<in> set (sx_mask s) then s\<lparr>sx_usr1 := True\<rparr> else s\<lparr>sx_alive := False\<rparr>)"

definition raise_usr2 :: "sx_state \<Rightarrow> sx_state" where
  "raise_usr2 s = (if SIGUSR2 \<in> set (sx_client_mask s) then s\<lparr>sx_usr2 := True\<rparr> else s\<lparr>sx_client_alive := False\<rparr>)"

inductive sx_step :: "sx_state \<Rightarrow> sx_state \<Rightarrow> bool" where
  sx_block: "sx_alive s \<Longrightarrow> sx_spc s = X_start (Block ss # ops) \<Longrightarrow>
     sx_step s (s\<lparr>sx_spc := X_start ops, sx_mask := ss @ sx_mask s\<rparr>)"
| sx_open: "sx_alive s \<Longrightarrow> sx_client_alive s \<Longrightarrow> sx_spc s = X_start (Open_fifo # ops) \<Longrightarrow>
     sx_cpc s = Q_start (Open_fifo # ops') \<Longrightarrow> sx_step s (s\<lparr>sx_spc := X_start ops, sx_cpc := Q_start ops'\<rparr>)"
| sx_enter: "sx_alive s \<Longrightarrow> sx_spc s = X_start [] \<Longrightarrow> sx_step s (s\<lparr>sx_spc := X_wait\<rparr>)"
| sx_take: "sx_alive s \<Longrightarrow> sx_spc s = X_wait \<Longrightarrow> sx_usr1 s \<Longrightarrow> sx_step s (s\<lparr>sx_spc := X_now, sx_usr1 := False\<rparr>)"
| sx_now: "sx_alive s \<Longrightarrow> sx_spc s = X_now \<Longrightarrow> sx_step s (s\<lparr>sx_spc := X_write t\<rparr>)"
| sx_write: "sx_alive s \<Longrightarrow> sx_spc s = X_write t \<Longrightarrow>
     sx_step s (s\<lparr>sx_spc := X_notify, sx_stream := sx_stream s @ [t], sx_sent := sx_sent s @ [t]\<rparr>)"
| sx_notify: "sx_alive s \<Longrightarrow> sx_spc s = X_notify \<Longrightarrow> sx_step s (raise_usr2 (s\<lparr>sx_spc := X_wait\<rparr>))"
| xc_block: "sx_client_alive s \<Longrightarrow> sx_cpc s = Q_start (Block ss # ops) \<Longrightarrow>
     sx_step s (s\<lparr>sx_cpc := Q_start ops, sx_client_mask := ss @ sx_client_mask s\<rparr>)"
| xc_enter: "sx_client_alive s \<Longrightarrow> sx_cpc s = Q_start [] \<Longrightarrow> sx_step s (s\<lparr>sx_cpc := Q_head\<rparr>)"
| xc_leave: "sx_client_alive s \<Longrightarrow> sx_cpc s = Q_head \<Longrightarrow> sx_step s (s\<lparr>sx_cpc := Q_done\<rparr>)"
| xc_notify: "sx_client_alive s \<Longrightarrow> sx_cpc s = Q_head \<Longrightarrow> sx_step s (raise_usr1 (s\<lparr>sx_cpc := Q_wait\<rparr>))"
| xc_take: "sx_client_alive s \<Longrightarrow> sx_cpc s = Q_wait \<Longrightarrow> sx_usr2 s \<Longrightarrow> sx_step s (s\<lparr>sx_cpc := Q_read, sx_usr2 := False\<rparr>)"
| xc_read: "sx_client_alive s \<Longrightarrow> sx_cpc s = Q_read \<Longrightarrow> sx_stream s = t # ts \<Longrightarrow>
     sx_step s (s\<lparr>sx_cpc := Q_measure, sx_stream := ts, sx_bench := (sx_bench s)\<lparr>b_single_start := t\<rparr>\<rparr>)"
| xc_measure: "sx_client_alive s \<Longrightarrow> sx_cpc s = Q_measure \<Longrightarrow>
     sx_step s (s\<lparr>sx_cpc := Q_head, sx_bench := benchmark_at (sx_bench s) u, sx_got := sx_got s @ [b_single_start (sx_bench s)]\<rparr>)"

text \<open>Two new processes with their start-up before them.\<close>

definition sx_init :: "start_op list \<Rightarrow> start_op list \<Rightarrow> sx_state \<Rightarrow> bool" where
  "sx_init ops ops' s \<longleftrightarrow> sx_alive s \<and> sx_mask s = [] \<and> sx_client_alive s \<and> sx_client_mask s = [] \<and>
     \<not> sx_usr1 s \<and> \<not> sx_usr2 s \<and> sx_stream s = [] \<and> sx_spc s = X_start ops \<and> sx_cpc s = Q_start ops' \<and>
     b_count (sx_bench s) = 0 \<and> sx_sent s = [] \<and> sx_got s = []"

subsection \<open>Start-up\<close>

text \<open>What the programs do before their loops if their calls succeed.\<close>

definition start_works :: "os \<Rightarrow> bool" where
  "start_works os \<longleftrightarrow> sigaction_works os \<and>
     (\<forall>calls name. ret (os calls (File (Mkfifo name))) \<le> 0) \<and>
     (\<forall>calls name mode. ret (os calls (File (Fopen name mode))) \<noteq> 0) \<and>
     (\<forall>calls fd mode. ret (os calls (File (Fdopen fd mode))) \<noteq> 0)"

definition start_order :: "signal \<Rightarrow> bool \<Rightarrow> start_op list" where
  "start_order s fifo = Block [s] # (if fifo then [Open_fifo] else [])"

lemmas startup_defs =
  setup_server_signals_def setup_client_signals_def signal_setup_defs sys_def Let_def prog_simps throw_def
  start_works_def sigaction_works_def start_ops_def start_order_def

lemma fifo_server_start:
  "start_works (w_os w) \<Longrightarrow> start_ops (calls_of (fifo_server_main 0 sa argv) w) = start_order SIGUSR1 True"
  by (simp add: fifo_server_main_def fifo_server_open_def fifo_server_communicate_def startup_defs not_less)

lemma pipe_server_start:
  "start_works (w_os w) \<Longrightarrow>
     start_ops (calls_of (pipe_server_communicate 0 behind sa file_descriptors) w) = start_order SIGUSR1 False"
  by (simp add: pipe_server_communicate_def open_stream_def startup_defs)

lemma fifo_client_start:
  "start_works (w_os w) \<Longrightarrow> start_ops (calls_of (fifo_client_main 0 sa bench argv) w) = start_order SIGUSR2 True"
  by (simp add: fifo_client_main_def fifo_client_open_def setup_benchmarks_def now_def timed_run_def gettimeofday_def
      startup_defs)

lemma pipe_client_start:
  "start_works (w_os w) \<Longrightarrow>
     start_ops (calls_of (pipe_client_communicate 0 behind sa bench file_descriptors args) w) = start_order SIGUSR2 False"
  by (simp add: pipe_client_communicate_def open_stream_def setup_benchmarks_def now_def timed_run_def gettimeofday_def
      startup_defs)

subsection \<open>The invariant\<close>

text \<open>How far the start-up is.  In the fifo benchmark the two processes leave it together.\<close>

definition starting :: "xs_pc \<Rightarrow> bool" where
  "starting p \<longleftrightarrow> (case p of X_start ops \<Rightarrow> ops \<noteq> [] | _ \<Rightarrow> False)"

definition client_starting :: "xc_pc \<Rightarrow> bool" where
  "client_starting p \<longleftrightarrow> (case p of Q_start ops \<Rightarrow> ops \<noteq> [] | _ \<Rightarrow> False)"

definition start_inv :: "bool \<Rightarrow> sx_state \<Rightarrow> bool" where
  "start_inv fifo s \<longleftrightarrow>
     (\<forall>ops. sx_spc s = X_start ops \<longrightarrow> ops \<in> {start_order SIGUSR1 fifo, tl (start_order SIGUSR1 fifo), []}) \<and>
     (\<forall>ops. sx_cpc s = Q_start ops \<longrightarrow> ops \<in> {start_order SIGUSR2 fifo, tl (start_order SIGUSR2 fifo), []}) \<and>
     (fifo \<longrightarrow> starting (sx_spc s) = client_starting (sx_cpc s)) \<and>
     (SIGUSR1 \<in> set (sx_mask s) \<longleftrightarrow> sx_spc s \<noteq> X_start (start_order SIGUSR1 fifo)) \<and>
     (SIGUSR2 \<in> set (sx_client_mask s) \<longleftrightarrow> sx_cpc s \<noteq> Q_start (start_order SIGUSR2 fifo))"

text \<open>Where the one message under way is, as long as the server lives.\<close>

fun message_place :: "xs_pc \<Rightarrow> xc_pc \<Rightarrow> bool \<Rightarrow> bool \<Rightarrow> bool" where
  "message_place (X_start _) Q_wait u1 u2 = (u1 \<and> \<not> u2)"
| "message_place (X_start _) c u1 u2 = (c \<notin> {Q_read, Q_measure} \<and> \<not> u1 \<and> \<not> u2)"
| "message_place X_wait Q_wait u1 u2 = (u1 \<noteq> u2)"
| "message_place X_wait c u1 u2 = (\<not> u1 \<and> \<not> u2)"
| "message_place _ c u1 u2 = (c = Q_wait \<and> \<not> u1 \<and> \<not> u2)"

definition unread :: "sx_state \<Rightarrow> bool" where
  "unread s \<longleftrightarrow> sx_cpc s = Q_read \<or> sx_cpc s = Q_wait \<and> (sx_spc s = X_notify \<or> sx_usr2 s)"

definition sx_inv :: "bool \<Rightarrow> sx_state \<Rightarrow> bool" where
  "sx_inv fifo s \<longleftrightarrow> start_inv fifo s \<and> sx_client_alive s \<and>
     (if sx_alive s then message_place (sx_spc s) (sx_cpc s) (sx_usr1 s) (sx_usr2 s) \<and>
        (sx_usr1 s \<longrightarrow> SIGUSR1 \<in> set (sx_mask s))
      else \<not> fifo \<and> sx_spc s = X_start (start_order SIGUSR1 fifo) \<and> sx_cpc s = Q_wait \<and> \<not> sx_usr2 s) \<and>
     (if unread s then (\<exists>t. sx_stream s = [t] \<and> sx_sent s = sx_got s @ [t])
      else sx_stream s = [] \<and>
        sx_sent s = sx_got s @ (if sx_cpc s = Q_measure then [b_single_start (sx_bench s)] else [])) \<and>
     ((\<exists>ops. sx_spc s = X_start ops) \<longrightarrow> sx_sent s = []) \<and> b_count (sx_bench s) = of_nat (length (sx_got s))"

lemmas sx_defs = sx_inv_def start_inv_def unread_def raise_usr1_def raise_usr2_def starting_def client_starting_def start_order_def

lemma sx_inv_init: "sx_init (start_order SIGUSR1 fifo) (start_order SIGUSR2 fifo) s \<Longrightarrow> sx_inv fifo s"
  by (auto simp: sx_init_def sx_defs)

lemma sx_inv_step: "sx_inv fifo s \<Longrightarrow> sx_step s t \<Longrightarrow> sx_inv fifo t"
  by (erule sx_step.cases)
    (auto simp: sx_defs benchmark_at_def Let_def split: if_splits xs_pc.splits xc_pc.splits elim!: message_place.elims)

definition sx_over :: "sx_state \<Rightarrow> bool" where
  "sx_over s \<longleftrightarrow> sx_cpc s = Q_done \<or> \<not> sx_alive s"

lemma sx_server_moves:
  assumes "sx_inv fifo s" and "sx_alive s" and "\<not> fifo \<or> \<not> starting (sx_spc s)" and "sx_spc s = X_wait \<longrightarrow> sx_usr1 s"
  shows "\<exists>t. sx_step s t"
proof (cases "sx_spc s")
  case (X_start ops)
  then have "ops = [] \<or> ops = [Block [SIGUSR1]]" using assms(1,3) by (auto simp: sx_defs)
  then show ?thesis using X_start sx_block [OF assms(2)] sx_enter [OF assms(2)] by blast
qed (use assms sx_take sx_now sx_write sx_notify in blast)+

lemma sx_start_moves:
  assumes "sx_inv fifo s" and "sx_alive s" and "sx_cpc s = Q_start ops"
  shows "\<exists>t. sx_step s t"
proof -
  have alive: "sx_client_alive s" using assms(1) by (simp add: sx_inv_def)
  consider "ops = []" | "ops = Block [SIGUSR2] # tl ops" | "fifo" "ops = [Open_fifo]"
    using assms(1,3) by (auto simp: sx_defs split: if_splits)
  then show ?thesis
  proof cases
    case 1
    then show ?thesis using xc_enter [OF alive] assms(3) by blast
  next
    case 2
    then show ?thesis using xc_block [OF alive, of "[SIGUSR2]" "tl ops"] assms(3) by auto
  next
    case 3
    then obtain ops' where "sx_spc s = X_start (Block [SIGUSR1] # ops') \<or> sx_spc s = X_start [Open_fifo]"
      using assms by (auto simp: sx_defs split: xs_pc.splits)
    then show ?thesis using sx_block [OF assms(2)] sx_open [OF assms(2) alive] 3 assms(3) by blast
  qed
qed

lemma sx_progress:
  assumes "sx_inv fifo s" and "\<not> sx_over s"
  shows "\<exists>t. sx_step s t"
proof -
  have alive: "sx_alive s" "sx_client_alive s" using assms by (auto simp: sx_inv_def sx_over_def)
  show ?thesis
  proof (cases "sx_cpc s")
    case (Q_start ops)
    then show ?thesis using sx_start_moves [OF assms(1) alive(1)] by blast
  next
    case Q_wait
    then have "sx_usr2 s \<or> (sx_spc s = X_wait \<longrightarrow> sx_usr1 s)" and "\<not> fifo \<or> \<not> starting (sx_spc s)"
      using assms alive by (auto simp: sx_inv_def start_inv_def client_starting_def elim!: message_place.elims)
    then show ?thesis using Q_wait xc_take [OF alive(2)] sx_server_moves [OF assms(1) alive(1)] by blast
  next
    case Q_read
    then obtain t where "sx_stream s = [t]" using assms(1) by (auto simp: sx_inv_def unread_def)
    then show ?thesis using xc_read [OF alive(2) Q_read] by blast
  qed (use assms(2) alive xc_leave xc_measure in \<open>auto simp: sx_over_def\<close>)
qed

interpretation turn_by_signal: live_system "sx_init (start_order SIGUSR1 fifo) (start_order SIGUSR2 fifo)" sx_step "sx_inv fifo"
    sx_over for fifo
  by unfold_locales (blast intro: sx_inv_init sx_inv_step sx_progress)+

lemma dead_server:
  assumes "sx_inv fifo s" and "\<not> sx_alive s"
  shows "sx_got s = [] \<and> sx_cpc s = Q_wait \<and> stuck sx_step s"
proof -
  have w: "sx_spc s = X_start (start_order SIGUSR1 fifo)" "sx_cpc s = Q_wait" "\<not> sx_usr2 s" and "sx_sent s = []"
    using assms by (auto simp: sx_inv_def)
  then have "sx_got s = []" using assms(1) by (auto simp: sx_inv_def split: if_splits)
  moreover have "\<not> sx_step s t" for t using w assms(2) by (auto elim: sx_step.cases)
  ultimately show ?thesis using w by (simp add: stuck_def)
qed

text \<open>Both processes of the pipe benchmark at their start, and the client's notification coming first.\<close>

definition sample_sx :: "bool \<Rightarrow> Benchmarks \<Rightarrow> sx_state" where
  "sample_sx fifo bench = \<lparr>sx_alive = True, sx_mask = [], sx_client_alive = True, sx_client_mask = [],
     sx_usr1 = False, sx_usr2 = False, sx_stream = [], sx_spc = X_start (start_order SIGUSR1 fifo),
     sx_cpc = Q_start (start_order SIGUSR2 fifo), sx_bench = bench, sx_sent = [], sx_got = []\<rparr>"

lemma sample_sx_init:
  "b_count bench = 0 \<Longrightarrow> sx_init (start_order SIGUSR1 fifo) (start_order SIGUSR2 fifo) (sample_sx fifo bench)"
  by (simp add: sx_init_def sample_sx_def)

lemma pipe_server_killed:
  "\<exists>s. reach (sx_init (start_order SIGUSR1 False) (start_order SIGUSR2 False)) sx_step s \<and> \<not> sx_alive s"
proof -
  define s0 where "s0 = sample_sx False sample_bench"
  define s1 where "s1 = s0\<lparr>sx_cpc := Q_start [], sx_client_mask := [SIGUSR2]\<rparr>"
  define s2 where "s2 = s1\<lparr>sx_cpc := Q_head\<rparr>"
  define s3 where "s3 = raise_usr1 (s2\<lparr>sx_cpc := Q_wait\<rparr>)"
  note defs = s0_def s1_def s2_def sample_sx_def
  have "sx_step s0 s1"
    using xc_block [of s0 "[SIGUSR2]" "[]"] by (simp add: defs start_order_def)
  moreover have "sx_step s1 s2" unfolding s2_def by (rule xc_enter) (simp_all add: defs)
  moreover have "sx_step s2 s3" unfolding s3_def by (rule xc_notify) (simp_all add: defs)
  moreover have "\<not> sx_alive s3" by (simp add: s3_def raise_usr1_def defs)
  moreover have "reach (sx_init (start_order SIGUSR1 False) (start_order SIGUSR2 False)) sx_step s0"
    unfolding s0_def by (rule reach_init, rule sample_sx_init) (simp add: sample_bench_def)
  ultimately show ?thesis by (meson reach_step)
qed

text \<open>
  C14: The exchange of the pipe and fifo benchmarks, from the start of the two processes on, whose start-up
  is in the order of the calls that \<open>main\<close> (fifo) or \<open>server_communicate\<close> and \<open>client_communicate\<close> (pipe) make
  before their loops.  In every reachable state the start times the client has measured are the
  timestamps the server wrote, in order, with at most one still under way; no signal is lost and nothing
  deadlocks while the server lives and the client has not left its loop.  In the fifo benchmark the server
  always lives.  In the pipe benchmark it can be killed, by the client's first notification before it has
  blocked the signal, and then nothing is ever measured: the client waits forever.
\<close>

theorem stream_exchange:
  fixes argv argv' :: "string list" and file_descriptors file_descriptors' :: "int \<times> int" and args :: Arguments
    and behind behind' :: string and sa sa' :: sigaction and bench :: Benchmarks and w v :: world and fifo :: bool
  assumes "start_works (w_os w)" and "start_works (w_os v)"
  defines "server_start \<equiv> start_ops (if fifo then calls_of (fifo_server_main 0 sa argv) w
       else calls_of (pipe_server_communicate 0 behind sa file_descriptors) w)"
    and "client_start \<equiv> start_ops (if fifo then calls_of (fifo_client_main 0 sa' bench argv') v
       else calls_of (pipe_client_communicate 0 behind' sa' bench file_descriptors' args) v)"
  assumes "reach (sx_init server_start client_start) sx_step s"
  shows "(sx_sent s = sx_got s \<or> (\<exists>t. sx_sent s = sx_got s @ [t])) \<and>
     b_count (sx_bench s) = of_nat (length (sx_got s)) \<and> sx_client_alive s \<and>
     (stuck sx_step s \<longrightarrow> sx_cpc s = Q_done \<or> \<not> sx_alive s) \<and>
     (\<not> sx_alive s \<longrightarrow> sx_got s = [] \<and> sx_cpc s = Q_wait \<and> stuck sx_step s) \<and>
     (if fifo then sx_alive s else \<exists>t. reach (sx_init server_start client_start) sx_step t \<and> \<not> sx_alive t)"
proof -
  have start: "server_start = start_order SIGUSR1 fifo" "client_start = start_order SIGUSR2 fifo"
    unfolding server_start_def client_start_def
    using fifo_server_start [OF assms(1)] pipe_server_start [OF assms(1)] fifo_client_start [OF assms(2)]
      pipe_client_start [OF assms(2)] by (cases fifo; simp)+
  note reached = assms(5) [unfolded start]
  have inv: "sx_inv fifo s" using reached by (rule turn_by_signal.reach_inv)
  have "sx_cpc s = Q_done \<or> \<not> sx_alive s" if "stuck sx_step s"
    using turn_by_signal.no_deadlock [OF reached that] by (simp add: sx_over_def)
  moreover have "sx_sent s = sx_got s \<or> (\<exists>t. sx_sent s = sx_got s @ [t])"
    and "b_count (sx_bench s) = of_nat (length (sx_got s))" and "sx_client_alive s" and "fifo \<longrightarrow> sx_alive s"
    using inv by (auto simp: sx_inv_def split: if_splits)
  ultimately show ?thesis using dead_server [OF inv] pipe_server_killed unfolding start by (cases fifo) auto
qed

text \<open>All calls of the start-up succeed; the fifo benchmark right after its start, and the pipe's killed server.\<close>

definition sample_start :: world where
  "sample_start = \<lparr>w_os = (\<lambda>_ c. case c of File (Fopen _ _) \<Rightarrow> ok_reply 1 | File (Fdopen _ _) \<Rightarrow> ok_reply 1 | _ \<Rightarrow> ok_reply 0),
     w_calls = [], w_errno = 0\<rparr>"

lemma sample_start_works: "start_works (w_os sample_start)"
  by (simp add: start_works_def sigaction_works_def sample_start_def)

theorem stream_exchange_witness:
  "\<exists>s. reach (sx_init (start_ops (calls_of (pipe_server_communicate 0 [] sample_sa (3, 4)) sample_start))
        (start_ops (calls_of (pipe_client_communicate 0 [] sample_sa sample_bench (3, 4) \<lparr>a_size = 1, a_count = 1\<rparr>) sample_start)))
      sx_step s \<and> \<not> sx_alive s \<and> stuck sx_step s"
proof -
  note works = sample_start_works
  note start = pipe_server_start [OF works, of "[]" sample_sa "(3, 4)"]
    pipe_client_start [OF works, of "[]" sample_sa sample_bench "(3, 4)" "\<lparr>a_size = 1, a_count = 1\<rparr>"]
  obtain s where s: "reach (sx_init (start_order SIGUSR1 False) (start_order SIGUSR2 False)) sx_step s" "\<not> sx_alive s"
    using pipe_server_killed by blast
  then show ?thesis
    using stream_exchange [OF works works, where fifo = False and sa = sample_sa and sa' = sample_sa and behind = "[]"
        and behind' = "[]" and file_descriptors = "(3, 4)" and file_descriptors' = "(3, 4)" and bench = sample_bench
        and args = "\<lparr>a_size = 1, a_count = 1\<rparr>" and s = s]
    unfolding if_False start by blast
qed

end
