(* ===== verification/Stream_Runs.thy ===== *)
theory Stream_Runs
  imports Signal_Streams Trace_Logic
begin

text \<open>
  The loops of the pipe and fifo programs of \<^verbatim>\<open>source/pipe/pipe.c\<close> and \<^verbatim>\<open>source/fifo\<close>, run side by side on
  two pending signals and a stream of bytes, simulate the step relation of the two processes.
\<close>

section \<open>The two sides\<close>

text \<open>A stream call that does not deliver loses the thread: from there on everything is possible.\<close>

datatype fs_pc = F_wait | F_now | F_write u64 | F_flush u64 | F_notify | F_lost

datatype fc_pc = G_head | G_wait | G_read | G_measure | G_lost

fun stream_server_auto :: "int \<Rightarrow> signal list \<Rightarrow> fs_pc \<times> u64 list \<Rightarrow> event \<Rightarrow> (fs_pc \<times> u64 list) option" where
  "stream_server_auto stream sigs (F_wait, sent) (c, r) = (if c = Proc (Sigwait sigs) then Some (F_now, sent) else None)"
| "stream_server_auto stream sigs (F_now, sent) (c, r) =
     (if c = Misc Timespec_get then Some (F_write (now_value (nums r ! 0) (nums r ! 1)), sent) else None)"
| "stream_server_auto stream sigs (F_write t, sent) (c, r) =
     (if c = File (Fwrite stream (bytes_of_u64 t)) then Some (if ret r = 1 then F_flush t else F_lost, sent) else None)"
| "stream_server_auto stream sigs (F_flush t, sent) (c, r) =
     (if c = File (Fflush stream) then Some (F_notify, sent @ [t]) else None)"
| "stream_server_auto stream sigs (F_notify, sent) (c, r) =
     (if c = Proc (Kill_group SIGUSR2) then Some (F_wait, sent) else None)"
| "stream_server_auto stream sigs (F_lost, sent) e = Some (F_lost, sent)"

fun stream_client_auto :: "int \<Rightarrow> signal list \<Rightarrow> fc_pc client \<Rightarrow> event \<Rightarrow> fc_pc client option" where
  "stream_client_auto stream sigs (G_head, b, ms) (c, r) =
     (if c = Misc Gettimeofday then Some (G_head, b, ms)
      else if c = Proc (Kill_group SIGUSR1) then Some (G_wait, b, ms) else None)"
| "stream_client_auto stream sigs (G_wait, b, ms) (c, r) =
     (if c = Proc (Sigwait sigs) then Some (G_read, b, ms) else None)"
| "stream_client_auto stream sigs (G_read, b, ms) (c, r) =
     (if c = File (Fread stream)
      then Some (if ret r = 1 then (G_measure, b\<lparr>b_single_start := u64_of_bytes (dat r)\<rparr>, ms) else (G_lost, b, ms))
      else None)"
| "stream_client_auto stream sigs (G_measure, b, ms) (c, r) =
     (if c = Misc Timespec_get
      then Some (G_head, benchmark_at b (now_value (nums r ! 0) (nums r ! 1)),
        ms @ [(b_single_start b, now_value (nums r ! 0) (nums r ! 1))])
      else None)"
| "stream_client_auto stream sigs (G_lost, b, ms) e = Some (G_lost, b, ms)"

section \<open>Signals and stream\<close>

text \<open>
  The signal pending for each process, what \<open>fwrite\<close> has buffered and what is in the pipe.  A standard
  signal that is already pending is not queued; \<open>sigwait\<close> and \<open>fread\<close> block until there is something.
\<close>

record channel =
  ch_usr1 :: bool
  ch_usr2 :: bool
  ch_wbuf :: "u8 list"
  ch_pipe :: "u8 list"

definition empty_channel :: channel where
  "empty_channel = \<lparr>ch_usr1 = False, ch_usr2 = False, ch_wbuf = [], ch_pipe = []\<rparr>"

fun raise_signal :: "signal \<Rightarrow> channel \<Rightarrow> channel" where
  "raise_signal SIGUSR1 ch = ch\<lparr>ch_usr1 := True\<rparr>"
| "raise_signal SIGUSR2 ch = ch\<lparr>ch_usr2 := True\<rparr>"

definition server_channel :: "channel \<Rightarrow> event \<Rightarrow> channel option" where
  "server_channel ch = (\<lambda>(c, r). case c of
     Proc (Sigwait sigs) \<Rightarrow> if SIGUSR1 \<in> set sigs \<and> ch_usr1 ch then Some (ch\<lparr>ch_usr1 := False\<rparr>) else None
   | Proc (Kill_group s) \<Rightarrow> Some (raise_signal s ch)
   | File (Fwrite _ bs) \<Rightarrow> if ret r = 1 then Some (ch\<lparr>ch_wbuf := ch_wbuf ch @ bs\<rparr>) else None
   | File (Fflush _) \<Rightarrow> Some (ch\<lparr>ch_wbuf := [], ch_pipe := ch_pipe ch @ ch_wbuf ch\<rparr>)
   | _ \<Rightarrow> Some ch)"

definition client_channel :: "channel \<Rightarrow> event \<Rightarrow> channel option" where
  "client_channel ch = (\<lambda>(c, r). case c of
     Proc (Sigwait sigs) \<Rightarrow> if SIGUSR2 \<in> set sigs \<and> ch_usr2 ch then Some (ch\<lparr>ch_usr2 := False\<rparr>) else None
   | Proc (Kill_group s) \<Rightarrow> Some (raise_signal s ch)
   | File (Fread _) \<Rightarrow>
       if 8 \<le> length (ch_pipe ch) \<and> ret r = 1 \<and> dat r = take 8 (ch_pipe ch)
       then Some (ch\<lparr>ch_pipe := drop 8 (ch_pipe ch)\<rparr>) else None
   | _ \<Rightarrow> Some ch)"

section \<open>The simulation\<close>

fun server_at :: "fs_pc \<Rightarrow> xs_pc option" where
  "server_at F_wait = Some X_wait"
| "server_at F_now = Some X_now"
| "server_at (F_write t) = Some (X_write t)"
| "server_at (F_flush t) = Some (X_write t)"
| "server_at F_notify = Some X_notify"
| "server_at F_lost = None"

fun client_at :: "fc_pc \<Rightarrow> xc_pc option" where
  "client_at G_head = Some Q_head"
| "client_at G_wait = Some Q_wait"
| "client_at G_read = Some Q_read"
| "client_at G_measure = Some Q_measure"
| "client_at G_lost = None"

definition stream_rep :: "channel \<Rightarrow> fs_pc \<times> u64 list \<Rightarrow> fc_pc client \<Rightarrow> sx_state \<Rightarrow> bool" where
  "stream_rep ch = (\<lambda>(spc, sent) (cpc, b, ms) s.
     sx_alive s \<and> sx_usr1 s = ch_usr1 ch \<and> sx_usr2 s = ch_usr2 ch \<and>
     server_at spc = Some (sx_spc s) \<and> client_at cpc = Some (sx_cpc s) \<and>
     sx_bench s = b \<and> sx_sent s = sent \<and> sx_got s = map fst ms \<and>
     ch_wbuf ch = (case spc of F_flush t \<Rightarrow> bytes_of_u64 t | _ \<Rightarrow> []) \<and>
     ch_pipe ch = concat (map bytes_of_u64 (sx_stream s)))"

text \<open>Both processes in front of their loops, their signals blocked.\<close>

definition sx_ready :: "sx_state \<Rightarrow> bool" where
  "sx_ready s \<longleftrightarrow> sx_alive s \<and> SIGUSR1 \<in> set (sx_mask s) \<and> sx_client_alive s \<and> SIGUSR2 \<in> set (sx_client_mask s) \<and>
     \<not> sx_usr1 s \<and> \<not> sx_usr2 s \<and> sx_stream s = [] \<and> sx_spc s = X_wait \<and> sx_cpc s = Q_head \<and>
     b_count (sx_bench s) = 0 \<and> sx_sent s = [] \<and> sx_got s = []"

lemma sx_inv_ready: "sx_ready s \<Longrightarrow> sx_inv True s"
  by (simp add: sx_ready_def sx_defs)

lemma sx_inv_lives:
  assumes "sx_inv True s"
  shows "sx_client_alive s" and "sx_spc s \<noteq> X_start (start_order SIGUSR1 True) \<Longrightarrow> SIGUSR1 \<in> set (sx_mask s)"
    and "sx_cpc s \<noteq> Q_start (start_order SIGUSR2 True) \<Longrightarrow> SIGUSR2 \<in> set (sx_client_mask s)"
  using assms by (simp_all add: sx_inv_def start_inv_def)

text \<open>What is sent and not yet in the client's hands.\<close>

lemma sx_under_way:
  assumes "sx_inv fifo s" and "sx_alive s"
  shows "\<exists>rest. sx_sent s = sx_got s @ (if sx_cpc s = Q_measure then [b_single_start (sx_bench s)] else []) @ rest \<and>
     length rest \<le> 1 \<and> (\<forall>t. sx_spc s = X_write t \<longrightarrow> rest = [] \<and> sx_cpc s \<noteq> Q_measure)"
proof (cases "unread s")
  case True
  then have "sx_cpc s \<noteq> Q_measure" by (auto simp: unread_def)
  moreover have "sx_spc s \<noteq> X_write t" for t using True assms by (auto simp: sx_inv_def unread_def)
  ultimately show ?thesis using assms(1) True by (auto simp: sx_inv_def)
next
  case False
  then have "sx_sent s = sx_got s @ (if sx_cpc s = Q_measure then [b_single_start (sx_bench s)] else [])"
    using assms(1) by (simp add: sx_inv_def)
  moreover have "sx_spc s = X_write t \<Longrightarrow> sx_cpc s \<noteq> Q_measure" for t using assms by (auto simp: sx_inv_def)
  ultimately show ?thesis by auto
qed

lemma stream_server_sim:
  assumes "sx_inv True s" and "stream_rep ch p k s" and "stream_server_auto stream sigs p e = Some p'"
    and "server_channel ch e = Some ch'"
  shows "\<exists>s'. sx_step\<^sup>*\<^sup>* s s' \<and> stream_rep ch' p' k s'"
proof -
  obtain spc sent cpc b ms c r where [simp]: "p = (spc, sent)" "k = (cpc, b, ms)" "e = (c, r)"
    by (cases p; cases k; cases e)
  note facts = assms(2-4) stream_rep_def server_channel_def
  have mask: "SIGUSR2 \<in> set (sx_client_mask s)"
    using assms(2) by (intro sx_inv_lives(3) [OF assms(1)]) (cases cpc; auto simp: stream_rep_def)
  show ?thesis
  proof (cases spc)
    case F_wait
    then show ?thesis using facts sx_take [of s]
      by (intro exI [of _ "s\<lparr>sx_spc := X_now, sx_usr1 := False\<rparr>"]) (auto split: if_splits)
  next
    case F_now
    then show ?thesis using facts sx_now [of s "now_value (nums r ! 0) (nums r ! 1)"]
      by (intro exI [of _ "s\<lparr>sx_spc := X_write (now_value (nums r ! 0) (nums r ! 1))\<rparr>"]) (auto split: if_splits)
  next
    case (F_write t)
    then show ?thesis using facts by (intro exI [of _ s]) (auto split: if_splits)
  next
    case (F_flush t)
    then show ?thesis using facts sx_write [of s t]
      by (intro exI [of _ "s\<lparr>sx_spc := X_notify, sx_stream := sx_stream s @ [t], sx_sent := sx_sent s @ [t]\<rparr>"])
        (auto split: if_splits)
  next
    case F_notify
    then show ?thesis using facts sx_notify [of s] mask
      by (intro exI [of _ "s\<lparr>sx_spc := X_wait, sx_usr2 := True\<rparr>"]) (auto simp: raise_usr2_def split: if_splits)
  qed (use assms(2) in \<open>simp add: stream_rep_def\<close>)
qed

lemma stream_client_sim:
  assumes "sx_inv True s" and "stream_rep ch p k s" and "stream_client_auto stream sigs k e = Some k'"
    and "client_channel ch e = Some ch'"
  shows "\<exists>s'. sx_step\<^sup>*\<^sup>* s s' \<and> stream_rep ch' p k' s'"
proof -
  obtain spc sent cpc b ms c r where [simp]: "p = (spc, sent)" "k = (cpc, b, ms)" "e = (c, r)"
    by (cases p; cases k; cases e)
  note facts = assms(2-4) stream_rep_def client_channel_def sx_inv_lives(1) [OF assms(1)]
  show ?thesis
  proof (cases cpc)
    case G_head
    have "SIGUSR1 \<in> set (sx_mask s)"
      using assms(2) by (intro sx_inv_lives(2) [OF assms(1)]) (cases spc; auto simp: stream_rep_def)
    then have "sx_step s (s\<lparr>sx_cpc := Q_wait, sx_usr1 := True\<rparr>)"
      using facts G_head xc_notify [of s] by (auto simp: raise_usr1_def)
    then show ?thesis using facts G_head
      by (intro exI [of _ "if c = Misc Gettimeofday then s else s\<lparr>sx_cpc := Q_wait, sx_usr1 := True\<rparr>"])
        (auto split: if_splits)
  next
    case G_wait
    then show ?thesis using facts xc_take [of s]
      by (intro exI [of _ "s\<lparr>sx_cpc := Q_read, sx_usr2 := False\<rparr>"]) (auto split: if_splits)
  next
    case G_read
    then obtain t where t: "sx_stream s = [t]" using assms(1) facts by (auto simp: sx_inv_def unread_def)
    then show ?thesis using facts G_read xc_read [of s t "[]"]
      by (intro exI [of _ "s\<lparr>sx_cpc := Q_measure, sx_stream := [], sx_bench := (sx_bench s)\<lparr>b_single_start := t\<rparr>\<rparr>"])
        (auto split: if_splits)
  next
    case G_measure
    let ?u = "now_value (nums r ! 0) (nums r ! 1)"
    show ?thesis using facts G_measure xc_measure [of s ?u]
      by (intro exI [of _ "s\<lparr>sx_cpc := Q_head, sx_bench := benchmark_at (sx_bench s) ?u,
            sx_got := sx_got s @ [b_single_start (sx_bench s)]\<rparr>"]) (auto split: if_splits)
  qed (use assms(2) in \<open>simp add: stream_rep_def\<close>)
qed

interpretation stream_programs: program_pair sx_ready sx_step "sx_inv True"
    "stream_server_auto stream sigs" "stream_client_auto stream' sigs'" server_channel client_channel stream_rep
    for stream stream' sigs sigs'
  by unfold_locales (fact sx_inv_ready sx_inv_step stream_server_sim stream_client_sim)+

section \<open>The programs follow the two sides\<close>

definition stream_server_halt :: "halt \<Rightarrow> fs_pc \<times> u64 list \<Rightarrow> bool" where
  "stream_server_halt h p \<longleftrightarrow> h = Running \<or> fst p = F_lost"

definition stream_client_halt :: "halt \<Rightarrow> fc_pc client \<Rightarrow> bool" where
  "stream_client_halt h k \<longleftrightarrow> h = Running \<or> fst k = G_lost"

lemmas stream_norm = wait_for_signal_def notify_client_def notify_server_def prog_norm

lemma pipe_server_follows:
  assumes "fst p = F_wait \<or> fst p = F_lost"
  shows "follows (stream_server_auto stream (sa_mask sa)) p (pipe_server_round stream sa u)
     (outcome stream_server_halt (\<lambda>_ p. fst p = F_wait \<or> fst p = F_lost))"
  using assms
  by (cases p) (auto simp: pipe_server_round_def stream_norm stream_server_halt_def intro!: follows_intros split: if_splits)

lemma fifo_server_follows:
  assumes "fst p = F_wait \<or> fst p = F_lost"
  shows "follows (stream_server_auto stream (sa_mask sa)) p (fifo_server_round stream sa u)
     (outcome stream_server_halt (\<lambda>_ p. fst p = F_wait \<or> fst p = F_lost))"
  using assms
  by (cases p) (auto simp: fifo_server_round_def stream_norm stream_server_halt_def intro!: follows_intros split: if_splits)

definition at_loop :: "Benchmarks \<Rightarrow> u64 \<Rightarrow> fc_pc client \<Rightarrow> bool" where
  "at_loop b cnt k \<longleftrightarrow> between G_head b cnt k \<or> fst k = G_lost"

lemma pipe_client_follows:
  assumes "at_loop b cnt k"
  shows "follows (stream_client_auto stream (sa_mask sa)) k (pipe_client_round stream sa b)
     (outcome stream_client_halt (\<lambda>b'. at_loop b' (cnt + 1)))"
  using assms
  by (cases k) (auto simp: pipe_client_round_def stream_norm stream_client_halt_def at_loop_def between_def
      intro!: follows_intros split: if_splits)

lemma fifo_client_follows:
  assumes "at_loop b cnt k"
  shows "follows (stream_client_auto stream (sa_mask sa)) k (fifo_client_round stream sa b)
     (outcome stream_client_halt (\<lambda>b'. at_loop b' (cnt + 1)))"
  using assms
  by (cases k) (auto simp: fifo_client_round_def fifo_client_msg_wait_def stream_norm stream_client_halt_def at_loop_def
      between_def intro!: follows_intros split: if_splits)

lemma stream_server_loop_follows:
  assumes "server \<in> {pipe_server_round stream sa, fifo_server_round stream sa}"
  shows "follows (stream_server_auto stream (sa_mask sa)) (F_wait, []) (forever_c n server ())
     (outcome stream_server_halt (\<lambda>_ _. False))"
  using assms pipe_server_follows fifo_server_follows
  by (intro follows_forever [where I = "\<lambda>_ p. fst p = F_wait \<or> fst p = F_lost"]) (auto simp: stream_server_halt_def)

lemma stream_client_loop_follows:
  assumes "client \<in> {pipe_client_round stream sa, fifo_client_round stream sa}"
  shows "follows (stream_client_auto stream (sa_mask sa)) (G_head, b, []) (timed_run n client b)
     (outcome stream_client_halt (\<lambda>x. at_loop (fst x) (snd x)))"
  by (rule follows_measuring_run [where bench_of = "\<lambda>b. b"])
    (use assms pipe_client_follows fifo_client_follows in \<open>auto simp: stream_client_halt_def at_loop_def between_def\<close>)

section \<open>What the programs measure\<close>

fun stream_stamp :: "event \<Rightarrow> u64 list" where
  "stream_stamp (c, r) = (case c of File (Fwrite stream bs) \<Rightarrow> [u64_of_bytes bs] | _ \<Rightarrow> [])"

fun stream_start :: "event \<Rightarrow> u64 list" where
  "stream_start (c, r) = (case c of File (Fread stream) \<Rightarrow> [u64_of_bytes (dat r)] | _ \<Rightarrow> [])"

definition written :: "fs_pc \<times> u64 list \<Rightarrow> u64 list" where
  "written p = snd p @ (case fst p of F_flush t \<Rightarrow> [t] | _ \<Rightarrow> [])"

lemma stream_server_sent:
  assumes "path (stream_server_auto stream sigs) (F_wait, []) es = Some p"
  shows "fst p = F_lost \<or> written p = concat (map stream_stamp es)"
  using assms
proof (rule path_inv [where I = "\<lambda>p es. fst p = F_lost \<or> written p = concat (map stream_stamp es)", rotated])
  fix p es e p' assume "fst p = F_lost \<or> written p = concat (map stream_stamp es)"
    and "stream_server_auto stream sigs p e = Some p'"
  then show "fst p' = F_lost \<or> written p' = concat (map stream_stamp (es @ [e]))"
    by (cases p; cases e; cases "fst p") (auto simp: written_def split: if_splits)
qed (simp add: written_def)

lemma stream_client_measured:
  assumes "path (stream_client_auto stream sigs) (G_head, b0, []) es = Some k"
  shows "fst k = G_lost \<or> recorded (\<lambda>es. concat (map stream_start es)) G_measure b0 k es"
  using assms
proof (rule path_inv [where I = "\<lambda>k es. fst k = G_lost \<or> recorded (\<lambda>es. concat (map stream_start es)) G_measure b0 k es", rotated])
  fix k es e k' assume "fst k = G_lost \<or> recorded (\<lambda>es. concat (map stream_start es)) G_measure b0 k es"
    and "stream_client_auto stream sigs k e = Some k'"
  then show "fst k' = G_lost \<or> recorded (\<lambda>es. concat (map stream_start es)) G_measure b0 k' (es @ [e])"
    by (cases k; cases e; cases "fst k") (auto simp: recorded_def split: if_splits)
qed (simp add: recorded_def)

text \<open>
  C8: Client and server programs on one stream.  Take any run of the server's loop and any run of the
  client's measuring loop, of the pipe or of the fifo benchmark, whose calls are in some interleaving
  answered by two pending signals and a stream of bytes; the server has set up its signals.  Then
  neither program fails, however long they run.  The start times the client read are the timestamps the
  server wrote, in order and undivided, with at most one under way, and a client that has left its loop
  has counted and measured each of them against its own next clock reading.
\<close>

theorem stream_programs_measure:
  assumes "server \<in> {pipe_server_round stream sa, fifo_server_round stream sa}"
    and "client \<in> {pipe_client_round stream' sa', fifo_client_round stream' sa'}" and "b_count bench = 0"
    and "forever_c n server () w = ((r, w') :: (halt + unit) \<times> world)"
    and "timed_run k client bench v = (r', v')"
    and "joint server_channel client_channel empty_channel (events w w') (events v v') ch"
  defines "stamps \<equiv> concat (map stream_stamp (events w w'))" and "starts \<equiv> concat (map stream_start (events v v'))"
  shows "r = Inl Running \<and> (\<exists>rest. stamps = starts @ rest \<and> length rest \<le> 1) \<and>
     (case r' of Inl h \<Rightarrow> h = Running
      | Inr (b, cnt) \<Rightarrow> b = measure_all bench (zip starts (concat (map reading (events v v')))) \<and>
          cnt = of_nat (length starts))"
proof -
  define s where "s = (sample_sx True bench)\<lparr>sx_mask := [SIGUSR1], sx_client_mask := [SIGUSR2], sx_spc := X_wait, sx_cpc := Q_head\<rparr>"
  have start: "sx_ready s" "stream_rep empty_channel (F_wait, []) (G_head, bench, []) s"
    using assms(3) by (simp_all add: s_def sx_ready_def sample_sx_def stream_rep_def empty_channel_def)
  from stream_programs.programs_reach [OF stream_server_loop_follows [OF assms(1)] assms(4)
      stream_client_loop_follows [OF assms(2)] assms(5,6) start(2,1)]
  obtain p k s' where paths: "path (stream_server_auto stream (sa_mask sa)) (F_wait, []) (events w w') = Some p"
      "path (stream_client_auto stream' (sa_mask sa')) (G_head, bench, []) (events v v') = Some k"
    and inv: "sx_inv True s'" and rep: "stream_rep ch p k s'"
    and outcomes: "outcome stream_server_halt (\<lambda>_ _. False) r p"
      "outcome stream_client_halt (\<lambda>x. at_loop (fst x) (snd x)) r' k"
    by auto
  have fine: "fst p \<noteq> F_lost" "fst k \<noteq> G_lost" using rep by (cases p; cases k; auto simp: stream_rep_def)+
  have meas: "recorded (\<lambda>es. concat (map stream_start es)) G_measure bench k (events v v')" using stream_client_measured [OF paths(2)] fine by simp
  have "r = Inl Running" using outcomes(1) fine by (simp add: stream_server_halt_def split: sum.splits)
  moreover have "\<exists>rest. stamps = starts @ rest \<and> length rest \<le> 1"
  proof -
    obtain spc sent cpc b ms where [simp]: "p = (spc, sent)" "k = (cpc, b, ms)" by (cases p; cases k)
    have "written p = stamps" using stream_server_sent [OF paths(1)] fine by (simp add: stamps_def)
    moreover have "starts = map fst ms @ (if cpc = G_measure then [b_single_start b] else [])"
      using meas by (simp add: recorded_def starts_def)
    moreover have "cpc = G_measure \<longleftrightarrow> sx_cpc s' = Q_measure" using rep by (cases cpc) (auto simp: stream_rep_def)
    moreover have alive: "sx_alive s'" "sx_sent s' = sent" "sx_got s' = map fst ms" "sx_bench s' = b"
      "sx_spc s' = the (server_at spc)" using rep by (simp_all add: stream_rep_def)
    ultimately show ?thesis using sx_under_way [OF inv alive(1)] by (cases spc) (auto simp: written_def)
  qed
  moreover have "h = Running" if "r' = Inl h" for h
    using outcomes(2) that fine by (simp add: stream_client_halt_def)
  moreover have "b = measure_all bench (zip starts (concat (map reading (events v v')))) \<and> cnt = of_nat (length starts)"
    if "r' = Inr (b, cnt)" for b cnt
    using outcomes(2) that fine recorded_between [OF meas] unfolding starts_def by (simp add: at_loop_def)
  ultimately show ?thesis by (auto split: sum.splits)
qed

text \<open>One message through the fifo: the two worlds, and the interleaving.\<close>

abbreviation waits_for :: "signal \<Rightarrow> sigaction" where
  "waits_for s \<equiv> \<lparr>sa_restart = True, sa_handler = Handler_default, sa_mask = [s]\<rparr>"

definition sample_stream_server :: world where
  "sample_stream_server = \<lparr>w_os = (\<lambda>_ c. case c of
       Misc Timespec_get \<Rightarrow> \<lparr>ret = 1, err = 0, dat = [], nums = [3, 7], addrs = []\<rparr> | _ \<Rightarrow> ok_reply 1),
     w_calls = [], w_errno = 0\<rparr>"

definition sample_stream_client :: world where
  "sample_stream_client = \<lparr>w_os = (\<lambda>calls c. case c of
       File (Fread _) \<Rightarrow> \<lparr>ret = 1, err = 0, dat = bytes_of_u64 (now_value 3 7), nums = [], addrs = []\<rparr>
     | Misc Timespec_get \<Rightarrow> \<lparr>ret = 1, err = 0, dat = [], nums = [3, 9], addrs = []\<rparr>
     | Misc Gettimeofday \<Rightarrow>
         \<lparr>ret = 0, err = 0, dat = [], nums = [3, if Misc Timespec_get \<in> set calls then 200000 else 0], addrs = []\<rparr>
     | _ \<Rightarrow> ok_reply 0), w_calls = [], w_errno = 0\<rparr>"

lemma sample_stream_server_run:
  "forever_c 1 (fifo_server_round 7 (waits_for SIGUSR1)) () sample_stream_server =
     ((Inl Running, sample_stream_server\<lparr>w_calls := [Proc (Sigwait [SIGUSR1]), Misc Timespec_get,
       File (Fwrite 7 (bytes_of_u64 (now_value 3 7))), File (Fflush 7), Proc (Kill_group SIGUSR2)]\<rparr>) :: (halt + unit) \<times> world)"
  by (simp add: fifo_server_round_def wait_for_signal_def notify_client_def sample_stream_server_def now_def
      prog_simps sys_def Let_def throw_def)

lemma sample_stream_client_run:
  "timed_run 2 (fifo_client_round 8 (waits_for SIGUSR2)) sample_bench sample_stream_client =
     (Inr (benchmark_at (sample_bench\<lparr>b_single_start := now_value 3 7\<rparr>) (now_value 3 9), 1),
      sample_stream_client\<lparr>w_calls := [Misc Gettimeofday, Misc Gettimeofday, Proc (Kill_group SIGUSR1),
        Proc (Sigwait [SIGUSR2]), File (Fread 8), Misc Timespec_get, Misc Gettimeofday]\<rparr>)"
  by (simp add: timed_run_def timed_loop.simps eval_nat_numeral fifo_client_round_def fifo_client_msg_wait_def
      wait_for_signal_def notify_server_def sample_stream_client_def now_def benchmark_def gettimeofday_def prog_simps
      sys_def Let_def throw_def)

lemma sample_stream_joint:
  "joint server_channel client_channel empty_channel
     (events sample_stream_server (sample_stream_server\<lparr>w_calls := [Proc (Sigwait [SIGUSR1]), Misc Timespec_get,
       File (Fwrite 7 (bytes_of_u64 (now_value 3 7))), File (Fflush 7), Proc (Kill_group SIGUSR2)]\<rparr>))
     (events sample_stream_client (sample_stream_client\<lparr>w_calls := [Misc Gettimeofday, Misc Gettimeofday,
       Proc (Kill_group SIGUSR1), Proc (Sigwait [SIGUSR2]), File (Fread 8), Misc Timespec_get, Misc Gettimeofday]\<rparr>))
     empty_channel"
  by (rule play_joint [where sched = "[False, False, False, True, True, True, True, True, False, False, False, False]"])
    (simp add: events_def sample_stream_server_def sample_stream_client_def server_channel_def client_channel_def
      empty_channel_def)

theorem stream_programs_measure_witness:
  "case fst (timed_run 2 (fifo_client_round 8 (waits_for SIGUSR2)) sample_bench sample_stream_client) of
     Inl _ \<Rightarrow> False | Inr (b, cnt) \<Rightarrow> b = measure_all sample_bench [(now_value 3 7, now_value 3 9)] \<and> cnt = 1"
  using stream_programs_measure [OF _ _ _ sample_stream_server_run sample_stream_client_run sample_stream_joint]
  unfolding sample_stream_client_run by (simp add: events_def sample_stream_client_def sample_bench_def)

end
