(* ===== verification/Eventfd.thy ===== *)
theory Eventfd
  imports Stream_Sockets
begin

text \<open>
  The eventfd benchmarks \<^verbatim>\<open>source/eventfd/eventfd-bi.c\<close> and \<^verbatim>\<open>eventfd-uni.c\<close>.  An eventfd is a 64-bit
  counter: a write adds its value and blocks while the sum would exceed \<open>2 ^ 64 - 2\<close>; a read blocks
  while the counter is zero, and otherwise returns it and resets it.
\<close>

section \<open>The programs\<close>

definition SERVER_TOKEN :: u64 where "SERVER_TOKEN = 1"
definition CLIENT_TOKEN :: u64 where "CLIENT_TOKEN = 2"

definition eventfd_notify :: "int \<Rightarrow> u64 \<Rightarrow> unit prog" where
  "eventfd_notify descriptor value =
     bind_c (sys_ret (File (Write descriptor (bytes_of_u64 value)))) (\<lambda>r.
       if r = -1 then throw ''Error writing to eventfd'' else return_c ())"

fun eventfd_wait :: "nat \<Rightarrow> int \<Rightarrow> u64 \<Rightarrow> unit prog" where
  "eventfd_wait 0 descriptor wanted = halt_c Running"
| "eventfd_wait (Suc n) descriptor wanted =
     bind_c (sys (File (Read descriptor 8))) (\<lambda>r.
       if ret r = -1 then throw ''Error reading from eventfd''
       else (let stored = u64_of_bytes (dat r) in
         if stored = wanted then return_c ()
         else bind_c (sys_ret (File (Write descriptor (bytes_of_u64 stored)))) (\<lambda>r.
           if r = -1 then throw ''Error writing back to eventfd'' else eventfd_wait n descriptor wanted)))"

text \<open>The counting loop; its number of rounds is the positive part of the count.\<close>

fun bi_client_rounds :: "nat \<Rightarrow> int \<Rightarrow> nat \<Rightarrow> unit prog" where
  "bi_client_rounds n descriptor 0 = return_c ()"
| "bi_client_rounds n descriptor (Suc count) =
     seq_c (eventfd_notify descriptor SERVER_TOKEN)
     (seq_c (eventfd_wait n descriptor CLIENT_TOKEN) (bi_client_rounds n descriptor count))"

definition bi_client_communicate :: "nat \<Rightarrow> int \<Rightarrow> Arguments \<Rightarrow> unit prog" where
  "bi_client_communicate n descriptor args = bi_client_rounds n descriptor (nat (sint (a_count args)))"

fun bi_server_rounds :: "nat \<Rightarrow> int \<Rightarrow> nat \<Rightarrow> Benchmarks \<Rightarrow> Benchmarks prog" where
  "bi_server_rounds n descriptor 0 bench = return_c bench"
| "bi_server_rounds n descriptor (Suc count) bench =
     bind_c now (\<lambda>t.
     seq_c (eventfd_wait n descriptor SERVER_TOKEN)
     (seq_c (eventfd_notify descriptor CLIENT_TOKEN)
     (bind_c (benchmark (bench\<lparr>b_single_start := t\<rparr>)) (bi_server_rounds n descriptor count))))"

definition bi_server_communicate :: "nat \<Rightarrow> Benchmarks \<Rightarrow> int \<Rightarrow> Arguments \<Rightarrow> report prog" where
  "bi_server_communicate n bench0 descriptor args =
     bind_c (setup_benchmarks bench0) (\<lambda>bench.
     bind_c (bi_server_rounds n descriptor (nat (sint (a_count args))) bench) (\<lambda>bench.
     evaluate bench (args\<lparr>a_size := 1\<rparr>)))"

text \<open>\<open>None\<close> is the outcome of the child, which prints no report.\<close>

definition bi_communicate :: "nat \<Rightarrow> Benchmarks \<Rightarrow> int \<Rightarrow> Arguments \<Rightarrow> report option prog" where
  "bi_communicate n bench0 descriptor args =
     bind_c (sys_ret (Proc Fork)) (\<lambda>pid.
       if pid = -1 then throw ''Error forking process''
       else if pid = 0 then
         seq_c (bi_client_communicate n descriptor args)
         (seq_c (sys_do (File (Close descriptor))) (return_c None))
       else bind_c (bi_server_communicate n bench0 descriptor args) (\<lambda>r. return_c (Some r)))"

definition eventfd_bi_main :: "nat \<Rightarrow> Benchmarks \<Rightarrow> string list \<Rightarrow> report option prog" where
  "eventfd_bi_main n bench0 argv =
     bind_c (sys_ret (File (Eventfd 0))) (\<lambda>descriptor.
     bi_communicate n bench0 descriptor (parse_arguments argv))"

text \<open>The one-way variant.\<close>

definition uni_client_round :: "int \<Rightarrow> Benchmarks \<Rightarrow> Benchmarks prog" where
  "uni_client_round descriptor bench =
     bind_c (sys (File (Read descriptor 8))) (\<lambda>r.
       if ret r = -1 then seq_c (sys_do (Misc (Perror ''Error reading from eventfd''))) (halt_c (Exited 1))
       else (let bench = bench\<lparr>b_single_start := u64_of_bytes (dat r)\<rparr> in
         seq_c (sys_do (Misc (Printf (''client='' @ dec_int (sint (b_single_start bench)) @ [CHR 0x0A]))))
         (benchmark bench)))"

definition uni_client_communicate :: "nat \<Rightarrow> Benchmarks \<Rightarrow> int \<Rightarrow> Arguments \<Rightarrow> report prog" where
  "uni_client_communicate n bench0 descriptor args =
     bind_c (setup_benchmarks bench0) (\<lambda>bench.
     bind_c (timed_run n (uni_client_round descriptor) bench) (\<lambda>(bench, cnt).
     seq_c (print_count cnt []) (evaluate bench args)))"

definition uni_server_communicate :: "nat \<Rightarrow> int \<Rightarrow> 'a prog" where
  "uni_server_communicate n descriptor =
     forever_c n (\<lambda>_.
       bind_c now (\<lambda>timestamp.
       bind_c (sys_ret (File (Write descriptor (bytes_of_u64 timestamp)))) (\<lambda>r.
         if r = -1 then seq_c (sys_do (Misc (Perror ''Error writing to eventfd''))) (halt_c (Exited 1))
         else sys_do (Misc (Printf (''server='' @ dec_int (sint timestamp) @ [CHR 0x0A])))))) ()"

definition uni_communicate :: "nat \<Rightarrow> Benchmarks \<Rightarrow> int \<Rightarrow> Arguments \<Rightarrow> report prog" where
  "uni_communicate n bench0 descriptor args =
     bind_c (sys_ret (Proc Fork)) (\<lambda>pid.
       if pid = -1 then seq_c (sys_do (Misc (Perror ''Error forking process''))) (halt_c (Exited 1))
       else if pid = 0 then
         bind_c (uni_client_communicate n bench0 descriptor args) (\<lambda>r.
         seq_c (sys_do (File (Close descriptor))) (return_c r))
       else uni_server_communicate n descriptor)"

definition eventfd_uni_main :: "nat \<Rightarrow> Benchmarks \<Rightarrow> string list \<Rightarrow> report prog" where
  "eventfd_uni_main n bench0 argv =
     bind_c (sys_ret (File (Eventfd 0))) (\<lambda>descriptor.
     uni_communicate n bench0 descriptor (parse_arguments argv))"

section \<open>Both processes of the two-way benchmark\<close>

definition EVENTFD_MAX :: nat where "EVENTFD_MAX = 2 ^ 64 - 2"

datatype bi_client_pc = E_head | E_read | E_back nat | E_done

datatype bi_server_pc = V_head | V_read | V_back nat | V_notify | V_bench | V_done

text \<open>The counter, the two program counters and how many rounds each side has not completed.\<close>

record bi_state =
  e_counter :: nat
  e_cpc :: bi_client_pc
  e_cleft :: nat
  e_spc :: bi_server_pc
  e_sleft :: nat
  e_bench :: Benchmarks

abbreviation "server_token \<equiv> unat SERVER_TOKEN"
abbreviation "client_token \<equiv> unat CLIENT_TOKEN"

inductive bi_step :: "bi_state \<Rightarrow> bi_state \<Rightarrow> bool" where
  bc_end: "e_cpc s = E_head \<Longrightarrow> e_cleft s = 0 \<Longrightarrow> bi_step s (s\<lparr>e_cpc := E_done\<rparr>)"
| bc_notify: "e_cpc s = E_head \<Longrightarrow> 0 < e_cleft s \<Longrightarrow> e_counter s + server_token \<le> EVENTFD_MAX \<Longrightarrow>
     bi_step s (s\<lparr>e_cpc := E_read, e_counter := e_counter s + server_token\<rparr>)"
| bc_hit: "e_cpc s = E_read \<Longrightarrow> e_counter s \<noteq> 0 \<Longrightarrow> e_counter s = client_token \<Longrightarrow>
     bi_step s (s\<lparr>e_cpc := E_head, e_counter := 0, e_cleft := e_cleft s - 1\<rparr>)"
| bc_miss: "e_cpc s = E_read \<Longrightarrow> e_counter s \<noteq> 0 \<Longrightarrow> e_counter s \<noteq> client_token \<Longrightarrow>
     bi_step s (s\<lparr>e_cpc := E_back (e_counter s), e_counter := 0\<rparr>)"
| bc_back: "e_cpc s = E_back v \<Longrightarrow> e_counter s + v \<le> EVENTFD_MAX \<Longrightarrow>
     bi_step s (s\<lparr>e_cpc := E_read, e_counter := e_counter s + v\<rparr>)"
| bs_end: "e_spc s = V_head \<Longrightarrow> e_sleft s = 0 \<Longrightarrow> bi_step s (s\<lparr>e_spc := V_done\<rparr>)"
| bs_start: "e_spc s = V_head \<Longrightarrow> 0 < e_sleft s \<Longrightarrow>
     bi_step s (s\<lparr>e_spc := V_read, e_bench := (e_bench s)\<lparr>b_single_start := t\<rparr>\<rparr>)"
| bs_hit: "e_spc s = V_read \<Longrightarrow> e_counter s \<noteq> 0 \<Longrightarrow> e_counter s = server_token \<Longrightarrow>
     bi_step s (s\<lparr>e_spc := V_notify, e_counter := 0\<rparr>)"
| bs_miss: "e_spc s = V_read \<Longrightarrow> e_counter s \<noteq> 0 \<Longrightarrow> e_counter s \<noteq> server_token \<Longrightarrow>
     bi_step s (s\<lparr>e_spc := V_back (e_counter s), e_counter := 0\<rparr>)"
| bs_back: "e_spc s = V_back v \<Longrightarrow> e_counter s + v \<le> EVENTFD_MAX \<Longrightarrow>
     bi_step s (s\<lparr>e_spc := V_read, e_counter := e_counter s + v\<rparr>)"
| bs_notify: "e_spc s = V_notify \<Longrightarrow> e_counter s + client_token \<le> EVENTFD_MAX \<Longrightarrow>
     bi_step s (s\<lparr>e_spc := V_bench, e_counter := e_counter s + client_token\<rparr>)"
| bs_bench: "e_spc s = V_bench \<Longrightarrow>
     bi_step s (s\<lparr>e_spc := V_head, e_sleft := e_sleft s - 1, e_bench := benchmark_at (e_bench s) t\<rparr>)"

definition bi_init :: "nat \<Rightarrow> bi_state \<Rightarrow> bool" where
  "bi_init n s \<longleftrightarrow> e_counter s = 0 \<and> e_cpc s = E_head \<and> e_cleft s = n \<and> e_spc s = V_head \<and>
     e_sleft s = n \<and> b_count (e_bench s) = 0"

text \<open>How many tokens the server still has to receive.\<close>

definition owed :: "bi_state \<Rightarrow> nat" where
  "owed s = (if e_spc s \<in> {V_notify, V_bench} then e_sleft s - 1 else e_sleft s)"

definition server_away :: "bi_state \<Rightarrow> bool" where
  "server_away s \<longleftrightarrow> e_spc s \<in> {V_head, V_read, V_bench, V_done}"

definition bi_server_ok :: "nat \<Rightarrow> bi_state \<Rightarrow> bool" where
  "bi_server_ok n s \<longleftrightarrow>
     (e_spc s \<noteq> V_head \<and> e_spc s \<noteq> V_done \<longrightarrow> 0 < e_sleft s) \<and> (e_spc s = V_done \<longrightarrow> e_sleft s = 0) \<and>
     e_sleft s \<le> n \<and> b_count (e_bench s) = of_nat (n - e_sleft s)"

text \<open>There is one token at a time, and it is where the program counters say.\<close>

definition bi_inv :: "nat \<Rightarrow> bi_state \<Rightarrow> bool" where
  "bi_inv n s \<longleftrightarrow> bi_server_ok n s \<and>
     (case e_cpc s of
        E_head \<Rightarrow> e_counter s = 0 \<and> server_away s \<and> owed s = e_cleft s
      | E_done \<Rightarrow> e_counter s = 0 \<and> server_away s \<and> owed s = 0 \<and> e_cleft s = 0
      | E_back v \<Rightarrow> v = 1 \<and> e_counter s = 0 \<and> server_away s \<and> owed s = e_cleft s \<and> 0 < e_cleft s
      | E_read \<Rightarrow> 0 < e_cleft s \<and>
          (e_counter s = 1 \<and> server_away s \<and> owed s = e_cleft s \<or>
           e_counter s = 0 \<and> e_spc s = V_notify \<and> owed s = e_cleft s - 1 \<or>
           e_counter s = 2 \<and> server_away s \<and> owed s = e_cleft s - 1 \<or>
           e_counter s = 0 \<and> e_spc s = V_back 2 \<and> owed s = e_cleft s - 1))"

lemma token_simps [simp]: "server_token = 1" "client_token = 2"
  by (simp_all add: SERVER_TOKEN_def CLIENT_TOKEN_def)

lemmas bi_defs = bi_inv_def bi_server_ok_def owed_def server_away_def

lemma bi_inv_init: "bi_init n s \<Longrightarrow> bi_inv n s"
  by (simp add: bi_init_def bi_defs)

lemma bi_inv_step: "bi_inv n s \<Longrightarrow> bi_step s t \<Longrightarrow> bi_inv n t"
  by (erule bi_step.cases)
    (auto simp: bi_defs benchmark_at_def Let_def of_nat_diff split: bi_client_pc.splits if_splits)

definition bi_finished :: "bi_state \<Rightarrow> bool" where
  "bi_finished s \<longleftrightarrow> e_cpc s = E_done \<and> e_spc s = V_done"

fun bi_client_rank :: "bi_client_pc \<Rightarrow> nat" where
  "bi_client_rank E_head = 5" | "bi_client_rank E_read = 3"
| "bi_client_rank (E_back _) = 4" | "bi_client_rank E_done = 0"

fun bi_server_rank :: "bi_server_pc \<Rightarrow> nat" where
  "bi_server_rank V_head = 6" | "bi_server_rank V_read = 4" | "bi_server_rank (V_back _) = 5"
| "bi_server_rank V_notify = 3" | "bi_server_rank V_bench = 2" | "bi_server_rank V_done = 0"

definition bi_rank :: "bi_state \<Rightarrow> nat" where
  "bi_rank s = 10 * e_cleft s + bi_client_rank (e_cpc s) + 10 * e_sleft s + bi_server_rank (e_spc s)"

text \<open>The server's own steps that need nothing from the counter, or the token that is there.\<close>

lemma bi_server_moves:
  assumes "bi_server_ok n s" and "e_spc s = V_head \<or> e_spc s = V_bench \<or> (e_spc s = V_read \<and> e_counter s = 1)"
  shows "\<exists>t. bi_step s t \<and> bi_rank t < bi_rank s"
proof -
  have "\<exists>t. bi_step s t \<and> bi_rank t < bi_rank s" if "e_spc s = V_head"
  proof (cases "e_sleft s = 0")
    case True
    then show ?thesis using bs_end [OF that] that by (force simp: bi_rank_def)
  next
    case False
    then show ?thesis using bs_start [OF that, of undefined] that by (force simp: bi_rank_def)
  qed
  moreover have "\<exists>t. bi_step s t \<and> bi_rank t < bi_rank s" if "e_spc s = V_bench"
    using bs_bench [OF that, of undefined] that assms(1) by (force simp: bi_rank_def bi_server_ok_def)
  moreover have "\<exists>t. bi_step s t \<and> bi_rank t < bi_rank s" if "e_spc s = V_read" and "e_counter s = 1"
    using bs_hit [OF that(1)] that by (force simp: bi_rank_def)
  ultimately show ?thesis using assms(2) by blast
qed

lemma bi_client_moves:
  assumes "bi_inv n s" and "e_cpc s = E_head \<or> (\<exists>v. e_cpc s = E_back v) \<or> (e_cpc s = E_read \<and> e_counter s = 2)"
  shows "\<exists>t. bi_step s t \<and> bi_rank t < bi_rank s"
proof -
  have "\<exists>t. bi_step s t \<and> bi_rank t < bi_rank s" if "e_cpc s = E_head"
  proof (cases "e_cleft s = 0")
    case True
    then show ?thesis using bc_end [OF that] that by (force simp: bi_rank_def)
  next
    case False
    then show ?thesis using bc_notify [OF that] that assms(1)
      by (force simp: bi_rank_def bi_inv_def EVENTFD_MAX_def)
  qed
  moreover have "\<exists>t. bi_step s t \<and> bi_rank t < bi_rank s" if "e_cpc s = E_back v" for v
    using bc_back [OF that] that assms(1) by (force simp: bi_rank_def bi_inv_def EVENTFD_MAX_def)
  moreover have "\<exists>t. bi_step s t \<and> bi_rank t < bi_rank s" if "e_cpc s = E_read" and "e_counter s = 2"
    using bc_hit [OF that(1)] that assms(1) by (force simp: bi_rank_def bi_inv_def)
  ultimately show ?thesis using assms(2) by blast
qed

lemma bi_helpful:
  assumes "bi_inv n s" and "\<not> bi_finished s"
  shows "\<exists>t. bi_step s t \<and> bi_rank t < bi_rank s"
proof (cases "e_cpc s = E_head \<or> (\<exists>v. e_cpc s = E_back v) \<or> (e_cpc s = E_read \<and> e_counter s = 2)")
  case True
  then show ?thesis using bi_client_moves [OF assms(1)] by blast
next
  case False
  have ok: "bi_server_ok n s" using assms(1) by (simp add: bi_inv_def)
  consider "e_spc s = V_head \<or> e_spc s = V_bench \<or> (e_spc s = V_read \<and> e_counter s = 1)"
    | "e_spc s = V_notify" "e_counter s = 0" | "e_spc s = V_back 2" "e_counter s = 0"
    using assms False by (auto simp: bi_defs bi_finished_def split: bi_client_pc.splits if_splits)
  then show ?thesis
  proof cases
    case 1
    then show ?thesis using bi_server_moves [OF ok] by blast
  next
    case 2
    then show ?thesis using bs_notify [OF 2(1)] by (force simp: bi_rank_def EVENTFD_MAX_def)
  next
    case 3
    then show ?thesis using bs_back [OF 3(1)] by (force simp: bi_rank_def EVENTFD_MAX_def)
  qed
qed

interpretation two_way: completable_system "bi_init n" bi_step "bi_inv n" bi_finished bi_rank for n
  by unfold_locales (blast intro: bi_inv_init bi_inv_step bi_helpful)+

text \<open>
  C17: The two-way eventfd benchmark.  In every reachable state the counter is 0, 1 or 2: at most one
  token is about, however often a side picks up the other's token and writes it back.  The two
  processes never deadlock, from every reachable state the end can still be reached, and when
  nothing is possible any more both have finished and the server has counted all \<open>n\<close> messages.
  (That the end is reached is up to the scheduler: a side may pick up and write back a token that is
  not meant for it forever.)
\<close>

theorem eventfd_bi_completes:
  assumes "reach (bi_init n) bi_step s"
  shows "e_counter s \<le> 2 \<and> (stuck bi_step s \<longrightarrow> bi_finished s) \<and>
     (bi_finished s \<longrightarrow> b_count (e_bench s) = of_nat n) \<and>
     (\<exists>ts. run bi_step s ts \<and> bi_finished (last (s # ts)))"
proof -
  have inv: "bi_inv n s" using assms by (rule two_way.reach_inv)
  then have "e_counter s \<le> 2" and "bi_finished s \<longrightarrow> b_count (e_bench s) = of_nat n"
    by (auto simp: bi_defs bi_finished_def split: bi_client_pc.splits)
  then show ?thesis using two_way.no_deadlock [OF assms] two_way.can_finish [OF inv] by blast
qed

definition sample_bi :: bi_state where
  "sample_bi = \<lparr>e_counter = 0, e_cpc = E_head, e_cleft = 4, e_spc = V_head, e_sleft = 4, e_bench = sample_bench\<rparr>"

theorem eventfd_bi_completes_witness:
  "\<exists>ts. run bi_step sample_bi ts \<and> bi_finished (last (sample_bi # ts))"
proof -
  have "bi_init 4 sample_bi" by (simp add: bi_init_def sample_bi_def sample_bench_def)
  from eventfd_bi_completes [OF reach_init [where init = "bi_init 4", OF this]] show ?thesis by blast
qed

section \<open>Both processes of the one-way benchmark\<close>

text \<open>
  The server reads its clock and writes the reading, again and again, without waiting for anybody.  The
  client leaves its loop, or reads the counter, takes what it finds for a start time and measures it against
  its own clock.  What they print changes nothing between them.
\<close>

datatype uns_pc = N_clock | N_write u64

datatype unc_pc = R_head | R_measure | R_done

record uni_state =
  n_counter :: nat
  n_spc :: uns_pc
  n_sent :: "u64 list"
  n_cpc :: unc_pc
  n_bench :: Benchmarks
  n_got :: "u64 list"

inductive uni_step :: "uni_state \<Rightarrow> uni_state \<Rightarrow> bool" where
  us_now: "n_spc s = N_clock \<Longrightarrow> uni_step s (s\<lparr>n_spc := N_write timestamp\<rparr>)"
| us_write: "n_spc s = N_write timestamp \<Longrightarrow> n_counter s + unat timestamp \<le> EVENTFD_MAX \<Longrightarrow>
     uni_step s (s\<lparr>n_spc := N_clock, n_counter := n_counter s + unat timestamp, n_sent := n_sent s @ [timestamp]\<rparr>)"
| uc_leave: "n_cpc s = R_head \<Longrightarrow> uni_step s (s\<lparr>n_cpc := R_done\<rparr>)"
| uc_read: "n_cpc s = R_head \<Longrightarrow> n_counter s \<noteq> 0 \<Longrightarrow>
     uni_step s (s\<lparr>n_cpc := R_measure, n_counter := 0, n_bench := (n_bench s)\<lparr>b_single_start := of_nat (n_counter s)\<rparr>\<rparr>)"
| uc_measure: "n_cpc s = R_measure \<Longrightarrow>
     uni_step s (s\<lparr>n_cpc := R_head, n_bench := benchmark_at (n_bench s) t, n_got := n_got s @ [b_single_start (n_bench s)]\<rparr>)"

definition uni_init :: "uni_state \<Rightarrow> bool" where
  "uni_init s \<longleftrightarrow> n_counter s = 0 \<and> n_spc s = N_clock \<and> n_sent s = [] \<and> n_cpc s = R_head \<and> n_got s = []"

text \<open>The start times taken so far, the one being measured included.\<close>

definition taken :: "uni_state \<Rightarrow> u64 list" where
  "taken s = n_got s @ (if n_cpc s = R_measure then [b_single_start (n_bench s)] else [])"

text \<open>
  \<open>starts\<close> are the sums of consecutive blocks of \<open>stamps\<close>, none of them empty, and what is left sums up to \<open>n\<close>.
\<close>

definition block_sums :: "u64 list \<Rightarrow> u64 list \<Rightarrow> nat \<Rightarrow> bool" where
  "block_sums stamps starts n \<longleftrightarrow>
     (\<exists>blocks rest. map unat stamps = concat blocks @ rest \<and> map unat starts = map sum_list blocks \<and>
        [] \<notin> set blocks \<and> n = sum_list rest)"

definition uni_inv :: "uni_state \<Rightarrow> bool" where
  "uni_inv s \<longleftrightarrow> n_counter s \<le> EVENTFD_MAX \<and> block_sums (n_sent s) (taken s) (n_counter s)"

lemma block_sums_write:
  assumes "block_sums stamps starts n"
  shows "block_sums (stamps @ [t]) starts (n + unat t)"
proof -
  from assms obtain blocks rest where "map unat stamps = concat blocks @ rest" "map unat starts = map sum_list blocks"
    "[] \<notin> set blocks" "n = sum_list rest" by (auto simp: block_sums_def)
  then show ?thesis unfolding block_sums_def by (intro exI [of _ blocks] exI [of _ "rest @ [unat t]"]) simp
qed

lemma block_sums_read:
  assumes "block_sums stamps starts n" and "n \<noteq> 0" and "n \<le> EVENTFD_MAX"
  shows "block_sums stamps (starts @ [of_nat n]) 0"
proof -
  from assms(1) obtain blocks rest where b: "map unat stamps = concat blocks @ rest" "map unat starts = map sum_list blocks"
    "[] \<notin> set blocks" "n = sum_list rest" by (auto simp: block_sums_def)
  have "unat (of_nat n :: u64) = n" using assms(3) by (intro unat_of_nat_u64) (simp add: EVENTFD_MAX_def)
  then have "map unat stamps = concat (blocks @ [rest]) @ []" "map unat (starts @ [of_nat n]) = map sum_list (blocks @ [rest])"
    "[] \<notin> set (blocks @ [rest])" using b assms(2) by auto
  then show ?thesis unfolding block_sums_def by (metis sum_list.Nil)
qed

lemma uni_inv_step: "uni_inv s \<Longrightarrow> uni_step s t \<Longrightarrow> uni_inv t"
  by (erule uni_step.cases) (auto simp: uni_inv_def taken_def dest: block_sums_write block_sums_read)

lemma uni_inv_init: "uni_init s \<Longrightarrow> uni_inv s"
  by (simp add: uni_init_def uni_inv_def taken_def block_sums_def)

interpretation one_way_counter: invariant_system uni_init uni_step uni_inv
  by unfold_locales (blast intro: uni_inv_init uni_inv_step)+

end
