(* ===== verification/Eventfd_Runs.thy ===== *)
theory Eventfd_Runs
  imports Eventfd Trace_Logic
begin

text \<open>
  The loops of the two processes of \<^verbatim>\<open>source/eventfd/eventfd-bi.c\<close>, run side by side on one eventfd
  counter, simulate the step relation of the two-way benchmark; then the same for \<^verbatim>\<open>eventfd-uni.c\<close>.
\<close>

section \<open>The two sides\<close>

text \<open>The control point (\<open>None\<close> after a failed call), the rounds left and, at the server, the statistics.\<close>

type_synonym bi_client_side = "bi_client_pc option \<times> nat"
type_synonym bi_server_side = "bi_server_pc option \<times> nat \<times> Benchmarks"

fun bi_client_auto :: "int \<Rightarrow> bi_client_side \<Rightarrow> event \<Rightarrow> bi_client_side option" where
  "bi_client_auto fd (Some E_head, l) (c, r) =
     (if 0 < l \<and> c = File (Write fd (bytes_of_u64 SERVER_TOKEN)) then Some (if ret r = -1 then None else Some E_read, l) else None)"
| "bi_client_auto fd (Some E_read, l) (c, r) =
     (if c = File (Read fd 8)
      then Some (if ret r = -1 then (None, l) else if u64_of_bytes (dat r) = CLIENT_TOKEN then (Some E_head, l - 1)
        else (Some (E_back (unat (u64_of_bytes (dat r)))), l))
      else None)"
| "bi_client_auto fd (Some (E_back v), l) (c, r) =
     (if c = File (Write fd (bytes_of_u64 (of_nat v))) then Some (if ret r = -1 then None else Some E_read, l) else None)"
| "bi_client_auto fd (Some E_done, l) e = None"
| "bi_client_auto fd (None, l) e = None"

fun bi_server_auto :: "int \<Rightarrow> bi_server_side \<Rightarrow> event \<Rightarrow> bi_server_side option" where
  "bi_server_auto fd (Some V_head, l, b) (c, r) =
     (if 0 < l \<and> c = Misc Timespec_get
      then Some (Some V_read, l, b\<lparr>b_single_start := now_value (nums r ! 0) (nums r ! 1)\<rparr>) else None)"
| "bi_server_auto fd (Some V_read, l, b) (c, r) =
     (if c = File (Read fd 8)
      then Some (if ret r = -1 then (None, l, b) else if u64_of_bytes (dat r) = SERVER_TOKEN then (Some V_notify, l, b)
        else (Some (V_back (unat (u64_of_bytes (dat r)))), l, b))
      else None)"
| "bi_server_auto fd (Some (V_back v), l, b) (c, r) =
     (if c = File (Write fd (bytes_of_u64 (of_nat v))) then Some (if ret r = -1 then None else Some V_read, l, b) else None)"
| "bi_server_auto fd (Some V_notify, l, b) (c, r) =
     (if c = File (Write fd (bytes_of_u64 CLIENT_TOKEN)) then Some (if ret r = -1 then None else Some V_bench, l, b) else None)"
| "bi_server_auto fd (Some V_bench, l, b) (c, r) =
     (if c = Misc Timespec_get
      then Some (Some V_head, l - 1, benchmark_at b (now_value (nums r ! 0) (nums r ! 1))) else None)"
| "bi_server_auto fd (Some V_done, l, b) e = None"
| "bi_server_auto fd (None, l, b) e = None"

section \<open>The counter\<close>

definition eventfd_obj :: "int \<Rightarrow> nat \<Rightarrow> event \<Rightarrow> nat option" where
  "eventfd_obj fd n = (\<lambda>(c, r). case c of
     File (Read fd' k) \<Rightarrow>
       if fd' \<noteq> fd then Some n
       else if n \<noteq> 0 \<and> ret r = 8 \<and> dat r = bytes_of_u64 (of_nat n) then Some 0 else None
   | File (Write fd' bs) \<Rightarrow>
       if fd' \<noteq> fd then Some n
       else if n + unat (u64_of_bytes bs) \<le> EVENTFD_MAX \<and> ret r = 8 then Some (n + unat (u64_of_bytes bs)) else None
   | _ \<Rightarrow> Some n)"

definition bi_rep :: "nat \<Rightarrow> bi_client_side \<Rightarrow> bi_server_side \<Rightarrow> bi_state \<Rightarrow> bool" where
  "bi_rep n p k s \<longleftrightarrow> n = e_counter s \<and> p = (Some (e_cpc s), e_cleft s) \<and> k = (Some (e_spc s), e_sleft s, e_bench s)"

text \<open>A value that was read from the counter is a token.\<close>

lemma counter_small:
  assumes "bi_inv n s"
  shows "e_counter s \<le> 2" and "e_cpc s = E_back v \<Longrightarrow> v = 1" and "e_spc s = V_back v \<Longrightarrow> v = 2"
  using assms by (auto simp: bi_defs split: bi_client_pc.splits)

lemma token_unat: "n \<le> 2 \<Longrightarrow> unat (of_nat n :: u64) = n"
  by (rule unat_of_nat_u64) simp

lemma token_eq: "n \<le> 2 \<Longrightarrow> (of_nat n :: u64) = t \<longleftrightarrow> n = unat t"
  using token_unat by auto

lemma bi_client_sim:
  assumes inv: "bi_inv N s" and rep: "bi_rep n p k s" and auto: "bi_client_auto fd p e = Some p'"
    and obj: "eventfd_obj fd n e = Some n'"
  shows "\<exists>s'. bi_step\<^sup>*\<^sup>* s s' \<and> bi_rep n' p' k s'"
proof -
  obtain c r where [simp]: "e = (c, r)" by (cases e)
  have p: "p = (Some (e_cpc s), e_cleft s)" and k: "k = (Some (e_spc s), e_sleft s, e_bench s)" and n: "n = e_counter s"
    using rep by (auto simp: bi_rep_def)
  note small = counter_small [OF inv]
  show ?thesis
  proof (cases "e_cpc s")
    case E_head
    then show ?thesis using auto obj p k n bc_notify [of s]
      by (intro exI [of _ "s\<lparr>e_cpc := E_read, e_counter := e_counter s + server_token\<rparr>"])
        (auto simp: bi_rep_def eventfd_obj_def split: if_splits)
  next
    case E_read
    then show ?thesis using auto obj p k n bc_hit [of s] bc_miss [of s] small(1)
      by (intro exI [of _ "if e_counter s = client_token then s\<lparr>e_cpc := E_head, e_counter := 0, e_cleft := e_cleft s - 1\<rparr>
          else s\<lparr>e_cpc := E_back (e_counter s), e_counter := 0\<rparr>"])
        (auto simp: bi_rep_def eventfd_obj_def token_eq token_unat split: if_splits)
  next
    case (E_back v)
    then show ?thesis using auto obj p k n bc_back [of s v] small(2) [OF E_back]
      by (intro exI [of _ "s\<lparr>e_cpc := E_read, e_counter := e_counter s + v\<rparr>"])
        (auto simp: bi_rep_def eventfd_obj_def token_unat split: if_splits)
  qed (use auto p in simp)
qed

lemma bi_server_sim:
  assumes inv: "bi_inv N s" and rep: "bi_rep n p k s" and auto: "bi_server_auto fd k e = Some k'"
    and obj: "eventfd_obj fd n e = Some n'"
  shows "\<exists>s'. bi_step\<^sup>*\<^sup>* s s' \<and> bi_rep n' p k' s'"
proof -
  obtain c r where [simp]: "e = (c, r)" by (cases e)
  have p: "p = (Some (e_cpc s), e_cleft s)" and k: "k = (Some (e_spc s), e_sleft s, e_bench s)" and n: "n = e_counter s"
    using rep by (auto simp: bi_rep_def)
  note small = counter_small [OF inv]
  let ?t = "now_value (nums r ! 0) (nums r ! 1)"
  show ?thesis
  proof (cases "e_spc s")
    case V_head
    then show ?thesis using auto obj p k n bs_start [of s ?t]
      by (intro exI [of _ "s\<lparr>e_spc := V_read, e_bench := (e_bench s)\<lparr>b_single_start := ?t\<rparr>\<rparr>"])
        (auto simp: bi_rep_def eventfd_obj_def split: if_splits)
  next
    case V_read
    then show ?thesis using auto obj p k n bs_hit [of s] bs_miss [of s] small(1)
      by (intro exI [of _ "if e_counter s = server_token then s\<lparr>e_spc := V_notify, e_counter := 0\<rparr>
          else s\<lparr>e_spc := V_back (e_counter s), e_counter := 0\<rparr>"])
        (auto simp: bi_rep_def eventfd_obj_def token_eq token_unat split: if_splits)
  next
    case (V_back v)
    then show ?thesis using auto obj p k n bs_back [of s v] small(3) [OF V_back]
      by (intro exI [of _ "s\<lparr>e_spc := V_read, e_counter := e_counter s + v\<rparr>"])
        (auto simp: bi_rep_def eventfd_obj_def token_unat split: if_splits)
  next
    case V_notify
    then show ?thesis using auto obj p k n bs_notify [of s]
      by (intro exI [of _ "s\<lparr>e_spc := V_bench, e_counter := e_counter s + client_token\<rparr>"])
        (auto simp: bi_rep_def eventfd_obj_def split: if_splits)
  next
    case V_bench
    then show ?thesis using auto obj p k n bs_bench [of s ?t]
      by (intro exI [of _ "s\<lparr>e_spc := V_head, e_sleft := e_sleft s - 1, e_bench := benchmark_at (e_bench s) ?t\<rparr>"])
        (auto simp: bi_rep_def eventfd_obj_def split: if_splits)
  qed (use auto k in simp)
qed

interpretation bi_programs: program_pair "bi_init n" bi_step "bi_inv n" "bi_client_auto fd" "bi_server_auto fd"
    "eventfd_obj fd" "eventfd_obj fd" bi_rep for n fd
  by unfold_locales (fact bi_client_sim bi_server_sim)+

section \<open>The programs follow the two sides\<close>

lemma follows_eventfd_wait:
  assumes "\<And>r. A pr (File (Read fd 8), r) =
      Some (if ret r = -1 then pf else if u64_of_bytes (dat r) = wanted then ph else pb (u64_of_bytes (dat r)))"
    and "\<And>v r. A (pb v) (File (Write fd (bytes_of_u64 v)), r) = Some (if ret r = -1 then pf else pr)"
    and "Q (Inl Running) pr" and "\<And>m. Q (Inl (Thrown m)) pf" and "follows A ph (k ()) Q"
  shows "follows A pr (bind_c (eventfd_wait n fd wanted) k) Q"
proof (induction n)
  case 0
  then show ?case using assms(3) by (simp add: follows_halt)
next
  case (Suc n)
  then show ?case using assms
    by (auto simp: Let_def prog_norm intro!: follows_call follows_halt split: if_splits)
qed

definition bi_client_halt :: "halt \<Rightarrow> bi_client_side \<Rightarrow> bool" where
  "bi_client_halt h p \<longleftrightarrow> h = Running \<or> fst p = None"

definition bi_server_halt :: "halt \<Rightarrow> bi_server_side \<Rightarrow> bool" where
  "bi_server_halt h k \<longleftrightarrow> h = Running \<or> fst k = None"

lemma bi_client_follows:
  "follows (bi_client_auto fd) (Some E_head, l) (bi_client_rounds n fd l)
     (outcome bi_client_halt (\<lambda>_ p. p = (Some E_head, 0)))"
proof (induction l)
  case 0
  then show ?case by (simp add: follows_return)
next
  case (Suc l)
  have "follows (bi_client_auto fd) (Some E_read, Suc l)
      (bind_c (eventfd_wait n fd CLIENT_TOKEN) (\<lambda>_. bi_client_rounds n fd l)) (outcome bi_client_halt (\<lambda>_ p. p = (Some E_head, 0)))"
    by (rule follows_eventfd_wait [where pf = "(None, Suc l)" and ph = "(Some E_head, l)"
          and pb = "\<lambda>v. (Some (E_back (unat v)), Suc l)"])
      (use Suc in \<open>auto simp: bi_client_halt_def\<close>)
  then show ?case
    by (auto simp: eventfd_notify_def prog_norm bi_client_halt_def intro!: follows_call follows_halt split: if_splits)
qed

lemma bi_server_follows:
  "follows (bi_server_auto fd) (Some V_head, l, b) (bi_server_rounds n fd l b)
     (outcome bi_server_halt (\<lambda>b' k. k = (Some V_head, 0, b')))"
proof (induction l arbitrary: b)
  case 0
  then show ?case by (simp add: follows_return)
next
  case (Suc l)
  have "follows (bi_server_auto fd) (Some V_read, Suc l, b') (bind_c (eventfd_wait n fd SERVER_TOKEN) (\<lambda>_.
      bind_c (eventfd_notify fd CLIENT_TOKEN) (\<lambda>_. bind_c (benchmark b') (bi_server_rounds n fd l))))
      (outcome bi_server_halt (\<lambda>b' k. k = (Some V_head, 0, b')))" for b'
    by (rule follows_eventfd_wait [where pf = "(None, Suc l, b')" and ph = "(Some V_notify, Suc l, b')"
          and pb = "\<lambda>v. (Some (V_back (unat v)), Suc l, b')"])
      (use Suc in \<open>auto simp: eventfd_notify_def prog_norm bi_server_halt_def intro!: follows_call follows_halt split: if_splits\<close>)
  then show ?case by (auto simp: prog_norm intro!: follows_call split: if_splits)
qed

section \<open>What the programs measure\<close>

text \<open>The server's clock readings in pairs: before it waits and after it has answered.\<close>

fun pair_up :: "'a list \<Rightarrow> ('a \<times> 'a) list" where
  "pair_up (x # y # zs) = (x, y) # pair_up zs"
| "pair_up zs = []"

lemma pair_up_append: "even (length xs) \<Longrightarrow> pair_up (xs @ ys) = pair_up xs @ pair_up ys"
  by (induction xs rule: pair_up.induct) auto

definition bi_measured :: "Benchmarks \<Rightarrow> bi_server_side \<Rightarrow> event list \<Rightarrow> bool" where
  "bi_measured b0 = (\<lambda>(pc, l, b) es. let ts = concat (map reading es) in
     if pc = Some V_head then even (length ts) \<and> b = measure_all b0 (pair_up ts)
     else \<exists>us t. ts = us @ [t] \<and> even (length us) \<and> b = (measure_all b0 (pair_up us))\<lparr>b_single_start := t\<rparr>)"

lemma bi_server_measured:
  assumes "path (bi_server_auto fd) (Some V_head, l, b0) es = Some k"
  shows "bi_measured b0 k es"
  using assms
proof (rule path_inv [where I = "bi_measured b0", rotated])
  fix k es e k' assume "bi_measured b0 k es" and "bi_server_auto fd k e = Some k'"
  then show "bi_measured b0 k' (es @ [e])"
    by (cases "(fd, k, e)" rule: bi_server_auto.cases)
      (auto simp: bi_measured_def Let_def pair_up_append split: if_splits)
qed (simp add: bi_measured_def)

text \<open>
  C9: Client and server programs on one eventfd.  Take any run of the client's loop and any run of the
  server's loop, both over \<open>n\<close> rounds, whose calls are in some interleaving answered by one counter.  Then
  neither program fails, and the counter never holds more than one token.  If both loops end, the counter
  is back at zero and the server has counted exactly \<open>n\<close> messages, each measured between its own two
  readings of the clock, however often tokens were picked up by the wrong side and written back.
\<close>

theorem eventfd_bi_programs:
  assumes "b_count bench = 0" and "bi_client_rounds f fd n v = (rc, v')" and "bi_server_rounds f' fd n bench w = (rs, w')"
    and "joint (eventfd_obj fd) (eventfd_obj fd) 0 (events v v') (events w w') counter"
  shows "counter \<le> 2 \<and> (rc = Inl Running \<or> rc = Inr ()) \<and>
     (case rs of Inl h \<Rightarrow> h = Running
      | Inr b \<Rightarrow> b_count b = of_nat n \<and> b = measure_all bench (pair_up (concat (map reading (events w w')))) \<and>
          (rc = Inr () \<longrightarrow> counter = 0))"
proof -
  define s where "s = \<lparr>e_counter = 0, e_cpc = E_head, e_cleft = n, e_spc = V_head, e_sleft = n, e_bench = bench\<rparr>"
  have start: "bi_init n s" "bi_rep 0 (Some E_head, n) (Some V_head, n, bench) s"
    using assms(1) by (simp_all add: s_def bi_init_def bi_rep_def)
  from bi_programs.programs_reach [OF bi_client_follows assms(2) bi_server_follows assms(3,4) start(2,1)]
  obtain p k s' where path: "path (bi_server_auto fd) (Some V_head, n, bench) (events w w') = Some k"
    and inv: "bi_inv n s'" and rep: "bi_rep counter p k s'"
    and outcomes: "outcome bi_client_halt (\<lambda>_ p. p = (Some E_head, 0)) rc p"
      "outcome bi_server_halt (\<lambda>b' k. k = (Some V_head, 0, b')) rs k"
    by blast
  have "counter \<le> 2" using rep counter_small [OF inv] by (simp add: bi_rep_def)
  moreover have "rc = Inl Running \<or> rc = Inr ()"
    using outcomes(1) rep by (auto simp: bi_rep_def bi_client_halt_def split: sum.splits)
  moreover have "h = Running" if "rs = Inl h" for h
    using outcomes(2) rep that by (auto simp: bi_rep_def bi_server_halt_def)
  moreover have "b_count b = of_nat n \<and> b = measure_all bench (pair_up (concat (map reading (events w w')))) \<and>
      (rc = Inr () \<longrightarrow> counter = 0)" if "rs = Inr b" for b
    using outcomes rep that inv bi_server_measured [OF path]
    by (auto simp: bi_rep_def bi_defs bi_measured_def Let_def split: bi_client_pc.splits)
  ultimately show ?thesis by (auto split: sum.splits)
qed

text \<open>One message, with the client picking up its own token once.\<close>

definition sample_bi_client :: world where
  "sample_bi_client = \<lparr>w_os = (\<lambda>calls c. case c of
       File (Read _ _) \<Rightarrow>
         \<lparr>ret = 8, err = 0, dat = bytes_of_u64 (if length calls = 1 then 1 else 2), nums = [], addrs = []\<rparr>
     | _ \<Rightarrow> ok_reply 8), w_calls = [], w_errno = 0\<rparr>"

definition sample_bi_server :: world where
  "sample_bi_server = \<lparr>w_os = (\<lambda>calls c. case c of
       File (Read _ _) \<Rightarrow> \<lparr>ret = 8, err = 0, dat = bytes_of_u64 1, nums = [], addrs = []\<rparr>
     | Misc Timespec_get \<Rightarrow> \<lparr>ret = 1, err = 0, dat = [], nums = [3, int (length calls)], addrs = []\<rparr>
     | _ \<Rightarrow> ok_reply 8), w_calls = [], w_errno = 0\<rparr>"

lemma sample_bi_client_run:
  "bi_client_rounds 2 5 1 sample_bi_client =
     (Inr (), sample_bi_client\<lparr>w_calls := [File (Write 5 (bytes_of_u64 1)), File (Read 5 8), File (Write 5 (bytes_of_u64 1)),
       File (Read 5 8)]\<rparr>)"
  by (simp add: sample_bi_client_def eventfd_notify_def run_simps SERVER_TOKEN_def CLIENT_TOKEN_def Let_def)

lemma sample_bi_server_run:
  "bi_server_rounds 1 5 1 sample_bench sample_bi_server =
     (Inr (benchmark_at (sample_bench\<lparr>b_single_start := now_value 3 0\<rparr>) (now_value 3 3)),
      sample_bi_server\<lparr>w_calls := [Misc Timespec_get, File (Read 5 8), File (Write 5 (bytes_of_u64 2)), Misc Timespec_get]\<rparr>)"
  by (simp add: sample_bi_server_def eventfd_notify_def run_simps SERVER_TOKEN_def CLIENT_TOKEN_def Let_def)

lemma sample_bi_joint:
  "joint (eventfd_obj 5) (eventfd_obj 5) 0
     (events sample_bi_client (sample_bi_client\<lparr>w_calls := [File (Write 5 (bytes_of_u64 1)), File (Read 5 8),
       File (Write 5 (bytes_of_u64 1)), File (Read 5 8)]\<rparr>))
     (events sample_bi_server (sample_bi_server\<lparr>w_calls := [Misc Timespec_get, File (Read 5 8), File (Write 5 (bytes_of_u64 2)),
       Misc Timespec_get]\<rparr>)) 0"
  by (rule play_joint [where sched = "[False, True, True, True, False, False, True, False]"])
    (simp add: events_def sample_bi_client_def sample_bi_server_def eventfd_obj_def EVENTFD_MAX_def)

theorem eventfd_bi_programs_witness:
  "case fst (bi_server_rounds 1 5 1 sample_bench sample_bi_server) of
     Inl _ \<Rightarrow> False | Inr b \<Rightarrow> b_count b = 1 \<and> b = measure_all sample_bench [(now_value 3 0, now_value 3 3)]"
  using eventfd_bi_programs [OF _ sample_bi_client_run sample_bi_server_run sample_bi_joint]
  unfolding sample_bi_server_run by (simp add: events_def sample_bi_server_def sample_bench_def)

section \<open>The one-way benchmark\<close>

text \<open>After a failed call (\<open>None\<close>) everything is possible; the counter never lets one fail.\<close>

type_synonym uni_server_side = "uns_pc option \<times> u64 list"
type_synonym uni_client_side = "unc_pc option client"

fun uni_server_auto :: "int \<Rightarrow> uni_server_side \<Rightarrow> event \<Rightarrow> uni_server_side option" where
  "uni_server_auto fd (Some N_clock, sent) (c, r) =
     (case c of
        Misc Timespec_get \<Rightarrow> Some (Some (N_write (now_value (nums r ! 0) (nums r ! 1))), sent)
      | Misc (Printf _) \<Rightarrow> Some (Some N_clock, sent)
      | _ \<Rightarrow> None)"
| "uni_server_auto fd (Some (N_write t), sent) (c, r) =
     (if c = File (Write fd (bytes_of_u64 t)) then Some (if ret r = -1 then (None, sent) else (Some N_clock, sent @ [t])) else None)"
| "uni_server_auto fd (None, sent) e = Some (None, sent)"

fun uni_client_auto :: "int \<Rightarrow> uni_client_side \<Rightarrow> event \<Rightarrow> uni_client_side option" where
  "uni_client_auto fd (Some R_head, b, ms) (c, r) =
     (if c = Misc Gettimeofday then Some (Some R_head, b, ms)
      else if c = File (Read fd 8)
      then Some (if ret r = -1 then (None, b, ms) else (Some R_measure, b\<lparr>b_single_start := u64_of_bytes (dat r)\<rparr>, ms))
      else None)"
| "uni_client_auto fd (Some R_measure, b, ms) (c, r) =
     (case c of
        Misc (Printf _) \<Rightarrow> Some (Some R_measure, b, ms)
      | Misc Timespec_get \<Rightarrow>
          Some (Some R_head, benchmark_at b (now_value (nums r ! 0) (nums r ! 1)),
            ms @ [(b_single_start b, now_value (nums r ! 0) (nums r ! 1))])
      | _ \<Rightarrow> None)"
| "uni_client_auto fd (Some R_done, b, ms) e = None"
| "uni_client_auto fd (None, b, ms) e = Some (None, b, ms)"

definition uni_rep :: "nat \<Rightarrow> uni_client_side \<Rightarrow> uni_server_side \<Rightarrow> uni_state \<Rightarrow> bool" where
  "uni_rep n = (\<lambda>(cpc, b, ms) p s. n = n_counter s \<and> cpc = Some (n_cpc s) \<and> b = n_bench s \<and> map fst ms = n_got s \<and>
     p = (Some (n_spc s), n_sent s))"

lemma uni_client_sim:
  assumes "uni_rep n k p s" and "uni_client_auto fd k e = Some k'" and "eventfd_obj fd n e = Some n'"
  shows "\<exists>s'. uni_step\<^sup>*\<^sup>* s s' \<and> uni_rep n' k' p s'"
proof -
  obtain cpc b ms c r where [simp]: "k = (cpc, b, ms)" "e = (c, r)" by (cases k; cases e)
  note facts = assms uni_rep_def eventfd_obj_def
  let ?t = "now_value (nums r ! 0) (nums r ! 1)"
  show ?thesis
  proof (cases "n_cpc s")
    case R_head
    then show ?thesis using facts uc_read [of s]
      by (intro exI [of _ "if c = Misc Gettimeofday then s else s\<lparr>n_cpc := R_measure, n_counter := 0,
            n_bench := (n_bench s)\<lparr>b_single_start := of_nat (n_counter s)\<rparr>\<rparr>"]) (auto split: if_splits)
  next
    case R_measure
    then show ?thesis using facts uc_measure [of s ?t]
      by (intro exI [of _ "if c = Misc Timespec_get then s\<lparr>n_cpc := R_head, n_bench := benchmark_at (n_bench s) ?t,
            n_got := n_got s @ [b_single_start (n_bench s)]\<rparr> else s"]) (auto split: call.splits misc_call.splits)
  qed (use facts in auto)
qed

lemma uni_server_sim:
  assumes "uni_rep n k p s" and "uni_server_auto fd p e = Some p'" and "eventfd_obj fd n e = Some n'"
  shows "\<exists>s'. uni_step\<^sup>*\<^sup>* s s' \<and> uni_rep n' k p' s'"
proof -
  obtain cpc b ms c r where [simp]: "k = (cpc, b, ms)" "e = (c, r)" by (cases k; cases e)
  note facts = assms uni_rep_def eventfd_obj_def
  let ?t = "now_value (nums r ! 0) (nums r ! 1)"
  show ?thesis
  proof (cases "n_spc s")
    case N_clock
    then show ?thesis using facts us_now [of s ?t]
      by (intro exI [of _ "if c = Misc Timespec_get then s\<lparr>n_spc := N_write ?t\<rparr> else s"])
        (auto split: call.splits misc_call.splits)
  next
    case (N_write t)
    then show ?thesis using facts us_write [of s t]
      by (intro exI [of _ "s\<lparr>n_spc := N_clock, n_counter := n_counter s + unat t, n_sent := n_sent s @ [t]\<rparr>"])
        (auto split: if_splits)
  qed
qed

interpretation uni_programs: program_pair uni_init uni_step uni_inv "uni_client_auto fd" "uni_server_auto fd"
    "eventfd_obj fd" "eventfd_obj fd" uni_rep for fd
  by unfold_locales (blast intro: uni_client_sim uni_server_sim)+

definition uni_server_halt :: "halt \<Rightarrow> uni_server_side \<Rightarrow> bool" where
  "uni_server_halt h p \<longleftrightarrow> h = Running \<or> fst p = None"

definition uni_client_halt :: "halt \<Rightarrow> uni_client_side \<Rightarrow> bool" where
  "uni_client_halt h k \<longleftrightarrow> h = Running \<or> fst k = None"

lemma uni_server_follows:
  "follows (uni_server_auto fd) (Some N_clock, []) (uni_server_communicate n fd) (outcome uni_server_halt (\<lambda>_ _. False))"
  unfolding uni_server_communicate_def
  by (rule follows_forever [where I = "\<lambda>_ p. fst p = Some N_clock"])
    (auto simp: uni_server_halt_def prog_norm intro!: follows_intros split: if_splits)

lemma uni_client_follows:
  assumes "between (Some R_head) b cnt k"
  shows "follows (uni_client_auto fd) k (uni_client_round fd b)
     (outcome uni_client_halt (\<lambda>b'. between (Some R_head) b' (cnt + 1)))"
  using assms
  by (cases k) (auto simp: uni_client_round_def between_def uni_client_halt_def Let_def prog_norm
      intro!: follows_intros split: if_splits)

lemma uni_client_loop_follows:
  "follows (uni_client_auto fd) (Some R_head, b, []) (timed_run n (uni_client_round fd) b)
     (outcome uni_client_halt (\<lambda>x. between (Some R_head) (fst x) (snd x)))"
  by (rule follows_measuring_run [where bench_of = "\<lambda>b. b"])
    (use uni_client_follows in \<open>auto simp: uni_client_halt_def between_def\<close>)

fun eventfd_stamp :: "event \<Rightarrow> u64 list" where
  "eventfd_stamp (c, r) = (case c of File (Write fd bs) \<Rightarrow> [u64_of_bytes bs] | _ \<Rightarrow> [])"

fun eventfd_start :: "event \<Rightarrow> u64 list" where
  "eventfd_start (c, r) = (case c of File (Read fd n) \<Rightarrow> [u64_of_bytes (dat r)] | _ \<Rightarrow> [])"

text \<open>What the server has written is what its clock has shown, but for a reading about to be written.\<close>

definition uni_written :: "uni_server_side \<Rightarrow> event list \<Rightarrow> bool" where
  "uni_written p es \<longleftrightarrow> fst p = None \<or> concat (map eventfd_stamp es) = snd p \<and>
     concat (map reading es) = snd p @ (case fst p of Some (N_write t) \<Rightarrow> [t] | _ \<Rightarrow> [])"

lemma uni_server_sent:
  assumes "path (uni_server_auto fd) (Some N_clock, []) es = Some p"
  shows "uni_written p es"
  using assms
proof (rule path_inv [where I = uni_written, rotated])
  fix p es e p' assume "uni_written p es" and "uni_server_auto fd p e = Some p'"
  then show "uni_written p' (es @ [e])"
    by (cases "(fd, p, e)" rule: uni_server_auto.cases)
      (auto simp: uni_written_def split: if_splits call.splits misc_call.splits)
qed (simp add: uni_written_def)

lemma uni_client_measured:
  assumes "path (uni_client_auto fd) (Some R_head, b0, []) es = Some k"
  shows "fst k = None \<or> recorded (\<lambda>es. concat (map eventfd_start es)) (Some R_measure) b0 k es"
  using assms
proof (rule path_inv [where I = "\<lambda>k es. fst k = None \<or> recorded (\<lambda>es. concat (map eventfd_start es)) (Some R_measure) b0 k es", rotated])
  fix k es e k' assume "fst k = None \<or> recorded (\<lambda>es. concat (map eventfd_start es)) (Some R_measure) b0 k es"
    and "uni_client_auto fd k e = Some k'"
  then show "fst k' = None \<or> recorded (\<lambda>es. concat (map eventfd_start es)) (Some R_measure) b0 k' (es @ [e])"
    by (cases "(fd, k, e)" rule: uni_client_auto.cases)
      (auto simp: recorded_def split: if_splits call.splits misc_call.splits)
qed (simp add: recorded_def)

text \<open>
  C35: Client and server programs of the one-way eventfd benchmark.  Take any run of the server's loop and any
  run of the client's measuring loop whose calls are in some interleaving answered by one counter.  Neither
  program fails.  The server writes exactly what its clock showed, in order.  The start times the client takes
  are the sums of consecutive, non-empty blocks of these timestamps, cut at its reads, and the counter holds
  the sum of the rest: no timestamp is lost or counted twice, but a read gives the timestamp of one message
  only if exactly one was written since the read before.  A client that has left its loop has counted and
  measured each of these sums against its own next clock reading.
\<close>

theorem eventfd_uni_programs:
  assumes "timed_run f (uni_client_round fd) bench v = (rc, v')"
    and "uni_server_communicate f' fd w = ((rs, w') :: (halt + unit) \<times> world)"
    and "joint (eventfd_obj fd) (eventfd_obj fd) 0 (events v v') (events w w') counter"
  defines "stamps \<equiv> concat (map eventfd_stamp (events w w'))" and "starts \<equiv> concat (map eventfd_start (events v v'))"
  shows "rs = Inl Running \<and> (\<exists>rest. concat (map reading (events w w')) = stamps @ rest \<and> length rest \<le> 1) \<and>
     block_sums stamps starts counter \<and> counter \<le> EVENTFD_MAX \<and>
     (case rc of Inl h \<Rightarrow> h = Running
      | Inr (b, cnt) \<Rightarrow> b = measure_all bench (zip starts (concat (map reading (events v v')))) \<and>
          cnt = of_nat (length starts))"
proof -
  define s where "s = \<lparr>n_counter = 0, n_spc = N_clock, n_sent = [], n_cpc = R_head, n_bench = bench, n_got = []\<rparr>"
  have start: "uni_init s" "uni_rep 0 (Some R_head, bench, []) (Some N_clock, []) s"
    by (simp_all add: s_def uni_init_def uni_rep_def)
  from uni_programs.programs_reach [OF uni_client_loop_follows assms(1) uni_server_follows assms(2,3) start(2,1)]
  obtain k p s' where paths: "path (uni_client_auto fd) (Some R_head, bench, []) (events v v') = Some k"
      "path (uni_server_auto fd) (Some N_clock, []) (events w w') = Some p"
    and inv: "uni_inv s'" and rep: "uni_rep counter k p s'"
    and outcomes: "outcome uni_client_halt (\<lambda>x. between (Some R_head) (fst x) (snd x)) rc k"
      "outcome uni_server_halt (\<lambda>_ _. False) rs p"
    by blast
  obtain cpc b ms where k: "k = (cpc, b, ms)" by (cases k)
  have fine: "fst k \<noteq> None" "fst p \<noteq> None" and state: "counter = n_counter s'" "snd p = n_sent s'" "cpc = Some (n_cpc s')"
      "b = n_bench s'" "map fst ms = n_got s'"
    using rep by (auto simp: uni_rep_def k)
  have meas: "recorded (\<lambda>es. concat (map eventfd_start es)) (Some R_measure) bench k (events v v')"
    using uni_client_measured [OF paths(1)] fine by simp
  have "starts = taken s'" using meas state by (auto simp: recorded_def starts_def taken_def k)
  moreover have sent: "stamps = n_sent s'" "\<exists>rest. concat (map reading (events w w')) = stamps @ rest \<and> length rest \<le> 1"
    using uni_server_sent [OF paths(2)] fine state(2)
    by (auto simp: uni_written_def stamps_def split: option.splits uns_pc.splits)
  ultimately have "block_sums stamps starts counter \<and> counter \<le> EVENTFD_MAX" using inv state by (simp add: uni_inv_def)
  moreover have "rs = Inl Running" using outcomes(2) fine by (auto simp: uni_server_halt_def split: sum.splits)
  moreover have "h = Running" if "rc = Inl h" for h using outcomes(1) that fine by (simp add: uni_client_halt_def)
  moreover have "b = measure_all bench (zip starts (concat (map reading (events v v')))) \<and> cnt = of_nat (length starts)"
    if "rc = Inr (b, cnt)" for b cnt
    using outcomes(1) that recorded_between [OF meas, of "Some R_head"] unfolding starts_def by simp
  ultimately show ?thesis using sent by (auto split: sum.splits)
qed

text \<open>Two timestamps written before the client's first read: it takes their sum, some six seconds, for a time.\<close>

lemma sample_clock: "now_value 3 7 = 3000000007" "now_value 3 9 = 3000000009"
  using round_double_small_int [of 3] round_double_small_int [of 3000000000] round_double_small_int [of 7]
    round_double_small_int [of 9] round_double_small_int [of 3000000007] round_double_small_int [of 3000000009]
  by (simp_all add: now_value_def)

definition sample_uni_server :: world where
  "sample_uni_server = \<lparr>w_os = (\<lambda>calls c. case c of
       Misc Timespec_get \<Rightarrow> \<lparr>ret = 1, err = 0, dat = [], nums = [3, if calls = [] then 7 else 9], addrs = []\<rparr>
     | _ \<Rightarrow> ok_reply 8), w_calls = [], w_errno = 0\<rparr>"

definition sample_uni_client :: world where
  "sample_uni_client = \<lparr>w_os = (\<lambda>calls c. case c of
       File (Read _ _) \<Rightarrow> \<lparr>ret = 8, err = 0, dat = bytes_of_u64 6000000016, nums = [], addrs = []\<rparr>
     | Misc Timespec_get \<Rightarrow> \<lparr>ret = 1, err = 0, dat = [], nums = [4, 0], addrs = []\<rparr>
     | Misc Gettimeofday \<Rightarrow>
         \<lparr>ret = 0, err = 0, dat = [], nums = [3, if Misc Timespec_get \<in> set calls then 200000 else 0], addrs = []\<rparr>
     | _ \<Rightarrow> ok_reply 0), w_calls = [], w_errno = 0\<rparr>"

definition sample_uni_line :: "string \<Rightarrow> u64 \<Rightarrow> call" where
  "sample_uni_line who t = Misc (Printf (who @ dec_int (sint t) @ [CHR 0x0A]))"

lemma sample_uni_server_run:
  "uni_server_communicate 2 5 sample_uni_server =
     ((Inl Running, sample_uni_server\<lparr>w_calls := [Misc Timespec_get, File (Write 5 (bytes_of_u64 3000000007)),
       sample_uni_line ''server='' 3000000007, Misc Timespec_get, File (Write 5 (bytes_of_u64 3000000009)),
       sample_uni_line ''server='' 3000000009]\<rparr>) :: (halt + unit) \<times> world)"
  by (simp add: uni_server_communicate_def sample_uni_server_def sample_uni_line_def run_simps sample_clock)

lemma sample_uni_client_run:
  "timed_run 2 (uni_client_round 5) sample_bench sample_uni_client =
     (Inr (benchmark_at (sample_bench\<lparr>b_single_start := 6000000016\<rparr>) (now_value 4 0), 1),
      sample_uni_client\<lparr>w_calls := [Misc Gettimeofday, Misc Gettimeofday, File (Read 5 8),
        sample_uni_line ''client='' 6000000016, Misc Timespec_get, Misc Gettimeofday]\<rparr>)"
  by (simp add: uni_client_round_def sample_uni_client_def sample_uni_line_def run_simps Let_def)

lemma sample_uni_joint:
  "joint (eventfd_obj 5) (eventfd_obj 5) 0
     (events sample_uni_client (sample_uni_client\<lparr>w_calls := [Misc Gettimeofday, Misc Gettimeofday, File (Read 5 8),
        sample_uni_line ''client='' 6000000016, Misc Timespec_get, Misc Gettimeofday]\<rparr>))
     (events sample_uni_server (sample_uni_server\<lparr>w_calls := [Misc Timespec_get, File (Write 5 (bytes_of_u64 3000000007)),
       sample_uni_line ''server='' 3000000007, Misc Timespec_get, File (Write 5 (bytes_of_u64 3000000009)),
       sample_uni_line ''server='' 3000000009]\<rparr>)) 0"
  by (rule play_joint [where sched = "[False, False, False, False, False, False, True, True, True, True, True, True]"])
    (simp add: events_def sample_uni_client_def sample_uni_server_def sample_uni_line_def eventfd_obj_def EVENTFD_MAX_def)

theorem eventfd_uni_programs_witness:
  "block_sums [3000000007, 3000000009] [6000000016] 0 \<and>
   (case fst (timed_run 2 (uni_client_round 5) sample_bench sample_uni_client) of
      Inl _ \<Rightarrow> False | Inr (b, cnt) \<Rightarrow> b = measure_all sample_bench [(6000000016, now_value 4 0)] \<and> cnt = 1)"
  using eventfd_uni_programs [OF sample_uni_client_run sample_uni_server_run sample_uni_joint]
  unfolding sample_uni_client_run by (simp add: events_def sample_uni_client_def sample_uni_server_def sample_uni_line_def)

end
