(* ===== verification/Socket_Runs.thy ===== *)
theory Socket_Runs
  imports Stream_Sockets Trace_Logic
begin

text \<open>
  The loops of the socket programs of \<^verbatim>\<open>source/tcp\<close> and \<^verbatim>\<open>source/domain\<close> in blocking mode, run side by side
  on one connection: two streams of bytes from which a receiver gets any non-empty part of what is there
  and what it asked for, or the end of the stream, or an error.
\<close>

section \<open>The two sides\<close>

text \<open>
  A side stops after a receive that delivered less than it asked for, after a send that failed, and the
  UNIX-domain server (\<open>strict\<close>) also after a send that succeeded if messages are longer than the timestamp.
\<close>

datatype ts_pc = T_recv | T_now | T_send u64 | T_short | T_unsent | T_stopped | T_lost

datatype tc_pc = U_head | U_recv | U_measure | U_short | U_unsent

fun socket_server_auto :: "bool \<Rightarrow> int \<Rightarrow> int \<Rightarrow> ts_pc \<times> u64 list \<Rightarrow> event \<Rightarrow> (ts_pc \<times> u64 list) option" where
  "socket_server_auto strict fd sz (T_recv, sent) (c, r) =
     (if c = Sock (Recv fd sz) then Some (if ret r < sz then T_short else T_now, sent) else None)"
| "socket_server_auto strict fd sz (T_now, sent) (c, r) =
     (if c = Misc Timespec_get then Some (T_send (now_value (nums r ! 0) (nums r ! 1)), sent) else None)"
| "socket_server_auto strict fd sz (T_send t, sent) (c, r) =
     (if c = Sock (Send fd (bytes_of_u64 t))
      then Some (if ret r = 8 then (if strict \<and> 8 < sz then T_stopped else T_recv, sent @ [t])
        else if ret r = -1 then (T_unsent, sent) else (T_lost, sent))
      else None)"
| "socket_server_auto strict fd sz (T_short, sent) e = None"
| "socket_server_auto strict fd sz (T_unsent, sent) e = None"
| "socket_server_auto strict fd sz (T_stopped, sent) e = None"
| "socket_server_auto strict fd sz (T_lost, sent) e = Some (T_lost, sent)"

fun socket_client_auto :: "int \<Rightarrow> u8 list \<Rightarrow> tc_pc client \<Rightarrow> event \<Rightarrow> tc_pc client option" where
  "socket_client_auto fd msg (U_head, b, ms) (c, r) =
     (if c = Misc Gettimeofday then Some (U_head, b, ms)
      else if c = Sock (Send fd msg) then Some (if ret r = -1 then U_unsent else U_recv, b, ms) else None)"
| "socket_client_auto fd msg (U_recv, b, ms) (c, r) =
     (if c = Sock (Recv fd 8)
      then Some (if ret r < 8 then (U_short, b, ms) else (U_measure, b\<lparr>b_single_start := u64_of_bytes (payload r)\<rparr>, ms))
      else None)"
| "socket_client_auto fd msg (U_measure, b, ms) (c, r) =
     (if c = Misc Timespec_get
      then Some (U_head, benchmark_at b (now_value (nums r ! 0) (nums r ! 1)),
        ms @ [(b_single_start b, now_value (nums r ! 0) (nums r ! 1))])
      else None)"
| "socket_client_auto fd msg (U_short, b, ms) e = None"
| "socket_client_auto fd msg (U_unsent, b, ms) e = None"

section \<open>The connection\<close>

record connection =
  co_up :: "u8 list"
  co_down :: "u8 list"

text \<open>
  A receiver gets some of the bytes that are there, at least one, or nothing: 0 at the end of the stream, -1
  for an error.  A blocking sender hands over everything, or fails.
\<close>

definition received :: "u8 list \<Rightarrow> int \<Rightarrow> reply \<Rightarrow> bool" where
  "received stream n r \<longleftrightarrow> 0 < ret r \<and> ret r \<le> n \<and> ret r \<le> int (length stream) \<and> dat r = take (nat (ret r)) stream"

definition after_recv :: "u8 list \<Rightarrow> int \<Rightarrow> reply \<Rightarrow> u8 list option" where
  "after_recv stream n r =
     (if ret r = 0 \<or> ret r = -1 then Some stream
      else if received stream n r then Some (drop (nat (ret r)) stream) else None)"

definition after_send :: "u8 list \<Rightarrow> u8 list \<Rightarrow> reply \<Rightarrow> u8 list option" where
  "after_send stream bs r =
     (if ret r = -1 then Some stream else if ret r = int (length bs) then Some (stream @ bs) else None)"

definition server_conn :: "int \<Rightarrow> connection \<Rightarrow> event \<Rightarrow> connection option" where
  "server_conn fd co = (\<lambda>(c, r). case c of
     Sock (Recv fd' n) \<Rightarrow>
       if fd' \<noteq> fd then Some co else map_option (\<lambda>up. co\<lparr>co_up := up\<rparr>) (after_recv (co_up co) n r)
   | Sock (Send fd' bs) \<Rightarrow>
       if fd' \<noteq> fd then Some co else map_option (\<lambda>down. co\<lparr>co_down := down\<rparr>) (after_send (co_down co) bs r)
   | _ \<Rightarrow> Some co)"

definition client_conn :: "int \<Rightarrow> connection \<Rightarrow> event \<Rightarrow> connection option" where
  "client_conn fd co = (\<lambda>(c, r). case c of
     Sock (Recv fd' n) \<Rightarrow>
       if fd' \<noteq> fd then Some co else map_option (\<lambda>down. co\<lparr>co_down := down\<rparr>) (after_recv (co_down co) n r)
   | Sock (Send fd' bs) \<Rightarrow>
       if fd' \<noteq> fd then Some co else map_option (\<lambda>up. co\<lparr>co_up := up\<rparr>) (after_send (co_up co) bs r)
   | _ \<Rightarrow> Some co)"

section \<open>The invariant\<close>

type_synonym socket_state = "connection \<times> (ts_pc \<times> u64 list) \<times> tc_pc client"

inductive socket_step :: "bool \<Rightarrow> int \<Rightarrow> int \<Rightarrow> int \<Rightarrow> u8 list \<Rightarrow> socket_state \<Rightarrow> socket_state \<Rightarrow> bool"
  for strict :: bool and fd sz fd' :: int and msg :: "u8 list"
where
  socket_server: "socket_server_auto strict fd sz p e = Some p' \<Longrightarrow> server_conn fd co e = Some co' \<Longrightarrow>
     socket_step strict fd sz fd' msg (co, p, k) (co', p', k)"
| socket_client: "socket_client_auto fd' msg k e = Some k' \<Longrightarrow> client_conn fd' co e = Some co' \<Longrightarrow>
     socket_step strict fd sz fd' msg (co, p, k) (co', p, k')"

text \<open>
  Where the one message is.  The server is idle when it waits for a message that has not been sent, or has
  stopped; it owes an answer when a message is on its way to it or in its hands.
\<close>

definition stopped :: "ts_pc \<Rightarrow> bool" where
  "stopped p \<longleftrightarrow> p \<in> {T_short, T_unsent, T_stopped}"

definition server_idle :: "connection \<Rightarrow> ts_pc \<Rightarrow> bool" where
  "server_idle co p \<longleftrightarrow> stopped p \<or> p = T_recv \<and> co_up co = []"

definition server_owes :: "int \<Rightarrow> connection \<Rightarrow> ts_pc \<Rightarrow> bool" where
  "server_owes sz co p \<longleftrightarrow> stopped p \<or> p = T_recv \<and> int (length (co_up co)) = sz \<or>
     (p = T_now \<or> (\<exists>t. p = T_send t)) \<and> co_up co = []"

fun socket_inv :: "int \<Rightarrow> socket_state \<Rightarrow> bool" where
  "socket_inv sz (co, (spc, sent), (cpc, b, ms)) \<longleftrightarrow>
     (case cpc of
        U_head \<Rightarrow> server_idle co spc \<and> co_down co = [] \<and> sent = map fst ms
      | U_measure \<Rightarrow> server_idle co spc \<and> co_down co = [] \<and> sent = map fst ms @ [b_single_start b]
      | U_unsent \<Rightarrow> server_idle co spc \<and> sent = map fst ms
      | U_recv \<Rightarrow>
          co_down co = [] \<and> sent = map fst ms \<and> server_owes sz co spc \<or>
          (\<exists>t. co_down co = bytes_of_u64 t \<and> sent = map fst ms @ [t] \<and> server_idle co spc)
      | U_short \<Rightarrow>
          sent = map fst ms \<and> server_owes sz co spc \<or> (\<exists>t. sent = map fst ms @ [t] \<and> server_idle co spc))"

definition socket_init :: "socket_state \<Rightarrow> bool" where
  "socket_init s \<longleftrightarrow> (\<exists>b. s = (\<lparr>co_up = [], co_down = []\<rparr>, (T_recv, []), (U_head, b, [])))"

lemmas socket_defs = server_idle_def server_owes_def stopped_def

lemma after_recv_cases:
  assumes "after_recv stream n r = Some stream'" and "0 < n"
  obtains "ret r < n" | "ret r = n" "int (length stream) = n" "stream' = []" "payload r = stream" "stream \<noteq> []"
    | "int (length stream) \<noteq> n" "received stream n r"
  using assms by (auto simp: after_recv_def received_def payload_def split: if_splits; fastforce)

lemma server_keeps:
  assumes "socket_inv sz (co, p, k)" and "0 < sz" and "socket_server_auto strict fd sz p e = Some p'"
    and "server_conn fd co e = Some co'"
  shows "socket_inv sz (co', p', k)"
proof -
  obtain spc sent cpc b ms c r where [simp]: "p = (spc, sent)" "k = (cpc, b, ms)" "e = (c, r)"
    by (cases p; cases k; cases e)
  show ?thesis
  proof (cases spc)
    case T_recv
    then obtain up where up: "after_recv (co_up co) sz r = Some up" "co' = co\<lparr>co_up := up\<rparr>"
      "p' = (if ret r < sz then T_short else T_now, sent)"
      using assms(3,4) by (auto simp: server_conn_def split: if_splits)
    have place: "co_up co = [] \<or> int (length (co_up co)) = sz" using assms(1) T_recv by (auto simp: socket_defs split: tc_pc.splits)
    from after_recv_cases [OF up(1) assms(2)] show ?thesis
    proof cases
      case 1
      then show ?thesis using assms(1) up(2,3) by (auto simp: socket_defs split: tc_pc.splits)
    next
      case 2
      then show ?thesis using assms(1) T_recv up(2,3) by (auto simp: socket_defs split: tc_pc.splits)
    next
      case 3
      then show ?thesis using place by (auto simp: received_def)
    qed
  next
    case T_now
    then show ?thesis using assms by (auto simp: server_conn_def socket_defs split: if_splits tc_pc.splits)
  next
    case (T_send t)
    then show ?thesis using assms
      by (auto simp: server_conn_def after_send_def socket_defs split: if_splits tc_pc.splits)
  qed (use assms in \<open>auto simp: socket_defs split: tc_pc.splits\<close>)
qed

lemma client_keeps:
  assumes "socket_inv sz (co, p, k)" and "int (length msg) = sz" and "0 < sz"
    and "socket_client_auto fd msg k e = Some k'" and "client_conn fd co e = Some co'"
  shows "socket_inv sz (co', p, k')"
proof -
  obtain spc sent cpc b ms c r where [simp]: "p = (spc, sent)" "k = (cpc, b, ms)" "e = (c, r)"
    by (cases p; cases k; cases e)
  show ?thesis
  proof (cases cpc)
    case U_head
    then show ?thesis using assms by (auto simp: client_conn_def after_send_def socket_defs split: if_splits)
  next
    case U_recv
    then obtain down where down: "after_recv (co_down co) 8 r = Some down" "co' = co\<lparr>co_down := down\<rparr>"
      "k' = (if ret r < 8 then (U_short, b, ms) else (U_measure, b\<lparr>b_single_start := u64_of_bytes (payload r)\<rparr>, ms))"
      using assms(4,5) by (auto simp: client_conn_def split: if_splits)
    have place: "co_down co = [] \<or> int (length (co_down co)) = 8" using assms(1) U_recv by auto
    from down(1) have "0 < (8::int)" by simp
    from after_recv_cases [OF down(1) this] show ?thesis
    proof cases
      case 1
      then show ?thesis using assms(1) U_recv down(2,3) by (auto simp: socket_defs)
    next
      case 2
      then show ?thesis using assms(1) U_recv down(2,3) by (auto simp: socket_defs)
    next
      case 3
      then show ?thesis using place by (auto simp: received_def)
    qed
  next
    case U_measure
    then show ?thesis using assms by (auto simp: client_conn_def split: if_splits)
  qed (use assms in simp_all)
qed

interpretation socket_exchange: invariant_system socket_init "socket_step strict fd sz fd' msg"
    "\<lambda>s. 0 < sz \<and> int (length msg) = sz \<longrightarrow> socket_inv sz s" for strict fd sz fd' msg
proof unfold_locales
  show "0 < sz \<and> int (length msg) = sz \<longrightarrow> socket_inv sz s" if "socket_init s" for s
    using that by (auto simp: socket_init_def server_idle_def)
  show "0 < sz \<and> int (length msg) = sz \<longrightarrow> socket_inv sz t"
    if "0 < sz \<and> int (length msg) = sz \<longrightarrow> socket_inv sz s" and "socket_step strict fd sz fd' msg s t" for s t
    using that(2,1) by cases (auto intro: server_keeps client_keeps simp del: socket_inv.simps)
qed

interpretation socket_programs: program_pair socket_init "socket_step strict fd sz fd' msg"
    "\<lambda>s. 0 < sz \<and> int (length msg) = sz \<longrightarrow> socket_inv sz s"
    "socket_server_auto strict fd sz" "socket_client_auto fd' msg" "server_conn fd" "client_conn fd'"
    "\<lambda>co p k s. s = (co, p, k)" for strict fd sz fd' msg
  by unfold_locales (blast intro: socket_server socket_client)+

section \<open>The programs follow the two sides\<close>

definition socket_server_halt :: "halt \<Rightarrow> ts_pc \<times> u64 list \<Rightarrow> bool" where
  "socket_server_halt h p \<longleftrightarrow> h = Running \<or> fst p \<in> {T_short, T_unsent, T_lost} \<or>
     fst p = T_stopped \<and> h = Thrown ''Error sending on server-side''"

definition socket_client_halt :: "halt \<Rightarrow> tc_pc client \<Rightarrow> bool" where
  "socket_client_halt h k \<longleftrightarrow> h = Running \<or> fst k \<in> {U_short, U_unsent}"

text \<open>The server loops of the two benchmarks.\<close>

definition socket_server_round :: "bool \<Rightarrow> nat \<Rightarrow> int \<Rightarrow> Arguments \<Rightarrow> u8 list \<Rightarrow> u8 list prog" where
  "socket_server_round domain f fd args =
     (if domain then domain_server_round f fd args False else tcp_server_round f fd args False)"

lemma socket_server_follows:
  assumes "fst p = T_recv \<or> fst p = T_lost" and "0 < sint (a_size args)"
  shows "follows (socket_server_auto domain fd (sint (a_size args))) p (socket_server_round domain f fd args buffer)
     (outcome socket_server_halt (\<lambda>_ p. fst p = T_recv \<or> fst p = T_lost))"
  using assms
  by (cases p) (auto simp: socket_server_round_def tcp_server_round_def domain_server_round_def receive_def send_def
      socket_server_halt_def prog_norm intro!: follows_intros split: if_splits)

lemma socket_client_follows:
  assumes "client = tcp_client_round f fd buf args False \<or> client = domain_client_round f fd buf args False"
    and "between U_head b cnt k" and "0 \<le> sint (a_size args)"
  shows "follows (socket_client_auto fd (take (nat (sint (a_size args))) buf)) k (client b)
     (outcome socket_client_halt (\<lambda>b'. between U_head b' (cnt + 1)))"
  using assms
  by (cases k) (auto simp: tcp_client_round_def domain_client_round_def receive_start_def receive_def send_def recv_into_def
      overlay_def between_def socket_client_halt_def prog_norm intro!: follows_intros split: if_splits)

lemma socket_server_loop_follows:
  assumes "0 < sint (a_size args)"
  shows "follows (socket_server_auto domain fd (sint (a_size args))) (T_recv, [])
     (forever_c n (socket_server_round domain f fd args) buffer) (outcome socket_server_halt (\<lambda>_ _. False))"
  using socket_server_follows [OF _ assms]
  by (intro follows_forever [where I = "\<lambda>_ p. fst p = T_recv \<or> fst p = T_lost"]) (auto simp: socket_server_halt_def)

lemma socket_client_loop_follows:
  assumes "client = tcp_client_round f fd buf args False \<or> client = domain_client_round f fd buf args False"
    and "0 \<le> sint (a_size args)"
  shows "follows (socket_client_auto fd (take (nat (sint (a_size args))) buf)) (U_head, b, []) (timed_run n client b)
     (outcome socket_client_halt (\<lambda>x. between U_head (fst x) (snd x)))"
  by (rule follows_measuring_run [where bench_of = "\<lambda>b. b"])
    (use socket_client_follows [OF assms(1)] assms(2) in \<open>auto simp: socket_client_halt_def between_def\<close>)

section \<open>What the programs measure\<close>

text \<open>The timestamps handed over to the connection, and those received.\<close>

fun socket_stamp :: "event \<Rightarrow> u64 list" where
  "socket_stamp (c, r) = (case c of Sock (Send fd bs) \<Rightarrow> if ret r = -1 then [] else [u64_of_bytes bs] | _ \<Rightarrow> [])"

fun socket_start :: "event \<Rightarrow> u64 list" where
  "socket_start (c, r) = (case c of Sock (Recv fd n) \<Rightarrow> if ret r < 8 then [] else [u64_of_bytes (payload r)] | _ \<Rightarrow> [])"

text \<open>A receive that did not deliver all it was asked for (the end of the stream and errors included), and a failed send.\<close>

definition short_read :: "int \<Rightarrow> int \<Rightarrow> event list \<Rightarrow> bool" where
  "short_read fd n es \<longleftrightarrow> list_ex (\<lambda>(c, r). c = Sock (Recv fd n) \<and> ret r < n) es"

definition failed_send :: "int \<Rightarrow> event list \<Rightarrow> bool" where
  "failed_send fd es \<longleftrightarrow> list_ex (\<lambda>(c, r). (case c of Sock (Send fd' bs) \<Rightarrow> fd' = fd | _ \<Rightarrow> False) \<and> ret r = -1) es"

definition server_done :: "bool \<Rightarrow> int \<Rightarrow> int \<Rightarrow> ts_pc \<times> u64 list \<Rightarrow> event list \<Rightarrow> bool" where
  "server_done strict fd sz p es \<longleftrightarrow> fst p = T_lost \<or> snd p = concat (map socket_stamp es) \<and>
     (fst p = T_short \<longrightarrow> short_read fd sz es) \<and> (fst p = T_unsent \<longrightarrow> failed_send fd es) \<and>
     (fst p = T_stopped \<longrightarrow> strict \<and> 8 < sz \<and> length (snd p) = 1) \<and>
     (strict \<and> 8 < sz \<and> fst p \<noteq> T_stopped \<longrightarrow> snd p = [])"

lemma socket_server_sent:
  assumes "path (socket_server_auto strict fd sz) (T_recv, []) es = Some p"
  shows "server_done strict fd sz p es"
  using assms
proof (rule path_inv [where I = "server_done strict fd sz", rotated])
  fix p es e p' assume "server_done strict fd sz p es" and "socket_server_auto strict fd sz p e = Some p'"
  then show "server_done strict fd sz p' (es @ [e])"
    by (cases p; cases e; cases "fst p") (auto simp: server_done_def short_read_def failed_send_def split: if_splits)
qed (simp add: server_done_def)

lemma socket_client_measured:
  assumes "path (socket_client_auto fd msg) (U_head, b0, []) es = Some k"
  shows "recorded (\<lambda>es. concat (map socket_start es)) U_measure b0 k es \<and> (fst k = U_short \<longrightarrow> short_read fd 8 es) \<and>
     (fst k = U_unsent \<longrightarrow> failed_send fd es)"
  using assms
proof (rule path_inv [where I = "\<lambda>k es. recorded (\<lambda>es. concat (map socket_start es)) U_measure b0 k es \<and>
      (fst k = U_short \<longrightarrow> short_read fd 8 es) \<and> (fst k = U_unsent \<longrightarrow> failed_send fd es)", rotated])
  fix k es e k'
  assume "recorded (\<lambda>es. concat (map socket_start es)) U_measure b0 k es \<and> (fst k = U_short \<longrightarrow> short_read fd 8 es) \<and>
     (fst k = U_unsent \<longrightarrow> failed_send fd es)" and "socket_client_auto fd msg k e = Some k'"
  then show "recorded (\<lambda>es. concat (map socket_start es)) U_measure b0 k' (es @ [e]) \<and>
     (fst k' = U_short \<longrightarrow> short_read fd 8 (es @ [e])) \<and> (fst k' = U_unsent \<longrightarrow> failed_send fd (es @ [e]))"
    by (cases k; cases e; cases "fst k") (auto simp: recorded_def short_read_def failed_send_def split: if_splits)
qed (simp add: recorded_def)

text \<open>
  C7: Client and server programs on one connection.  Take any run of the server's loop and any run of the
  client's measuring loop in blocking mode, of the TCP or of the UNIX-domain benchmark and with any positive
  message size, on a connection that may deliver what was sent in any pieces, end or fail at any time.  The
  start times the client received are the timestamps the server sent, in order, with at most one under
  way; no piece of one is ever measured.  A client fails only if a receive delivered less than it asked for
  (the end of the stream and errors included) or a send failed, and a TCP server likewise.  The UNIX-domain
  server with messages of more than eight bytes also stops by itself, with an error, after its first
  timestamp, and never sends a second one.  A client that has left its loop has counted and measured every
  start time against its own next clock reading.
\<close>

theorem socket_programs_measure:
  fixes args :: Arguments and buf :: "u8 list"
  assumes "client = tcp_client_round f' fd' buf args False \<or> client = domain_client_round f' fd' buf args False"
    and "0 < sint (a_size args)" and "sint (a_size args) \<le> int (length buf)"
    and "forever_c n (socket_server_round domain f fd args) buffer w = ((r, w') :: (halt + unit) \<times> world)"
    and "timed_run k client bench v = (r', v')"
    and "joint (server_conn fd) (client_conn fd') \<lparr>co_up = [], co_down = []\<rparr> (events w w') (events v v') co"
  defines "stamps \<equiv> concat (map socket_stamp (events w w'))" and "starts \<equiv> concat (map socket_start (events v v'))"
  shows "(\<exists>h. r = Inl h \<and> (h = Running \<or> short_read fd (sint (a_size args)) (events w w') \<or> failed_send fd (events w w') \<or>
        domain \<and> 8 < sint (a_size args) \<and> h = Thrown ''Error sending on server-side'' \<and> length stamps = 1)) \<and>
     (domain \<and> 8 < sint (a_size args) \<longrightarrow> length stamps \<le> 1) \<and>
     (\<exists>rest. stamps = starts @ rest \<and> length rest \<le> 1) \<and>
     (case r' of Inl h \<Rightarrow> h = Running \<or> short_read fd' 8 (events v v') \<or> failed_send fd' (events v v')
      | Inr (b, cnt) \<Rightarrow> b = measure_all bench (zip starts (concat (map reading (events v v')))) \<and>
          cnt = of_nat (length starts))"
proof -
  define sz where "sz = sint (a_size args)"
  define msg where "msg = take (nat sz) buf"
  have msg: "0 < sz" "int (length msg) = sz" using assms(2,3) by (auto simp: sz_def msg_def)
  have start: "socket_init (\<lparr>co_up = [], co_down = []\<rparr>, (T_recv, []), (U_head, bench, []))" by (simp add: socket_init_def)
  from socket_programs.programs_reach [OF socket_server_loop_follows [OF assms(2)] assms(4)
      socket_client_loop_follows [OF assms(1) less_imp_le [OF assms(2)]] assms(5,6) refl start]
  obtain p k where paths: "path (socket_server_auto domain fd sz) (T_recv, []) (events w w') = Some p"
      "path (socket_client_auto fd' msg) (U_head, bench, []) (events v v') = Some k"
    and inv: "socket_inv sz (co, p, k)"
    and outcomes: "outcome socket_server_halt (\<lambda>_ _. False) r p"
      "outcome socket_client_halt (\<lambda>x. between U_head (fst x) (snd x)) r' k"
    using msg unfolding sz_def msg_def by auto
  have lost: "fst p \<noteq> T_lost" using inv by (cases p; cases k) (auto simp: socket_defs split: tc_pc.splits)
  have sent: "server_done domain fd sz p (events w w')" using socket_server_sent [OF paths(1)] .
  then have stamps: "snd p = stamps" using lost by (simp add: server_done_def stamps_def)
  note meas = socket_client_measured [OF paths(2)]
  have "\<exists>h. r = Inl h \<and> (h = Running \<or> short_read fd sz (events w w') \<or> failed_send fd (events w w') \<or>
        domain \<and> 8 < sz \<and> h = Thrown ''Error sending on server-side'' \<and> length stamps = 1)"
    using outcomes(1) lost sent stamps by (auto simp: socket_server_halt_def server_done_def split: sum.splits)
  moreover have "fst p = T_stopped \<longrightarrow> length (snd p) = 1" and "domain \<and> 8 < sz \<and> fst p \<noteq> T_stopped \<longrightarrow> snd p = []"
    using lost sent unfolding server_done_def by blast+
  then have "domain \<and> 8 < sz \<longrightarrow> length stamps \<le> 1" unfolding stamps by (cases "fst p = T_stopped") simp_all
  moreover have "\<exists>rest. stamps = starts @ rest \<and> length rest \<le> 1"
    using inv meas unfolding stamps [symmetric] starts_def
    by (cases p; cases k) (auto simp: recorded_def split: tc_pc.splits if_splits)
  moreover have "h = Running \<or> short_read fd' 8 (events v v') \<or> failed_send fd' (events v v')" if "r' = Inl h" for h
    using outcomes(2) that meas by (auto simp: socket_client_halt_def)
  moreover have "b = measure_all bench (zip starts (concat (map reading (events v v')))) \<and> cnt = of_nat (length starts)"
    if "r' = Inr (b, cnt)" for b cnt
    using outcomes(2) that recorded_between [OF conjunct1 [OF meas], of U_head] unfolding starts_def by simp
  ultimately show ?thesis unfolding sz_def by (auto split: sum.splits)
qed

text \<open>One message of four bytes: the two worlds, and the interleaving.\<close>

definition sample_tcp_server :: world where
  "sample_tcp_server = \<lparr>w_os = (\<lambda>_ c. case c of
       Sock (Recv _ _) \<Rightarrow> \<lparr>ret = 4, err = 0, dat = [1, 2, 3, 4], nums = [], addrs = []\<rparr>
     | Misc Timespec_get \<Rightarrow> \<lparr>ret = 1, err = 0, dat = [], nums = [3, 7], addrs = []\<rparr> | _ \<Rightarrow> ok_reply 8),
     w_calls = [], w_errno = 0\<rparr>"

definition sample_tcp_client :: world where
  "sample_tcp_client = \<lparr>w_os = (\<lambda>calls c. case c of
       Sock (Recv _ _) \<Rightarrow> \<lparr>ret = 8, err = 0, dat = bytes_of_u64 (now_value 3 7), nums = [], addrs = []\<rparr>
     | Misc Timespec_get \<Rightarrow> \<lparr>ret = 1, err = 0, dat = [], nums = [3, 9], addrs = []\<rparr>
     | Misc Gettimeofday \<Rightarrow>
         \<lparr>ret = 0, err = 0, dat = [], nums = [3, if Misc Timespec_get \<in> set calls then 200000 else 0], addrs = []\<rparr>
     | _ \<Rightarrow> ok_reply 4), w_calls = [], w_errno = 0\<rparr>"

abbreviation sample_tcp_args :: Arguments where "sample_tcp_args \<equiv> \<lparr>a_size = 4, a_count = 1\<rparr>"

lemma sample_tcp_server_run:
  "forever_c 1 (socket_server_round False 0 7 sample_tcp_args) [] sample_tcp_server =
     ((Inl Running, sample_tcp_server\<lparr>w_calls := [Sock (Recv 7 4), Misc Timespec_get,
       Sock (Send 7 (bytes_of_u64 (now_value 3 7)))]\<rparr>) :: (halt + unit) \<times> world)"
  by (simp add: socket_server_round_def tcp_server_round_def receive_def send_def sample_tcp_server_def run_simps)

lemma sample_tcp_client_run:
  "timed_run 2 (tcp_client_round 0 8 [1, 2, 3, 4] sample_tcp_args False) sample_bench sample_tcp_client =
     (Inr (benchmark_at (sample_bench\<lparr>b_single_start := now_value 3 7\<rparr>) (now_value 3 9), 1),
      sample_tcp_client\<lparr>w_calls := [Misc Gettimeofday, Misc Gettimeofday, Sock (Send 8 [1, 2, 3, 4]), Sock (Recv 8 8),
        Misc Timespec_get, Misc Gettimeofday]\<rparr>)"
  by (simp add: tcp_client_round_def receive_start_def receive_def send_def recv_into_def overlay_def sample_tcp_client_def
      run_simps)

lemma sample_tcp_joint:
  "joint (server_conn 7) (client_conn 8) \<lparr>co_up = [], co_down = []\<rparr>
     (events sample_tcp_server (sample_tcp_server\<lparr>w_calls := [Sock (Recv 7 4), Misc Timespec_get,
       Sock (Send 7 (bytes_of_u64 (now_value 3 7)))]\<rparr>))
     (events sample_tcp_client (sample_tcp_client\<lparr>w_calls := [Misc Gettimeofday, Misc Gettimeofday, Sock (Send 8 [1, 2, 3, 4]),
       Sock (Recv 8 8), Misc Timespec_get, Misc Gettimeofday]\<rparr>)) \<lparr>co_up = [], co_down = []\<rparr>"
  by (rule play_joint [where sched = "[False, False, False, True, True, True, False, False, False]"])
    (simp add: events_def sample_tcp_server_def sample_tcp_client_def server_conn_def client_conn_def received_def
      after_recv_def after_send_def)

theorem socket_programs_measure_witness:
  "case fst (timed_run 2 (tcp_client_round 0 8 [1, 2, 3, 4] sample_tcp_args False) sample_bench sample_tcp_client) of
     Inl _ \<Rightarrow> False | Inr (b, cnt) \<Rightarrow> b = measure_all sample_bench [(now_value 3 7, now_value 3 9)] \<and> cnt = 1"
  using socket_programs_measure [OF _ _ _ sample_tcp_server_run sample_tcp_client_run sample_tcp_joint]
  unfolding sample_tcp_client_run
  by (simp add: events_def sample_tcp_client_def sample_bench_def)

end
