(* ===== verification/Shared_Ring.thy ===== *)
theory Shared_Ring
  imports Uintr_Pro Guard_Handshake
begin

text \<open>
  The ring operations of \<^verbatim>\<open>source/common/kfifo.h\<close> as code on shared memory: every access to a field of
  the structure and to the data is an event of its own, in the order of the source, so that another
  process may intervene between any two.  On top of them the rest of \<^verbatim>\<open>source/uintr-pro\<close> as programs: the
  server's loop and main program, and the client's interrupt handler.
\<close>

section \<open>Fields\<close>

definition bytes_of_u32 :: "u32 \<Rightarrow> u8 list" where
  "bytes_of_u32 x = take 4 (bytes_of_u64 (ucast x))"

definition u32_of_bytes :: "u8 list \<Rightarrow> u32" where
  "u32_of_bytes bs = ucast (u64_of_bytes bs)"

lemma length_bytes_of_u32 [simp]: "length (bytes_of_u32 x) = 4"
  by (simp add: bytes_of_u32_def)

lemma u32_bytes_roundtrip [simp]: "u32_of_bytes (bytes_of_u32 x) = x"
proof (rule bit_word_eqI)
  fix n assume "n < LENGTH(32)"
  then have n: "n < 32" by simp
  then have "n div 8 < 4" and "n mod 8 < 8" by (simp_all add: div_less_iff_less_mult)
  then show "bit (u32_of_bytes (bytes_of_u32 x)) n = bit x n"
    using n by (simp add: u32_of_bytes_def bytes_of_u32_def bit_ucast_iff bit_u64_of_bytes bit_bytes_of_u64)
qed

lemma bytes_of_u32_inject [simp]: "bytes_of_u32 x = bytes_of_u32 y \<longleftrightarrow> x = y"
  using u32_bytes_roundtrip by metis

text \<open>
  A field is read and written by one access of its size, at its offset in the structure: \<open>in\<close> at 0, \<open>out\<close> at
  4, \<open>mask\<close> at 8, \<open>esize\<close> at 12 and \<open>data\<close> at 16.
\<close>

definition load_u32 :: "int \<Rightarrow> nat \<Rightarrow> u32 prog" where
  "load_u32 fifo off = bind_c (sys (Ipc (Shm_load fifo off 4))) (\<lambda>r. return_c (u32_of_bytes (take 4 (dat r))))"

definition load_ptr :: "int \<Rightarrow> nat \<Rightarrow> u64 prog" where
  "load_ptr fifo off = bind_c (sys (Ipc (Shm_load fifo off 8))) (\<lambda>r. return_c (u64_of_bytes (take 8 (dat r))))"

definition store_u32 :: "int \<Rightarrow> nat \<Rightarrow> u32 \<Rightarrow> unit prog" where
  "store_u32 fifo off v = sys_do (Ipc (Shm_store fifo off (bytes_of_u32 v)))"

definition store_ptr :: "int \<Rightarrow> nat \<Rightarrow> u64 \<Rightarrow> unit prog" where
  "store_ptr fifo off v = sys_do (Ipc (Shm_store fifo off (bytes_of_u64 v)))"

section \<open>The ring operations\<close>

definition shared_kfifo_len :: "int \<Rightarrow> u32 prog" where
  "shared_kfifo_len fifo =
     bind_c (load_u32 fifo 0) (\<lambda>i. bind_c (load_u32 fifo 4) (\<lambda>out. return_c (i - out)))"

definition shared_kfifo_unused :: "int \<Rightarrow> u32 prog" where
  "shared_kfifo_unused fifo =
     bind_c (load_u32 fifo 8) (\<lambda>msk. bind_c (load_u32 fifo 0) (\<lambda>i. bind_c (load_u32 fifo 4) (\<lambda>out.
     return_c ((msk + 1) - (i - out)))))"

definition shared_kfifo_init :: "int \<Rightarrow> u64 \<Rightarrow> u32 \<Rightarrow> u64 \<Rightarrow> int prog" where
  "shared_kfifo_init fifo buffer sz esize =
     (if esize = 0 then halt_c (Undefined ''division by zero'') else
      (let sz = ucast (ucast sz div esize :: u64) :: u32;
           sz = (if \<not> is_power_of_2 sz then roundup_pow_of_two sz else sz)
       in seq_c (store_u32 fifo 0 0) (seq_c (store_u32 fifo 4 0)
         (seq_c (store_u32 fifo 12 (ucast esize)) (seq_c (store_ptr fifo 16 buffer)
         (if sz < 2 then seq_c (store_u32 fifo 8 0) (return_c (-1))
          else seq_c (store_u32 fifo 8 (sz - 1)) (return_c 0)))))))"

text \<open>
  The copies.  \<open>src\<close> is the object the caller passes, \<open>room\<close> the size of the object it wants filled; a copy
  that leaves it is undefined.  \<open>geometry\<close> is the arithmetic both copies share: the offset in the
  ring, the length in bytes and how much of it lies before the end of the ring.
\<close>

definition geometry :: "u32 \<Rightarrow> u32 \<Rightarrow> u32 \<Rightarrow> u32 \<Rightarrow> u32 \<Rightarrow> u32 \<times> u32 \<times> u32" where
  "geometry msk esize msk' len off =
     (let sz = msk + 1;
          off = off AND msk';
          (off, sz, len) =
            (if esize \<noteq> 1 then (off * esize, sz * esize, len * esize) else (off, sz, len))
      in (off, len, if len < sz - off then len else sz - off))"

definition shared_copy_in :: "int \<Rightarrow> u8 list \<Rightarrow> u32 \<Rightarrow> u32 \<Rightarrow> unit prog" where
  "shared_copy_in fifo src len off =
     bind_c (load_u32 fifo 8) (\<lambda>msk. bind_c (load_u32 fifo 12) (\<lambda>esize. bind_c (load_u32 fifo 8) (\<lambda>msk'.
     case geometry msk esize msk' len off of (off, len, l) \<Rightarrow>
     if length src < unat len then halt_c (Undefined ''memcpy reads past the object'') else
     bind_c (load_ptr fifo 16) (\<lambda>data.
     seq_c (store_bytes (uint (data + ucast off)) 0 (take (unat l) src))
     (bind_c (load_ptr fifo 16) (\<lambda>data.
     store_bytes (uint data) 0 (take (unat (len - l)) (drop (unat l) src))))))))"

definition shared_kfifo_in :: "int \<Rightarrow> u8 list \<Rightarrow> u32 \<Rightarrow> u32 prog" where
  "shared_kfifo_in fifo buf len =
     bind_c (shared_kfifo_unused fifo) (\<lambda>l.
     let full = (len > l); len = (if full then l else len) in
     seq_c (when_c full (sys_do (Misc (Printf (''space is not enough,can write '' @ dec_int (sint len) @ [CHR 0x0A])))))
     (bind_c (load_u32 fifo 0) (\<lambda>off.
     seq_c (shared_copy_in fifo buf len off)
     (bind_c (load_u32 fifo 0) (\<lambda>i.
     seq_c (store_u32 fifo 0 (i + len)) (return_c len))))))"

definition shared_copy_out :: "int \<Rightarrow> nat \<Rightarrow> u32 \<Rightarrow> u32 \<Rightarrow> u8 list prog" where
  "shared_copy_out fifo room len off =
     bind_c (load_u32 fifo 8) (\<lambda>msk. bind_c (load_u32 fifo 12) (\<lambda>esize. bind_c (load_u32 fifo 8) (\<lambda>msk'.
     case geometry msk esize msk' len off of (off, len, l) \<Rightarrow>
     if room < unat len then halt_c (Undefined ''memcpy writes past the object'') else
     bind_c (load_ptr fifo 16) (\<lambda>data.
     bind_c (load_bytes (uint (data + ucast off)) 0 (unat l)) (\<lambda>front.
     bind_c (load_ptr fifo 16) (\<lambda>data.
     bind_c (load_bytes (uint data) 0 (unat (len - l))) (\<lambda>rest. return_c (front @ rest))))))))"

definition shared_kfifo_out_peek :: "int \<Rightarrow> nat \<Rightarrow> u32 \<Rightarrow> (u32 \<times> u8 list) prog" where
  "shared_kfifo_out_peek fifo room len =
     bind_c (load_u32 fifo 0) (\<lambda>i. bind_c (load_u32 fifo 4) (\<lambda>out.
     let l = i - out; len = (if len > l then l else len) in
     bind_c (load_u32 fifo 4) (\<lambda>off.
     bind_c (shared_copy_out fifo room len off) (\<lambda>bs. return_c (len, bs)))))"

definition shared_kfifo_out :: "int \<Rightarrow> nat \<Rightarrow> u32 \<Rightarrow> (u32 \<times> u8 list) prog" where
  "shared_kfifo_out fifo room len =
     bind_c (shared_kfifo_out_peek fifo room len) (\<lambda>(len, bs).
     bind_c (load_u32 fifo 4) (\<lambda>out.
     seq_c (store_u32 fifo 4 (out + len)) (return_c (len, bs))))"

section \<open>The programs\<close>

text \<open>\<open>while (kfifo_len(fifo) != 0);\<close>\<close>

fun await_empty :: "nat \<Rightarrow> int \<Rightarrow> unit prog" where
  "await_empty 0 fifo = halt_c Running"
| "await_empty (Suc n) fifo =
     bind_c (shared_kfifo_len fifo) (\<lambda>len. if len \<noteq> 0 then await_empty n fifo else return_c ())"

definition uintr_server_round :: "nat \<Rightarrow> int \<Rightarrow> int \<Rightarrow> unit \<Rightarrow> unit prog" where
  "uintr_server_round n fifo uipi_index _ =
     bind_c now (\<lambda>timestamp.
     bind_c (shared_kfifo_in fifo (bytes_of_u64 timestamp) 8) (\<lambda>_.
     seq_c (uintr_server_notify uipi_index) (await_empty n fifo)))"

definition uintr_server_communicate :: "nat \<Rightarrow> int \<Rightarrow> unit prog" where
  "uintr_server_communicate n shared_memory =
     bind_c uintr_setup_server (\<lambda>uipi_index.
     forever_c n (uintr_server_round n shared_memory uipi_index) ())"

text \<open>
  The server's main program: both failures are only printed, and after a failed \<open>shmat\<close> the
  initialisation of the ring writes through an invalid pointer.
\<close>

definition uintr_server_main :: "nat \<Rightarrow> string list \<Rightarrow> int prog" where
  "uintr_server_main n argv =
     (let args = parse_arguments argv in
      bind_c (sys_ret (Ipc (Ftok ''uintr-shm'' (CHR ''X'')))) (\<lambda>segment_key.
      bind_c (sys_ret (Ipc (Shmget segment_key (24 + 4096) True))) (\<lambda>segment_id.
      seq_c (when_c (segment_id < 0) (sys_do (Misc (Printf ''Error allocating segment''))))
      (bind_c (sys_ret (Ipc (Shmat segment_id))) (\<lambda>shared_memory.
      seq_c (when_c (shared_memory = -1) (sys_do (Misc (Printf ''Error attaching segment''))))
      (if shared_memory = -1 then halt_c (Undefined ''access through an invalid pointer'') else
       bind_c (shared_kfifo_init shared_memory (of_int shared_memory + 24) 4096 1) (\<lambda>_.
       seq_c (uintr_server_communicate n shared_memory)
       (seq_c (uintr_server_cleanup segment_id shared_memory) (return_c 0)))))))))"

text \<open>
  The client's interrupt handler; \<open>start\<close> is \<open>bench.single_start\<close>, of eight bytes.  It runs when the
  processor delivers an interrupt.
\<close>

definition ui_handler_code :: "int \<Rightarrow> u64 \<Rightarrow> u64 prog" where
  "ui_handler_code shared_memory start =
     seq_c (store_ptr shared_memory 16 (of_int shared_memory + 24))
     (bind_c (shared_kfifo_len shared_memory) (\<lambda>len.
     bind_c (shared_kfifo_out shared_memory 8 len) (\<lambda>(len, bs).
     return_c (u64_of_bytes (bs @ drop (length bs) (bytes_of_u64 start))))))"

definition take_interrupt :: "int \<Rightarrow> u64 \<Rightarrow> u64 prog" where
  "take_interrupt shared_memory start =
     seq_c (sys_do (Proc Uintr_deliver)) (ui_handler_code shared_memory start)"

end
