(* ===== verification/Ring_Sides.thy ===== *)
theory Ring_Sides
  imports Shared_Ring Shared_Memory_Runs
begin

text \<open>
  The two sides of \<^verbatim>\<open>source/uintr-pro\<close> as automata over their accesses to the segment, and the proof that
  the server's loop and the interrupt handler follow them.
\<close>

section \<open>The two sides\<close>

text \<open>
  Each side knows the index it owns: the server \<open>in\<close>, the handler \<open>out\<close>.  A side goes to \<open>Q_lost\<close> or \<open>K_lost\<close>
  when a field does not have the value the protocol promises.
\<close>

datatype up_server_pc =
    Q_now | Q_fields nat u64 | Q_ptr u64 | Q_copy u64 nat u64 | Q_index u64 | Q_publish u64
  | Q_send | Q_spin | Q_spin_out | Q_lost

type_synonym up_server = "up_server_pc \<times> u32 \<times> u64 list"

datatype up_client_pc =
    K_idle | K_point | K_fields nat | K_ptr | K_copy "u8 list" | K_index "u8 list" | K_publish "u8 list" | K_lost

type_synonym up_client = "up_client_pc \<times> u32 \<times> u64 list"

text \<open>The fields \<open>__kfifo_in\<close> and \<open>__kfifo_out\<close> read before they copy, with the values they find.\<close>

definition put_loads :: "u32 \<Rightarrow> (nat \<times> u32) list" where
  "put_loads n = [(8, 4095), (0, n), (4, n), (0, n), (8, 4095), (12, 1), (8, 4095)]"

definition take_loads :: "u32 \<Rightarrow> (nat \<times> u32) list" where
  "take_loads n = [(0, n + 8), (4, n), (0, n + 8), (4, n), (4, n), (8, 4095), (12, 1), (8, 4095)]"

definition slot_address :: "u64 \<Rightarrow> u32 \<Rightarrow> u64" where
  "slot_address data n = data + ucast (n AND 4095)"

fun up_server_auto :: "int \<Rightarrow> int \<Rightarrow> up_server \<Rightarrow> event \<Rightarrow> up_server option" where
  "up_server_auto fifo idx (Q_now, n, sent) (c, r) =
     (if c = Misc Timespec_get then Some (Q_fields 0 (now_value (nums r ! 0) (nums r ! 1)), n, sent) else None)"
| "up_server_auto fifo idx (Q_fields k t, n, sent) (c, r) =
     (if c = Ipc (Shm_load fifo (fst (put_loads n ! k)) 4)
      then Some (if dat r = bytes_of_u32 (snd (put_loads n ! k)) then if k < 6 then Q_fields (Suc k) t else Q_ptr t
        else Q_lost, n, sent)
      else None)"
| "up_server_auto fifo idx (Q_ptr t, n, sent) (c, r) =
     (if c = Ipc (Shm_load fifo 16 8) then Some (Q_copy (u64_of_bytes (take 8 (dat r))) 0 t, n, sent) else None)"
| "up_server_auto fifo idx (Q_copy d j t, n, sent) (c, r) =
     (if j < 8
      then if c = Ipc (Shm_store (uint (slot_address d n)) j [bytes_of_u64 t ! j]) then Some (Q_copy d (Suc j) t, n, sent) else None
      else if c = Ipc (Shm_load fifo 16 8) then Some (Q_index t, n, sent) else None)"
| "up_server_auto fifo idx (Q_index t, n, sent) (c, r) =
     (if c = Ipc (Shm_load fifo 0 4)
      then Some (if dat r = bytes_of_u32 n then Q_publish t else Q_lost, n, sent) else None)"
| "up_server_auto fifo idx (Q_publish t, n, sent) (c, r) =
     (if c = Ipc (Shm_store fifo 0 (bytes_of_u32 (n + 8))) then Some (Q_send, n + 8, sent @ [t]) else None)"
| "up_server_auto fifo idx (Q_send, n, sent) (c, r) =
     (if c = Proc (Senduipi idx) then Some (Q_spin, n, sent) else None)"
| "up_server_auto fifo idx (Q_spin, n, sent) (c, r) =
     (if c = Ipc (Shm_load fifo 0 4)
      then Some (if dat r = bytes_of_u32 n then Q_spin_out else Q_lost, n, sent) else None)"
| "up_server_auto fifo idx (Q_spin_out, n, sent) (c, r) =
     (if c = Ipc (Shm_load fifo 4 4)
      then Some (if u32_of_bytes (take 4 (dat r)) = n then Q_now else Q_spin, n, sent) else None)"
| "up_server_auto fifo idx (Q_lost, n, sent) e = Some (Q_lost, n, sent)"

fun up_client_auto :: "int \<Rightarrow> up_client \<Rightarrow> event \<Rightarrow> up_client option" where
  "up_client_auto fifo (K_idle, n, got) (c, r) =
     (if c = Proc Uintr_deliver then Some (K_point, n, got) else None)"
| "up_client_auto fifo (K_point, n, got) (c, r) =
     (if c = Ipc (Shm_store fifo 16 (bytes_of_u64 (of_int fifo + 24))) then Some (K_fields 0, n, got) else None)"
| "up_client_auto fifo (K_fields k, n, got) (c, r) =
     (if c = Ipc (Shm_load fifo (fst (take_loads n ! k)) 4)
      then Some (if dat r = bytes_of_u32 (snd (take_loads n ! k)) then if k < 7 then K_fields (Suc k) else K_ptr
        else K_lost, n, got)
      else None)"
| "up_client_auto fifo (K_ptr, n, got) (c, r) =
     (if c = Ipc (Shm_load fifo 16 8)
      then Some (if dat r = bytes_of_u64 (of_int fifo + 24) then K_copy [] else K_lost, n, got) else None)"
| "up_client_auto fifo (K_copy bs, n, got) (c, r) =
     (if length bs < 8
      then if c = Ipc (Shm_load (uint (slot_address (of_int fifo + 24) n)) (length bs) 1)
        then Some (K_copy (bs @ [loaded r]), n, got) else None
      else if c = Ipc (Shm_load fifo 16 8) then Some (K_index bs, n, got) else None)"
| "up_client_auto fifo (K_index bs, n, got) (c, r) =
     (if c = Ipc (Shm_load fifo 4 4)
      then Some (if dat r = bytes_of_u32 n then K_publish bs else K_lost, n, got) else None)"
| "up_client_auto fifo (K_publish bs, n, got) (c, r) =
     (if c = Ipc (Shm_store fifo 4 (bytes_of_u32 (n + 8))) then Some (K_idle, n + 8, got @ [u64_of_bytes bs]) else None)"
| "up_client_auto fifo (K_lost, n, got) e = Some (K_lost, n, got)"

section \<open>The programs follow the two sides\<close>

text \<open>The indices are multiples of eight, so a timestamp never reaches across the end of the ring.\<close>

definition aligned :: "u32 \<Rightarrow> bool" where "aligned n \<longleftrightarrow> 8 dvd unat n"

lemma aligned_next [simp]: "aligned n \<Longrightarrow> aligned (n + 8)"
  unfolding aligned_def by (simp add: unat_word_ariths dvd_mod)

lemma unat_offset: "unat (n AND 4095 :: u32) = unat n mod 4096"
proof -
  have "n AND 4095 = take_bit 12 n" by (simp add: take_bit_eq_mask mask_eq_exp_minus_1)
  then show ?thesis by (simp add: take_bit_eq_mod unat_mod)
qed

lemma aligned_offset:
  assumes "aligned n"
  shows "unat (n AND 4095) \<le> 4088"
proof -
  have "8 dvd unat n mod 4096" using assms by (simp add: aligned_def dvd_mod)
  then obtain k where k: "unat n mod 4096 = 8 * k" ..
  have "unat n mod 4096 < 4096" by simp
  then show ?thesis unfolding unat_offset k by simp
qed

lemma aligned_geometry: "aligned n \<Longrightarrow> geometry 4095 1 4095 8 n = (n AND 4095, 8, 8)"
proof -
  assume "aligned n"
  then have le: "unat (n AND 4095) \<le> 4088" by (rule aligned_offset)
  then have "unat (4096 - (n AND 4095)) = 4096 - unat (n AND 4095)"
    by (subst unat_sub) (simp_all add: word_le_nat_alt)
  then have "\<not> 4096 - (n AND 4095) < 8" using le by (simp add: word_less_nat_alt)
  then show ?thesis by (auto simp: geometry_def Let_def)
qed

lemma follows_load_u32:
  assumes "\<And>r. A p (Ipc (Shm_load f off 4), r) = Some (if dat r = bytes_of_u32 v then q else z)"
    and "lost A Q z" and "\<And>x. honest (k x)" and "follows A q (k v) Q"
  shows "follows A p (bind_c (load_u32 f off) k) Q"
  unfolding load_u32_def bind_assoc bind_return
  using assms by (intro follows_call) (auto intro: follows_lost split: if_splits)

lemma honest_ring [honest_intros]:
  "honest (load_u32 f off)" "honest (load_ptr f off)" "honest (store_u32 f off v)" "honest (store_ptr f off p)"
  by (auto simp: load_u32_def load_ptr_def store_u32_def store_ptr_def intro!: honest_intros)

lemma honest_copies [honest_intros]: "honest (store_bytes p off bs)" "honest (load_bytes p off k)"
  by (induction p off bs rule: store_bytes.induct; auto intro!: honest_intros)
    (induction p off k rule: load_bytes.induct; auto intro!: honest_intros)

lemma honest_now [honest_intros]: "honest now"
  by (auto simp: now_def intro!: honest_intros)

lemma honest_await [honest_intros]: "honest (await_empty n fifo)"
  by (induction n) (auto simp: shared_kfifo_len_def intro!: honest_intros)

lemma honest_operations [honest_intros]:
  "honest (shared_copy_in fifo src len off)" "honest (shared_kfifo_unused fifo)" "honest (shared_kfifo_len fifo)"
  "honest (shared_copy_out fifo room len off)"
  by (auto simp: shared_copy_in_def shared_kfifo_unused_def shared_kfifo_len_def shared_copy_out_def split_def
      intro!: honest_intros)

lemma honest_exchange [honest_intros]: "honest (shared_kfifo_in fifo src len)" "honest (shared_kfifo_out fifo room len)"
  by (auto simp: shared_kfifo_in_def shared_kfifo_out_def shared_kfifo_out_peek_def Let_def split_def intro!: honest_intros)

lemma follows_load_ptr:
  assumes "\<And>r. \<exists>q. A p (Ipc (Shm_load f off 8), r) = Some q \<and> follows A q (k (u64_of_bytes (take 8 (dat r)))) Q"
  shows "follows A p (bind_c (load_ptr f off) k) Q"
  unfolding load_ptr_def bind_assoc bind_return
  using assms by (intro follows_call) (metis option.distinct(1) option.inject)+

lemma follows_store_field:
  assumes "\<And>r. \<exists>q. A p (Ipc (Shm_store f off bs), r) = Some q \<and> follows A q (k ()) Q"
  shows "follows A p (bind_c (sys_do (Ipc (Shm_store f off bs))) k) Q"
  unfolding bind_sys_do
  using assms by (intro follows_call) (metis option.distinct(1) option.inject)+

lemma follows_copy_in:
  assumes "follows (up_server_auto fifo idx) (Q_copy d 8 t, n, sent) (k ()) Q"
  shows "follows (up_server_auto fifo idx) (Q_copy d 0 t, n, sent)
     (bind_c (store_bytes (uint (slot_address d n)) 0 (bytes_of_u64 t)) k) Q"
proof -
  have "follows (up_server_auto fifo idx) (Q_copy d (8 - j) t, n, sent)
      (bind_c (store_bytes (uint (slot_address d n)) (8 - j) (drop (8 - j) (bytes_of_u64 t))) k) Q" if "j \<le> 8" for j
    using that
  proof (induction j)
    case (Suc j)
    then have drop: "drop (8 - Suc j) (bytes_of_u64 t) = bytes_of_u64 t ! (8 - Suc j) # drop (8 - j) (bytes_of_u64 t)"
      by (simp add: Cons_nth_drop_Suc Suc_diff_Suc flip: Suc_diff_Suc)
    have "Suc (8 - Suc j) = 8 - j" using Suc.prems by simp
    then show ?case unfolding drop using Suc
      by (auto simp: prog_norm intro!: follows_call split: if_splits)
  qed (use assms in simp)
  from this [of 8] show ?thesis by simp
qed

lemma follows_publish:
  assumes "lost (up_server_auto fifo idx) Q (Q_lost, n, sent)" and "\<And>x. honest (k x)"
    and "follows (up_server_auto fifo idx) (Q_send, n + 8, sent @ [t]) (k ()) Q"
  shows "follows (up_server_auto fifo idx) (Q_ptr t, n, sent)
     (bind_c (load_ptr fifo 16) (\<lambda>data. bind_c (store_bytes (uint (slot_address data n)) 0 (bytes_of_u64 t)) (\<lambda>_.
      bind_c (load_ptr fifo 16) (\<lambda>data'. bind_c (load_u32 fifo 0) (\<lambda>i. bind_c (store_u32 fifo 0 (i + 8)) k))))) Q"
  using assms(3)
  by (auto simp: store_u32_def intro!: follows_load_ptr follows_copy_in 
      follows_load_u32 [OF _ assms(1), where v = n and q = "(Q_publish t, n, sent)"]
      follows_store_field honest_intros assms(2))

lemma follows_put_load:
  assumes "lost (up_server_auto fifo idx) Q (Q_lost, n, sent)" and "put_loads n ! i = (off, v)" and "\<And>x. honest (k x)"
    and "follows (up_server_auto fifo idx) (if i < 6 then Q_fields (Suc i) t else Q_ptr t, n, sent) (k v) Q"
  shows "follows (up_server_auto fifo idx) (Q_fields i t, n, sent) (bind_c (load_u32 fifo off) k) Q"
  by (rule follows_load_u32 [OF _ assms(1)]) (use assms in auto)

lemma follows_put_unused:
  assumes "lost (up_server_auto fifo idx) Q (Q_lost, n, sent)" and "\<And>x. honest (k x)"
    and "follows (up_server_auto fifo idx) (Q_fields 3 t, n, sent) (k 4096) Q"
  shows "follows (up_server_auto fifo idx) (Q_fields 0 t, n, sent) (bind_c (shared_kfifo_unused fifo) k) Q"
  unfolding shared_kfifo_unused_def bind_assoc bind_return
  by (rule follows_put_load [OF assms(1)], simp add: put_loads_def, intro honest_intros assms(2), simp)+
    (use assms(3) in \<open>simp add: eval_nat_numeral\<close>)

lemma follows_put_copy:
  assumes "aligned n" and "lost (up_server_auto fifo idx) Q (Q_lost, n, sent)" and "\<And>x. honest (k x)"
    and "follows (up_server_auto fifo idx) (Q_send, n + 8, sent @ [t]) (k ()) Q"
  shows "follows (up_server_auto fifo idx) (Q_fields 4 t, n, sent)
     (bind_c (shared_copy_in fifo (bytes_of_u64 t) 8 n) (\<lambda>_. bind_c (load_u32 fifo 0) (\<lambda>i. bind_c (store_u32 fifo 0 (i + 8)) k))) Q"
  unfolding shared_copy_in_def seq_c_def bind_assoc
  using follows_publish [where k = k, OF assms(2-4)] aligned_geometry [OF assms(1)]
  apply -
  apply (rule follows_put_load [OF assms(2)], simp add: put_loads_def, (auto simp: split_def intro!: honest_intros assms(3))[1], simp)+
  apply (simp add: slot_address_def bind_assoc)
  done

lemma follows_put:
  assumes "aligned n" and "lost (up_server_auto fifo idx) Q (Q_lost, n, sent)" and "\<And>x. honest (k x)"
    and "follows (up_server_auto fifo idx) (Q_send, n + 8, sent @ [t]) (k 8) Q"
  shows "follows (up_server_auto fifo idx) (Q_fields 0 t, n, sent)
     (bind_c (shared_kfifo_in fifo (bytes_of_u64 t) 8) k) Q"
proof -
  have "follows (up_server_auto fifo idx) (Q_fields 3 t, n, sent) (bind_c (load_u32 fifo 0) (\<lambda>off.
      bind_c (shared_copy_in fifo (bytes_of_u64 t) 8 off) (\<lambda>_. bind_c (load_u32 fifo 0) (\<lambda>i.
      bind_c (store_u32 fifo 0 (i + 8)) (\<lambda>_. k 8))))) Q"
    by (rule follows_put_load [OF assms(2)], simp add: put_loads_def)
      (use follows_put_copy [where k = "\<lambda>_. k 8", OF assms] in \<open>auto intro!: honest_intros assms(3)\<close>)
  then show ?thesis
    unfolding shared_kfifo_in_def seq_c_def bind_assoc Let_def
    by (intro follows_put_unused [OF assms(2)]) (auto simp: bind_when intro!: honest_intros assms(3))
qed

definition up_server_halt :: "halt \<Rightarrow> up_server \<Rightarrow> bool" where
  "up_server_halt h p \<longleftrightarrow> h = Running \<or> fst p = Q_lost"

definition up_server_head :: "up_server \<Rightarrow> bool" where
  "up_server_head p \<longleftrightarrow> fst p = Q_lost \<or> fst p = Q_now \<and> aligned (fst (snd p))"

lemma server_lost: "lost (up_server_auto fifo idx) (outcome up_server_halt (\<lambda>_. up_server_head)) (Q_lost, n, sent)"
  by (auto simp: lost_def up_server_halt_def up_server_head_def split: sum.splits)

lemma follows_await:
  assumes "aligned n"
  shows "follows (up_server_auto fifo idx) (Q_spin, n, sent) (await_empty m fifo) (outcome up_server_halt (\<lambda>_. up_server_head))"
proof (induction m)
  case 0
  then show ?case by (simp add: follows_halt up_server_halt_def)
next
  case (Suc m)
  have "follows (up_server_auto fifo idx) (Q_spin_out, n, sent)
      (bind_c (load_u32 fifo 4) (\<lambda>out. if n - out \<noteq> 0 then await_empty m fifo else return_c ()))
      (outcome up_server_halt (\<lambda>_. up_server_head))"
    unfolding load_u32_def bind_assoc bind_return
    by (rule follows_call) (use Suc assms in \<open>auto intro!: follows_return simp: up_server_head_def split: if_splits\<close>)
  then show ?case
    unfolding await_empty.simps shared_kfifo_len_def bind_assoc bind_return
    by (rule follows_load_u32 [OF _ server_lost, where v = n and q = "(Q_spin_out, n, sent)", rotated -1])
      (auto intro!: honest_intros)
qed

lemma uintr_server_round_follows:
  assumes "up_server_head p"
  shows "follows (up_server_auto fifo idx) p (uintr_server_round m fifo idx ()) (outcome up_server_halt (\<lambda>_. up_server_head))"
proof -
  obtain pc n sent where p: "p = (pc, n, sent)" by (cases p)
  consider "pc = Q_lost" | "pc = Q_now" "aligned n" using assms by (auto simp: p up_server_head_def)
  then show ?thesis
  proof cases
    case 1
    then show ?thesis unfolding p
      by (auto simp: uintr_server_round_def uintr_server_notify_def intro!: follows_lost [OF server_lost] honest_intros)
  next
    case 2
    have "follows (up_server_auto fifo idx) (Q_send, n + 8, sent @ [t])
        (bind_c (uintr_server_notify idx) (\<lambda>_. await_empty m fifo)) (outcome up_server_halt (\<lambda>_. up_server_head))" for t
      unfolding uintr_server_notify_def bind_sys_do
      by (rule follows_call) (use 2 follows_await in \<open>auto split: if_splits\<close>)
    then show ?thesis unfolding uintr_server_round_def seq_c_def bind_now p 2
      by (intro follows_call)
        (auto simp: uintr_server_notify_def simp del: One_nat_def intro!: follows_put [OF 2(2) server_lost] honest_intros split: if_splits)
  qed
qed

lemma uintr_server_follows:
  "follows (up_server_auto fifo idx) (Q_now, 0, []) (forever_c k (uintr_server_round m fifo idx) ())
     (outcome up_server_halt J)"
  by (rule follows_forever [where I = "\<lambda>_. up_server_head"])
    (auto simp: uintr_server_round_follows up_server_head_def aligned_def up_server_halt_def)

lemma follows_take_load:
  assumes "lost (up_client_auto fifo) Q (K_lost, n, got)" and "take_loads n ! i = (off, v)" and "\<And>x. honest (k x)"
    and "follows (up_client_auto fifo) (if i < 7 then K_fields (Suc i) else K_ptr, n, got) (k v) Q"
  shows "follows (up_client_auto fifo) (K_fields i, n, got) (bind_c (load_u32 fifo off) k) Q"
  by (rule follows_load_u32 [OF _ assms(1)]) (use assms in auto)

lemma follows_copy_out:
  assumes "\<And>bs. length bs = 8 \<Longrightarrow> follows (up_client_auto fifo) (K_copy bs, n, got) (k bs) Q"
  shows "follows (up_client_auto fifo) (K_copy [], n, got)
     (bind_c (load_bytes (uint (slot_address (of_int fifo + 24) n)) 0 8) k) Q"
proof -
  have "follows (up_client_auto fifo) (K_copy bs, n, got)
      (bind_c (load_bytes (uint (slot_address (of_int fifo + 24) n)) (length bs) j) (\<lambda>rest. k (bs @ rest))) Q"
    if "length bs + j = 8" for bs j
    using that
  proof (induction j arbitrary: bs)
    case (Suc j)
    have "follows (up_client_auto fifo) (K_copy (bs @ [b]), n, got)
        (bind_c (load_bytes (uint (slot_address (of_int fifo + 24) n)) (Suc (length bs)) j) (\<lambda>rest. k (bs @ b # rest))) Q" for b
      using Suc.IH [of "bs @ [b]"] Suc.prems by simp
    then show ?case using Suc.prems
      by (auto simp: bind_assoc intro!: follows_call split: if_splits)
  qed (use assms in simp)
  from this [of "[]" 8] show ?thesis by simp
qed

lemma follows_fetch:
  assumes "lost (up_client_auto fifo) Q (K_lost, n, got)" and "\<And>x. honest (k x)"
    and "\<And>bs. length bs = 8 \<Longrightarrow> follows (up_client_auto fifo) (K_index bs, n, got) (k bs) Q"
  shows "follows (up_client_auto fifo) (K_ptr, n, got)
     (bind_c (load_ptr fifo 16) (\<lambda>data. bind_c (load_bytes (uint (slot_address data n)) 0 8) (\<lambda>front.
      bind_c (load_ptr fifo 16) (\<lambda>data'. k front)))) Q"
proof -
  have "follows (up_client_auto fifo) (K_copy [], n, got) (bind_c (load_bytes (uint (slot_address (of_int fifo + 24) n)) 0 8) (\<lambda>front.
      bind_c (load_ptr fifo 16) (\<lambda>data'. k front))) Q"
    by (rule follows_copy_out, rule follows_load_ptr) (use assms(3) in auto)
  then show ?thesis unfolding load_ptr_def [of _ 16, where fifo = fifo] bind_assoc bind_return
    by (intro follows_call)
      (auto intro!: follows_lost [OF assms(1)] honest_intros assms(2) split: if_splits)
qed

lemma follows_take_copy:
  assumes "aligned n" and "lost (up_client_auto fifo) Q (K_lost, n, got)" and "\<And>x. honest (k x)"
    and "\<And>bs. length bs = 8 \<Longrightarrow> follows (up_client_auto fifo) (K_index bs, n, got) (k bs) Q"
  shows "follows (up_client_auto fifo) (K_fields 5, n, got) (bind_c (shared_copy_out fifo 8 8 n) k) Q"
  unfolding shared_copy_out_def seq_c_def bind_assoc
  using follows_fetch [where k = k, OF assms(2-4)] aligned_geometry [OF assms(1)]
  apply -
  apply (rule follows_take_load [OF assms(2)], simp add: take_loads_def, (auto simp: split_def intro!: honest_intros assms(3))[1], simp)+
  apply (simp add: slot_address_def bind_assoc)
  done

lemma follows_take:
  assumes "aligned n" and "lost (up_client_auto fifo) Q (K_lost, n, got)" and "\<And>x. honest (k x)"
    and "\<And>bs. length bs = 8 \<Longrightarrow> follows (up_client_auto fifo) (K_idle, n + 8, got @ [u64_of_bytes bs]) (k (8, bs)) Q"
  shows "follows (up_client_auto fifo) (K_fields 2, n, got) (bind_c (shared_kfifo_out fifo 8 8) k) Q"
proof -
  have publish: "follows (up_client_auto fifo) (K_index bs, n, got)
      (bind_c (load_u32 fifo 4) (\<lambda>out. bind_c (store_u32 fifo 4 (out + 8)) (\<lambda>_. k (8, bs)))) Q" if "length bs = 8" for bs
    unfolding store_u32_def
    by (rule follows_load_u32 [OF _ assms(2), where v = n and q = "(K_publish bs, n, got)"])
      (use that assms(3,4) in \<open>auto intro!: honest_intros follows_store_field\<close>)
  have copy: "follows (up_client_auto fifo) (K_fields 5, n, got) (bind_c (shared_copy_out fifo 8 8 n) (\<lambda>bs.
      bind_c (load_u32 fifo 4) (\<lambda>out. bind_c (store_u32 fifo 4 (out + 8)) (\<lambda>_. k (8, bs))))) Q"
    by (rule follows_take_copy [OF assms(1,2)]) (use publish assms(3) in \<open>auto intro!: honest_intros\<close>)
  show ?thesis
    unfolding shared_kfifo_out_def shared_kfifo_out_peek_def seq_c_def bind_assoc Let_def
    apply (rule follows_take_load [OF assms(2)], simp add: take_loads_def, (auto simp: split_def intro!: honest_intros assms(3))[1], simp)+
    apply (use copy in \<open>simp add: eval_nat_numeral bind_assoc\<close>)
    done
qed

definition up_client_halt :: "halt \<Rightarrow> up_client \<Rightarrow> bool" where
  "up_client_halt h p \<longleftrightarrow> h = Running \<or> fst p = K_lost"

definition up_client_head :: "u64 \<Rightarrow> up_client \<Rightarrow> bool" where
  "up_client_head start = (\<lambda>(pc, n, got). pc = K_lost \<or> pc = K_idle \<and> aligned n \<and> (got \<noteq> [] \<longrightarrow> start = last got))"

lemma client_lost: "lost (up_client_auto fifo) (outcome up_client_halt up_client_head) (K_lost, n, got)"
  by (auto simp: lost_def up_client_halt_def up_client_head_def split: sum.splits)

lemma take_interrupt_follows:
  assumes "up_client_head start p"
  shows "follows (up_client_auto fifo) p (take_interrupt fifo start) (outcome up_client_halt up_client_head)"
proof -
  obtain pc n got where p: "p = (pc, n, got)" by (cases p)
  consider "pc = K_lost" | "pc = K_idle" "aligned n" using assms by (auto simp: p up_client_head_def)
  then show ?thesis
  proof cases
    case 1
    then show ?thesis unfolding p
      by (auto simp: take_interrupt_def ui_handler_code_def split_def intro!: follows_lost [OF client_lost] honest_intros)
  next
    case 2
    define rest where "rest = (\<lambda>len. bind_c (shared_kfifo_out fifo 8 len) (\<lambda>(len, bs).
        return_c (u64_of_bytes (bs @ drop (length bs) (bytes_of_u64 start)))))"
    have honest: "honest (rest len)" for len by (auto simp: rest_def split_def intro!: honest_intros)
    have "follows (up_client_auto fifo) (K_fields 2, n, got) (rest 8) (outcome up_client_halt up_client_head)"
      unfolding rest_def using 2
      by (intro follows_take [OF 2(2) client_lost])
        (auto simp: split_def up_client_head_def intro!: honest_intros follows_return)
    then have "follows (up_client_auto fifo) (K_fields 0, n, got) (bind_c (shared_kfifo_len fifo) rest)
        (outcome up_client_halt up_client_head)"
      unfolding shared_kfifo_len_def bind_assoc bind_return
      apply -
      apply (rule follows_take_load [OF client_lost], simp add: take_loads_def, (auto intro!: honest_intros honest)[1], simp)+
      apply (simp add: eval_nat_numeral)
      done
    then show ?thesis unfolding take_interrupt_def ui_handler_code_def store_ptr_def seq_c_def bind_sys_do rest_def [symmetric] p 2
      by (intro follows_call) (auto split: if_splits)
  qed
qed

lemma uintr_client_follows:
  "follows (up_client_auto fifo) (K_idle, 0, []) (forever_c k (take_interrupt fifo) start) (outcome up_client_halt J)"
  by (rule follows_forever [where I = up_client_head])
    (auto simp: take_interrupt_follows up_client_head_def aligned_def up_client_halt_def)

end
