(* ===== verification/Uintr_Pro_Runs.thy ===== *)
theory Uintr_Pro_Runs
  imports Ring_Sides
begin

text \<open>
  The loop of the server of \<^verbatim>\<open>source/uintr-pro\<close> and the interrupt handler of its client, run side by side
  on one segment with every access interleaved, simulate the step relation of theory Uintr_Pro, in which
  a ring operation is one step.
\<close>

section \<open>The segment\<close>

text \<open>
  The shared object: the bytes of the segment, the structure first and the ring from offset 24, and the
  posted interrupt.  A process that has the segment at \<open>base\<close> reaches byte \<open>i\<close> at \<open>base + i\<close>; accesses to other
  addresses are its own affair, so a load from there may return anything.
\<close>

definition seg_store :: "u64 \<Rightarrow> (nat \<Rightarrow> u8) \<Rightarrow> u64 \<Rightarrow> u8 list \<Rightarrow> nat \<Rightarrow> u8" where
  "seg_store base seg a bs = (\<lambda>i. store (\<lambda>_. seg i) a bs (base + of_nat i))"

definition seg_loads :: "u64 \<Rightarrow> (nat \<Rightarrow> u8) \<Rightarrow> u64 \<Rightarrow> u8 list \<Rightarrow> bool" where
  "seg_loads base seg a bs \<longleftrightarrow>
     (\<forall>j<length bs. unat (a + of_nat j - base) < 4120 \<longrightarrow> bs ! j = seg (unat (a + of_nat j - base)))"

definition seg_read :: "(nat \<Rightarrow> u8) \<Rightarrow> nat \<Rightarrow> nat \<Rightarrow> u8 list" where
  "seg_read seg off k = map (\<lambda>j. seg (off + j)) [0..<k]"

definition uintr_obj :: "u64 \<Rightarrow> (nat \<Rightarrow> u8) \<times> bool \<Rightarrow> event \<Rightarrow> ((nat \<Rightarrow> u8) \<times> bool) option" where
  "uintr_obj base = (\<lambda>(seg, pending) (c, r). case c of
     Ipc (Shm_load p off k) \<Rightarrow>
       if length (dat r) = k \<and> seg_loads base seg (of_int p + of_nat off) (dat r) then Some (seg, pending) else None
   | Ipc (Shm_store p off bs) \<Rightarrow> Some (seg_store base seg (of_int p + of_nat off) bs, pending)
   | Proc (Senduipi _) \<Rightarrow> Some (seg, True)
   | Proc Uintr_deliver \<Rightarrow> if pending then Some (seg, False) else None
   | _ \<Rightarrow> Some (seg, pending))"

definition ring_header :: "(nat \<Rightarrow> u8) \<Rightarrow> kfifo \<Rightarrow> bool" where
  "ring_header seg f \<longleftrightarrow> seg_read seg 0 4 = bytes_of_u32 (kf_in f) \<and> seg_read seg 4 4 = bytes_of_u32 (kf_out f) \<and>
     seg_read seg 8 4 = bytes_of_u32 (kf_mask f) \<and> seg_read seg 12 4 = bytes_of_u32 (kf_esize f) \<and>
     seg_read seg 16 8 = bytes_of_u64 (kf_data f)"

lemma length_seg_read [simp]: "length (seg_read seg off k) = k"
  by (simp add: seg_read_def)

lemma nth_seg_read [simp]: "j < k \<Longrightarrow> seg_read seg off k ! j = seg (off + j)"
  by (simp add: seg_read_def)

lemma seg_read_cong: "(\<And>i. off \<le> i \<Longrightarrow> i < off + k \<Longrightarrow> seg i = seg' i) \<Longrightarrow> seg_read seg off k = seg_read seg' off k"
  by (simp add: seg_read_def)

lemma seg_store_at:
  assumes "i < 4120" and "off < 4120" and "length bs \<le> 8"
  shows "seg_store base seg (base + of_nat off) bs i = (if off \<le> i \<and> i < off + length bs then bs ! (i - off) else seg i)"
  unfolding seg_store_def using assms by (subst load_store_offset) auto

lemma seg_store_snoc:
  assumes "length bs < 8"
  shows "seg_store base (seg_store base seg a bs) (a + of_nat (length bs)) [b] = seg_store base seg a (bs @ [b])"
proof
  fix i
  let ?d = "base + of_nat i - a"
  have "unat (?d - of_nat (length bs)) = 0 \<longleftrightarrow> ?d = of_nat (length bs)" by (simp add: unat_eq_zero)
  also have "\<dots> \<longleftrightarrow> unat ?d = length bs" using assms unat_of_nat_u64 [of "length bs"] by (auto simp: word_unat_eq_iff)
  finally show "seg_store base (seg_store base seg a bs) (a + of_nat (length bs)) [b] i = seg_store base seg a (bs @ [b]) i"
    by (auto simp: seg_store_def store_def nth_append algebra_simps less_Suc_eq diff_diff_eq)
qed

lemma seg_loads_at:
  assumes "off + length bs \<le> 4120"
  shows "seg_loads base seg (base + of_nat off) bs \<longleftrightarrow> bs = seg_read seg off (length bs)"
proof -
  have "unat (base + of_nat off + of_nat j - base) = off + j" if "j < length bs" for j
    using that assms unat_of_nat_u64 [of "off + j"] by (simp add: algebra_simps)
  then show ?thesis using assms by (auto simp: seg_loads_def list_eq_iff_nth_eq)
qed

lemma obj_load:
  assumes "uintr_obj base (seg, pend) (Ipc (Shm_load p off k), r) = Some ob" and "of_int p + of_nat off = base + of_nat pos"
    and "pos + k \<le> 4120"
  shows "dat r = seg_read seg pos k \<and> ob = (seg, pend)"
  using assms seg_loads_at [of pos "dat r" base seg] by (auto simp: uintr_obj_def split: if_splits)

lemma obj_store:
  "uintr_obj base (seg, pend) (Ipc (Shm_store p off bs), r) = Some (seg_store base seg (of_int p + of_nat off) bs, pend)"
  by (simp add: uintr_obj_def)

lemma obj_other [simp]: "uintr_obj base ob (Misc c, r) = Some ob"
  by (cases ob) (simp add: uintr_obj_def)

section \<open>The steps in terms of bytes\<close>

lemma memcpy_nothing [simp]: "memcpy m p q 0 = m"
  by (simp add: memcpy_def)

text \<open>What \<open>__kfifo_in\<close> makes of the ring in one step.\<close>

lemma server_put_ring:
  assumes "ring_shape (u_fifo s)" and "kfifo_len (u_fifo s) = 0" and "aligned (kf_in (u_fifo s))" and "layout_ok l" and "i < 4096"
  shows "u_ring (server_put l s) i = store (\<lambda>_. u_ring s i) (slot_address (kf_data (u_fifo s)) (kf_in (u_fifo s)))
     (load (u_smem s) (at_stamp l) 8) (at_server l + of_nat i)"
proof -
  let ?f = "u_fifo s" and ?m = "view (u_ring s) (u_smem s) (at_server l)"
  have f: "kf_mask ?f = 4095" "kf_esize ?f = 1" using assms(1) by (simp_all add: ring_shape_def)
  have "kfifo_unused ?f = 4096" using assms(2) f by (simp add: kfifo_unused_def kfifo_len_def)
  moreover have "kfifo_copy_in ?m ?f (at_stamp l) 8 (kf_in ?f) =
      memcpy ?m (slot_address (kf_data ?f) (kf_in ?f)) (at_stamp l) 8"
    using aligned_geometry [OF assms(3)] f
    by (auto simp: kfifo_copy_in_def geometry_def Let_def slot_address_def split: if_splits)
  ultimately have "u_smem (server_put l s) = memcpy ?m (slot_address (kf_data ?f) (kf_in ?f)) (at_stamp l) 8"
    by (simp add: server_put_def kfifo_in_def Let_def)
  moreover have "u_ring (server_put l s) = shared_part (u_smem (server_put l s)) (at_server l)"
    by (simp add: server_put_def Let_def split_def)
  moreover have "load ?m (at_stamp l) 8 = load (u_smem s) (at_stamp l) 8"
    by (rule load_view_outside) (rule layout_apart [OF assms(4)])
  moreover have "?m (at_server l + of_nat i) = u_ring s i"
    using shared_part_view [OF assms(5)] by (simp add: shared_part_def)
  ultimately show ?thesis by (simp add: shared_part_def memcpy_def store_def)
qed

lemma server_put_sent: "u_sent (server_put l s) = u_sent s @ [u64_of_bytes (load (u_smem s) (at_stamp l) 8)]"
  by (simp add: server_put_def Let_def split_def)

text \<open>What the handler takes out of the ring in one step.\<close>

definition ring_slice :: "upro \<Rightarrow> nat \<Rightarrow> u8 list" where
  "ring_slice s k = map (\<lambda>j. u_ring s (unat (kf_out (u_fifo s) AND 4095) + j)) [0..<k]"

lemma aligned_slots:
  assumes "aligned n" and "j < 8"
  shows "unat (n + of_nat j) mod 4096 = unat (n AND 4095) + j"
proof -
  have le: "unat n mod 4096 \<le> 4088" using aligned_offset [OF assms(1)] by (simp add: unat_offset)
  have "unat (n + of_nat j) = (unat n + j) mod 2 ^ 32"
    using assms(2) by (simp add: unat_word_ariths unat_of_nat_u32)
  then have "unat (n + of_nat j) mod 4096 = (unat n + j) mod 4096" by (simp add: mod_mod_cancel)
  also have "\<dots> = (unat n mod 4096 + j) mod 4096" by (simp add: mod_simps)
  also have "\<dots> = unat n mod 4096 + j" using le assms(2) by simp
  finally show ?thesis by (simp add: unat_offset)
qed

lemma ring_items_slice:
  "kfifo_len (u_fifo s) = 8 \<Longrightarrow> aligned (kf_out (u_fifo s)) \<Longrightarrow>
   ring_items (u_ring s) (u_fifo s) = map (\<lambda>x. [x]) (ring_slice s 8)"
  using aligned_slots by (auto simp: ring_items_def ring_slice_def)

lemma handler_slice:
  assumes "ring_shape (u_fifo s)" and "kfifo_len (u_fifo s) = 8" and "layout_ok l" and "aligned (kf_out (u_fifo s))"
  shows "u_got (ui_handler l s) = u_got s @ [u64_of_bytes (ring_slice s 8)]"
    and "i < 4096 \<Longrightarrow> u_ring (ui_handler l s) i = u_ring s i"
proof -
  note h = handler_facts [OF assms(1-3)]
  have "load (u_cmem (ui_handler l s)) (at_start l) 8 = ring_slice s 8"
    using h(1) ring_items_slice [OF assms(2,4)] singles_inject by metis
  then show "u_got (ui_handler l s) = u_got s @ [u64_of_bytes (ring_slice s 8)]" using h(3) by simp
  show "u_ring (ui_handler l s) i = u_ring s i" if i: "i < 4096"
  proof -
    have "at_client l + of_nat i \<in> region (at_client l) 4096" using i by (intro region_memI) simp_all
    then have "at_client l + of_nat i \<notin> region (at_start l) 8" using layout_apart(3) [OF assms(3)] by blast
    moreover have "u_ring (ui_handler l s) = shared_part (u_cmem (ui_handler l s)) (at_client l)"
      by (simp add: ui_handler_def Let_def split_def)
    ultimately show ?thesis
      using h(2) [of "at_client l + of_nat i"] shared_part_view [OF i, of "u_ring s" "u_cmem s" "at_client l"]
      by (simp add: shared_part_def)
  qed
qed

section \<open>The simulation\<close>

text \<open>Two processes that have the segment at \<open>fifo\<close> and at \<open>fifo'\<close>.\<close>

definition mapped_at :: "int \<Rightarrow> int \<Rightarrow> layout \<Rightarrow> bool" where
  "mapped_at fifo fifo' l \<longleftrightarrow> at_server l = of_int fifo + 24 \<and> at_client l = of_int fifo' + 24 \<and> layout_ok l"

definition up_init :: "int \<Rightarrow> int \<Rightarrow> layout \<Rightarrow> upro \<Rightarrow> bool" where
  "up_init fifo fifo' l s \<longleftrightarrow> mapped_at fifo fifo' l \<and> upro_init l s"

definition up_inv :: "int \<Rightarrow> int \<Rightarrow> layout \<Rightarrow> upro \<Rightarrow> bool" where
  "up_inv fifo fifo' l s \<longleftrightarrow> mapped_at fifo fifo' l \<and> index_inv l s \<and> (at_server l = at_client l \<longrightarrow> same_inv l s)"

fun in_ring :: "up_server_pc \<Rightarrow> u8 list" where
  "in_ring (Q_copy d j t) = take j (bytes_of_u64 t)"
| "in_ring (Q_index t) = bytes_of_u64 t"
| "in_ring (Q_publish t) = bytes_of_u64 t"
| "in_ring pc = []"

definition holds_stamp :: "layout \<Rightarrow> u64 \<Rightarrow> upro \<Rightarrow> bool" where
  "holds_stamp l t s \<longleftrightarrow> u_pc s = U_in \<and> load (u_smem s) (at_stamp l) 8 = bytes_of_u64 t"

fun up_server_place :: "layout \<Rightarrow> up_server_pc \<Rightarrow> upro \<Rightarrow> bool" where
  "up_server_place l Q_now s \<longleftrightarrow> u_pc s = U_now"
| "up_server_place l (Q_fields k t) s \<longleftrightarrow> holds_stamp l t s \<and> k < 7"
| "up_server_place l (Q_ptr t) s \<longleftrightarrow> holds_stamp l t s"
| "up_server_place l (Q_copy d j t) s \<longleftrightarrow> holds_stamp l t s \<and> d = kf_data (u_fifo s) \<and> j \<le> 8"
| "up_server_place l (Q_index t) s \<longleftrightarrow> holds_stamp l t s"
| "up_server_place l (Q_publish t) s \<longleftrightarrow> holds_stamp l t s"
| "up_server_place l Q_send s \<longleftrightarrow> u_pc s = U_send"
| "up_server_place l Q_spin s \<longleftrightarrow> u_pc s = U_spin"
| "up_server_place l Q_spin_out s \<longleftrightarrow> u_pc s = U_spin"
| "up_server_place l Q_lost s \<longleftrightarrow> False"

fun up_client_place :: "up_client_pc \<Rightarrow> upro \<Rightarrow> bool" where
  "up_client_place K_idle s \<longleftrightarrow> True"
| "up_client_place K_point s \<longleftrightarrow> u_pending s"
| "up_client_place (K_fields k) s \<longleftrightarrow> u_pending s \<and> k < 8"
| "up_client_place K_ptr s \<longleftrightarrow> u_pending s"
| "up_client_place (K_copy bs) s \<longleftrightarrow> u_pending s \<and> length bs \<le> 8 \<and> bs = ring_slice s (length bs)"
| "up_client_place (K_index bs) s \<longleftrightarrow> u_pending s \<and> bs = ring_slice s 8"
| "up_client_place (K_publish bs) s \<longleftrightarrow> u_pending s \<and> bs = ring_slice s 8"
| "up_client_place K_lost s \<longleftrightarrow> False"

text \<open>
  Where the segment is between two steps: the server writes its bytes behind the published index, and the
  handler moves the pointer to the data, before the ring operation as a whole takes effect.
\<close>

definition ring_part :: "layout \<Rightarrow> up_server_pc \<Rightarrow> upro \<Rightarrow> nat \<Rightarrow> u8" where
  "ring_part l spc s = seg_store (at_server l) (u_ring s) (slot_address (kf_data (u_fifo s)) (kf_in (u_fifo s))) (in_ring spc)"

definition header_part :: "layout \<Rightarrow> up_client_pc \<Rightarrow> upro \<Rightarrow> kfifo" where
  "header_part l cpc s = (if cpc = K_idle \<or> cpc = K_point then u_fifo s else (u_fifo s)\<lparr>kf_data := at_client l\<rparr>)"

definition up_rep :: "layout \<Rightarrow> (nat \<Rightarrow> u8) \<times> bool \<Rightarrow> up_server \<Rightarrow> up_client \<Rightarrow> upro \<Rightarrow> bool" where
  "up_rep l = (\<lambda>(seg, pend) (spc, n, sent) (cpc, n', got) s.
     ring_header seg (header_part l cpc s) \<and> (\<forall>i<4096. seg (24 + i) = ring_part l spc s i) \<and>
     kf_in (u_fifo s) = n \<and> kf_out (u_fifo s) = n' \<and> aligned n \<and> aligned n' \<and> u_sent s = sent \<and> u_got s = got \<and>
     pend = (u_pending s \<and> cpc = K_idle) \<and> up_server_place l spc s \<and> up_client_place cpc s)"

lemma up_inv_step:
  assumes "up_inv fifo fifo' l s" and "upro_step l s t"
  shows "up_inv fifo fifo' l t"
  using assms index_inv_step [of l s t] same_inv_step [of l s t] by (auto simp: up_inv_def mapped_at_def)

lemma up_inv_init: "up_init fifo fifo' l s \<Longrightarrow> up_inv fifo fifo' l s"
  using index_inv_init [of l s] same_inv_init [of l s] by (auto simp: up_init_def up_inv_def)

text \<open>The fields have the values the two sides rely on.\<close>

lemma header_field:
  assumes "ring_header seg f" and "kf_mask f = 4095" and "kf_esize f = 1"
    and "(off, v) \<in> {(0, kf_in f), (4, kf_out f), (8, 4095), (12, 1)}"
  shows "seg_read seg off 4 = bytes_of_u32 v" "off + 4 \<le> 4120"
  using assms by (auto simp: ring_header_def)

lemma put_loads_fields: "k < 7 \<Longrightarrow> put_loads n ! k \<in> {(0, n), (4, n), (8, 4095), (12, 1)}"
  using nth_mem [of k "put_loads n"] by (auto simp: put_loads_def)

lemma take_loads_fields: "k < 8 \<Longrightarrow> take_loads n ! k \<in> {(0, n + 8), (4, n), (8, 4095), (12, 1)}"
  using nth_mem [of k "take_loads n"] by (auto simp: take_loads_def)

text \<open>Stores to fields and stores to the ring keep out of each other's way.\<close>

lemma field_store:
  assumes "ring_header seg f" and "seg' = seg_store base seg (base + of_nat off) bs" and "length bs \<le> 8"
  shows "off = 0 \<Longrightarrow> bs = bytes_of_u32 v \<Longrightarrow> ring_header seg' (f\<lparr>kf_in := v\<rparr>)"
    and "off = 4 \<Longrightarrow> bs = bytes_of_u32 v \<Longrightarrow> ring_header seg' (f\<lparr>kf_out := v\<rparr>)"
    and "off = 16 \<Longrightarrow> bs = bytes_of_u64 p \<Longrightarrow> ring_header seg' (f\<lparr>kf_data := p\<rparr>)"
    and "off + length bs \<le> 24 \<Longrightarrow> i < 4096 \<Longrightarrow> seg' (24 + i) = seg (24 + i)"
proof -
  have at: "seg' i = (if off \<le> i \<and> i < off + length bs then bs ! (i - off) else seg i)" if "i < 4120" "off < 4120" for i
    unfolding assms(2) using seg_store_at that assms(3) by simp
  have same: "seg_read seg' off (length bs) = bs" if "off < 100"
    using that assms(3) at by (auto simp: list_eq_iff_nth_eq)
  have other: "seg_read seg' o' k = seg_read seg o' k" if "off < 100" "o' + k < 100" "o' + k \<le> off \<or> off + length bs \<le> o'" for o' k
    using that at by (intro seg_read_cong) auto
  show "off = 0 \<Longrightarrow> bs = bytes_of_u32 v \<Longrightarrow> ring_header seg' (f\<lparr>kf_in := v\<rparr>)"
    and "off = 4 \<Longrightarrow> bs = bytes_of_u32 v \<Longrightarrow> ring_header seg' (f\<lparr>kf_out := v\<rparr>)"
    and "off = 16 \<Longrightarrow> bs = bytes_of_u64 p \<Longrightarrow> ring_header seg' (f\<lparr>kf_data := p\<rparr>)"
    using same other assms(1) by (auto simp: ring_header_def)
  show "off + length bs \<le> 24 \<Longrightarrow> i < 4096 \<Longrightarrow> seg' (24 + i) = seg (24 + i)" using at [of "24 + i"] by simp
qed

lemma ring_store_keeps_header:
  assumes "ring_header seg f" and "region base 24 \<inter> region data 4096 = {}" and "aligned n" and "j < 8"
  shows "ring_header (seg_store base seg (slot_address data n + of_nat j) [b]) f"
proof -
  let ?a = "slot_address data n + of_nat j"
  have "?a = data + of_nat (unat (n AND 4095) + j)" by (simp add: slot_address_def)
  moreover have "unat (n AND 4095) + j < 4096" using aligned_offset [OF assms(3)] assms(4) by simp
  ultimately have "?a \<in> region data 4096" using region_memI [of "unat (n AND 4095) + j" 4096 data]
    by (simp add: slot_address_def add.assoc)
  then have "base + of_nat i \<noteq> ?a" if "i < 24" for i using region_memI [OF that, of base] assms(2) by auto
  then have "seg_store base seg ?a [b] i = seg i" if "i < 24" for i
    using that by (auto simp: seg_store_def store_def unat_eq_zero)
  then have "seg_read (seg_store base seg ?a [b]) off k = seg_read seg off k" if "off + k \<le> 24" for off k
    using that by (intro seg_read_cong) simp
  then show ?thesis using assms(1) by (simp add: ring_header_def)
qed

lemma client_idle: "up_client_place cpc s \<Longrightarrow> \<not> u_pending s \<Longrightarrow> cpc = K_idle"
  by (cases cpc) auto

lemma up_client_place_frame [simp]:
  "up_client_place cpc (s\<lparr>u_smem := m\<rparr>) = up_client_place cpc s" "up_client_place cpc (s\<lparr>u_pc := pc\<rparr>) = up_client_place cpc s"
  by (cases cpc; simp add: ring_slice_def)+

lemma parts_frame [simp]:
  "ring_part l spc (s\<lparr>u_smem := m\<rparr>) = ring_part l spc s" "ring_part l spc (s\<lparr>u_pc := pc\<rparr>) = ring_part l spc s"
  "ring_part l spc (s\<lparr>u_pending := b\<rparr>) = ring_part l spc s"
  "header_part l cpc (s\<lparr>u_smem := m\<rparr>) = header_part l cpc s" "header_part l cpc (s\<lparr>u_pc := pc\<rparr>) = header_part l cpc s"
  "header_part l cpc (s\<lparr>u_pending := b\<rparr>) = header_part l cpc s"
  by (simp_all add: ring_part_def header_part_def)

lemma ring_part_same: "in_ring pc = in_ring pc' \<Longrightarrow> ring_part l pc s = ring_part l pc' s"
  by (simp add: ring_part_def)

lemma store_seen:
  assumes "at_server l = of_int fifo + 24" and "seg (24 + i) = ring_part l (Q_copy d j t) s i" and "j < 8"
  shows "seg_store (of_int fifo) seg (slot_address (kf_data (u_fifo s)) (kf_in (u_fifo s)) + of_nat j) [bytes_of_u64 t ! j] (24 + i) =
     ring_part l (Q_copy d (Suc j) t) s i"
proof -
  let ?a = "slot_address (kf_data (u_fifo s)) (kf_in (u_fifo s))"
  have "seg_store (of_int fifo) seg (?a + of_nat j) [bytes_of_u64 t ! j] (24 + i) =
      seg_store (at_server l) (ring_part l (Q_copy d j t) s) (?a + of_nat j) [bytes_of_u64 t ! j] i"
    using assms(1,2) by (simp add: seg_store_def add.assoc)
  also have "\<dots> = ring_part l (Q_copy d (Suc j) t) s i"
    using seg_store_snoc [of "take j (bytes_of_u64 t)" "at_server l" "u_ring s" ?a "bytes_of_u64 t ! j"] assms(3)
    by (simp add: ring_part_def take_Suc_conv_app_nth)
  finally show ?thesis .
qed

lemma own_ring_apart: "region p 24 \<inter> region (p + 24) 4096 = {}" for p :: u64
  by (rule regions_apart [where d = 24]) simp_all

lemma up_rep_facts:
  assumes "up_inv fifo fifo' l s" and "up_rep l (seg, pend) (spc, n, sent) (cpc, n', got) s"
  shows "at_server l = of_int fifo + 24" "at_client l = of_int fifo' + 24" "layout_ok l" "index_inv l s"
    "ring_header seg (header_part l cpc s)" "\<forall>i<4096. seg (24 + i) = ring_part l spc s i"
    "kf_in (u_fifo s) = n" "kf_out (u_fifo s) = n'" "u_sent s = sent" "u_got s = got" "aligned n" "aligned n'"
    "pend = (u_pending s \<and> cpc = K_idle)" "up_server_place l spc s" "up_client_place cpc s"
    "kf_mask (header_part l cpc s) = 4095" "kf_esize (header_part l cpc s) = 1"
    "kf_in (header_part l cpc s) = n" "kf_out (header_part l cpc s) = n'"
  using assms by (auto simp: up_inv_def mapped_at_def up_rep_def header_part_def index_inv_def)

lemma obj_load_field:
  "uintr_obj (of_int fifo) (seg, pend) (Ipc (Shm_load fifo off m), r) = Some ob \<Longrightarrow> off + m \<le> 24 \<Longrightarrow>
   dat r = seg_read seg off m \<and> ob = (seg, pend)"
  using obj_load [of "of_int fifo" seg pend fifo off m r ob off] by simp

text \<open>While the server fills the ring, the handler is idle and the ring empty.\<close>

lemma filling_facts:
  assumes "up_inv fifo fifo' l s" and "up_rep l (seg, pend) (spc, n, sent) (cpc, n', got) s" and "holds_stamp l t s"
  shows "cpc = K_idle" "\<not> u_pending s" "n = n'" "kfifo_len (u_fifo s) = 0" "region (of_int fifo) 24 \<inter> region (kf_data (u_fifo s)) 4096 = {}"
proof -
  note R = up_rep_facts [OF assms(1,2)]
  have pc: "\<not> u_pending s" "kfifo_len (u_fifo s) = 0" "kf_data (u_fifo s) \<in> {at_server l, at_client l}"
    using R(4) assms(3) by (auto simp: index_inv_def holds_stamp_def)
  then show "cpc = K_idle" "\<not> u_pending s" "n = n'" "kfifo_len (u_fifo s) = 0"
    using client_idle [OF R(15)] R(7,8) by (auto simp: kfifo_len_def)
  show "region (of_int fifo) 24 \<inter> region (kf_data (u_fifo s)) 4096 = {}"
    using pc(3) R(1,3) own_ring_apart [of "of_int fifo"] by (auto simp: layout_ok_def)
qed

lemma server_byte_sim:
  assumes "up_inv fifo fifo' l s" and "up_rep l (seg, pend) (Q_copy d j t, n, sent) (cpc, n', got) s" and "j < 8"
  shows "up_rep l (seg_store (of_int fifo) seg (slot_address d n + of_nat j) [bytes_of_u64 t ! j], pend)
     (Q_copy d (Suc j) t, n, sent) (cpc, n', got) s"
proof -
  note R = up_rep_facts [OF assms(1,2)]
  have h: "holds_stamp l t s" and d: "d = kf_data (u_fifo s)" using R(14) by auto
  note header = ring_store_keeps_header [OF R(5) filling_facts(5) [OF assms(1,2) h] R(11) assms(3)]
  have "\<forall>i<4096. seg_store (of_int fifo) seg (slot_address d n + of_nat j) [bytes_of_u64 t ! j] (24 + i) =
      ring_part l (Q_copy d (Suc j) t) s i"
    using store_seen [of l fifo seg _ d j t s] R(1,6,7) assms(3) d by simp
  then show ?thesis using header R assms(3) d by (simp add: up_rep_def)
qed

lemma server_publish_sim:
  assumes "up_inv fifo fifo' l s" and "up_rep l (seg, pend) (Q_publish t, n, sent) (cpc, n', got) s"
  shows "upro_step l s (server_put l s) \<and>
     up_rep l (seg_store (of_int fifo) seg (of_int fifo) (bytes_of_u32 (n + 8)), pend) (Q_send, n + 8, sent @ [t]) (cpc, n', got) (server_put l s)"
proof -
  note R = up_rep_facts [OF assms]
  have h: "holds_stamp l t s" using R(14) by simp
  note fill = filling_facts [OF assms h]
  define s' where "s' = server_put l s"
  define seg' where "seg' = seg_store (of_int fifo) seg (of_int fifo + of_nat 0) (bytes_of_u32 (n + 8))"
  have f: "u_fifo s' = (u_fifo s)\<lparr>kf_in := n + 8\<rparr>"
    using server_put_fifo [OF index_shape [OF R(4)] fill(4)] R(7) by (simp add: s'_def)
  note fs = field_store [OF R(5) seg'_def]
  have "ring_header seg' (header_part l cpc s')" using fs(1) fill(1) f by (simp add: header_part_def)
  moreover have "\<forall>i<4096. seg' (24 + i) = ring_part l Q_send s' i"
    using fs(4) R(6,7,11) server_put_ring [OF index_shape [OF R(4)] fill(4) _ R(3)] h
    by (simp add: s'_def ring_part_def seg_store_def holds_stamp_def)
  moreover have "u_sent s' = sent @ [t]" using h R(9) by (simp add: s'_def server_put_sent holds_stamp_def)
  ultimately have "up_rep l (seg', pend) (Q_send, n + 8, sent @ [t]) (cpc, n', got) s'"
    using R fill f by (simp add: up_rep_def s'_def)
  moreover have "upro_step l s s'" unfolding s'_def using h by (intro u_in) (simp add: holds_stamp_def)
  ultimately show ?thesis by (simp add: s'_def seg'_def)
qed

lemma server_now_sim:
  assumes "up_inv fifo fifo' l s" and "up_rep l (seg, pend) (Q_now, n, sent) (cpc, n', got) s"
  shows "\<exists>s'. upro_step l s s' \<and> up_rep l (seg, pend) (Q_fields 0 t, n, sent) (cpc, n', got) s'"
proof -
  define s' where "s' = s\<lparr>u_smem := store (u_smem s) (at_stamp l) (bytes_of_u64 t), u_pc := U_in\<rparr>"
  have "upro_step l s s'" unfolding s'_def using assms(2) by (intro u_now) (simp add: up_rep_def)
  moreover have "holds_stamp l t s'"
    using load_store_same [of "bytes_of_u64 t" "u_smem s" "at_stamp l"] by (simp add: s'_def holds_stamp_def)
  ultimately show ?thesis using assms(2) by (intro exI [of _ s']) (auto simp: up_rep_def s'_def ring_part_def)
qed

lemma up_server_sim:
  assumes inv: "up_inv fifo fifo' l s" and rep: "up_rep l ob p k s" and auto: "up_server_auto fifo idx p e = Some p'"
    and obj: "uintr_obj (of_int fifo) ob e = Some ob'"
  shows "\<exists>s'. (upro_step l)\<^sup>*\<^sup>* s s' \<and> up_rep l ob' p' k s'"
proof -
  obtain seg pend spc n sent cpc n' got c r where [simp]: "ob = (seg, pend)" "p = (spc, n, sent)" "k = (cpc, n', got)" "e = (c, r)"
    by (cases ob; cases p; cases k; cases e)
  note rep' = rep [simplified]
  note R = up_rep_facts [OF inv rep']
  have load: "dat r = seg_read seg off m \<and> ob' = (seg, pend)" if "c = Ipc (Shm_load fifo off m)" "off + m \<le> 24" for off m
    using that obj obj_load_field [of fifo seg pend off m r ob'] by simp
  have stay: "\<exists>s'. (upro_step l)\<^sup>*\<^sup>* s s' \<and> up_rep l ob' (pc, n, sent) k s'"
    if "ob' = (seg, pend)" "in_ring pc = in_ring spc" "up_server_place l pc s" for pc
    using that R by (intro exI [of _ s]) (simp add: up_rep_def ring_part_same [of pc spc])
  show ?thesis
  proof (cases spc)
    case Q_now
    then show ?thesis using server_now_sim [OF inv, of seg pend n sent cpc n' got "now_value (nums r ! 0) (nums r ! 1)"] rep' auto obj
      by (auto split: if_splits)
  next
    case (Q_fields i t)
    have c: "c = Ipc (Shm_load fifo (fst (put_loads n ! i)) 4)" using auto Q_fields by (simp split: if_splits)
    have i: "i < 7" "holds_stamp l t s" using R(14) Q_fields by auto
    have "seg_read seg (fst (put_loads n ! i)) 4 = bytes_of_u32 (snd (put_loads n ! i))" "fst (put_loads n ! i) + 4 \<le> 24"
      using header_field(1) [OF R(5,16,17), of "fst (put_loads n ! i)" "snd (put_loads n ! i)"] put_loads_fields [OF i(1), of n]
        filling_facts(3) [OF inv rep' i(2)] R(18,19) by auto
    then have "ob' = (seg, pend)" "p' = (if i < 6 then Q_fields (Suc i) t else Q_ptr t, n, sent)"
      using load [OF c] auto c Q_fields by simp_all
    then show ?thesis using stay [of "if i < 6 then Q_fields (Suc i) t else Q_ptr t"] Q_fields i by (cases "i < 6") auto
  next
    case (Q_ptr t)
    then have h: "holds_stamp l t s" and c: "c = Ipc (Shm_load fifo 16 8)" using R(14) auto by (simp_all split: if_splits)
    then have "dat r = bytes_of_u64 (kf_data (u_fifo s))" "ob' = (seg, pend)"
      using load [OF c] R(5) filling_facts(1) [OF inv rep' h] by (simp_all add: ring_header_def header_part_def)
    then show ?thesis using stay [of "Q_copy (kf_data (u_fifo s)) 0 t"] auto c h Q_ptr by simp
  next
    case (Q_copy d j t)
    then show ?thesis
      using stay [of "Q_index t"] load [of 16 8] server_byte_sim [OF inv, of seg pend d j t n sent cpc n' got] rep' R(14) auto obj
      by (cases "j < 8") (auto simp: obj_store split: if_splits)
  next
    case (Q_index t)
    then show ?thesis using stay [of "Q_publish t"] load [of 0 4] auto R(5,14,18) by (auto simp: ring_header_def split: if_splits)
  next
    case (Q_publish t)
    then show ?thesis using server_publish_sim [OF inv, of seg pend t n sent cpc n' got] rep' auto obj
      by (auto simp: obj_store split: if_splits)
  next
    case Q_send
    then have "c = Proc (Senduipi idx)" "p' = (Q_spin, n, sent)" using auto by (simp_all split: if_splits)
    moreover from this have "ob' = (seg, True)" using obj by (simp add: uintr_obj_def)
    moreover have i: "\<not> u_pending s" using R(4,14) Q_send by (simp add: index_inv_def)
    ultimately show ?thesis using R client_idle [OF R(15) i] Q_send u_send [of s l]
      by (intro exI [of _ "s\<lparr>u_pending := True, u_pc := U_spin\<rparr>"]) (auto simp: up_rep_def ring_part_def)
  next
    case Q_spin
    then show ?thesis using stay [of Q_spin_out] load [of 0 4] auto R(5,14,18) by (auto simp: ring_header_def split: if_splits)
  next
    case Q_spin_out
    then have c: "c = Ipc (Shm_load fifo 4 4)" using auto by (simp split: if_splits)
    then have v: "dat r = bytes_of_u32 n'" "ob' = (seg, pend)" using load [OF c] R(5,19) by (simp_all add: ring_header_def)
    show ?thesis
    proof (cases "n' = n")
      case True
      then have "upro_step l s (s\<lparr>u_pc := U_now\<rparr>)" using R(7,8,14) Q_spin_out by (intro u_empty) (simp_all add: kfifo_len_def)
      then show ?thesis using R(5-13,15) auto c v True Q_spin_out
        by (intro exI [of _ "s\<lparr>u_pc := U_now\<rparr>"]) (auto simp: up_rep_def ring_part_def)
    next
      case False
      then show ?thesis using stay [of Q_spin] auto c v R(14) Q_spin_out by simp
    qed
  qed (use R(14) in simp)
qed

lemma server_waits: "index_inv l s \<Longrightarrow> u_pending s \<Longrightarrow> up_server_place l spc s \<Longrightarrow> in_ring spc = [] \<and> u_pc s = U_spin"
  by (cases spc) (auto simp: index_inv_def holds_stamp_def)

lemma server_place_handled: "up_server_place l spc s \<Longrightarrow> u_pc s = U_spin \<Longrightarrow> up_server_place l spc (ui_handler l s)"
  by (cases spc) (auto simp: holds_stamp_def)

lemma ring_slice_Suc: "ring_slice s (Suc k) = ring_slice s k @ [u_ring s (unat (kf_out (u_fifo s) AND 4095) + k)]"
  by (simp add: ring_slice_def)

text \<open>While the handler runs, the server waits and the ring holds one timestamp.\<close>

lemma handling_facts:
  assumes "up_inv fifo fifo' l s" and "up_rep l (seg, pend) (spc, n, sent) (cpc, n', got) s" and "u_pending s"
  shows "n = n' + 8" "\<forall>i<4096. seg (24 + i) = u_ring s i" "u_pc s = U_spin" "kfifo_len (u_fifo s) = 8" "in_ring spc = []"
proof -
  note R = up_rep_facts [OF assms(1,2)]
  show "u_pc s = U_spin" "in_ring spc = []" using server_waits [OF R(4) assms(3) R(14)] by simp_all
  then show "n = n' + 8" "\<forall>i<4096. seg (24 + i) = u_ring s i" "kfifo_len (u_fifo s) = 8"
    using R(4,6,7,8) assms(3) by (auto simp: index_inv_def kfifo_len_def ring_part_def seg_store_def algebra_simps)
qed

lemma client_byte_sim:
  assumes "up_inv fifo fifo' l s" and "up_rep l (seg, pend) (spc, n, sent) (K_copy bs, n', got) s" and "length bs < 8"
    and "uintr_obj (of_int fifo') (seg, pend) (Ipc (Shm_load (uint (slot_address (at_client l) n')) (length bs) 1), r) = Some ob'"
  shows "ob' = (seg, pend) \<and> up_client_place (K_copy (bs @ [loaded r])) s"
proof -
  note R = up_rep_facts [OF assms(1,2)]
  let ?o = "unat (n' AND 4095) + length bs"
  have o: "?o < 4096" using aligned_offset [OF R(12)] assms(3) by simp
  have "dat r = seg_read seg (24 + ?o) 1 \<and> ob' = (seg, pend)"
    using obj_load [OF assms(4), of "24 + ?o"] o R(2) by (simp add: slot_address_def)
  then have "loaded r = u_ring s ?o" "ob' = (seg, pend)"
    using handling_facts(2) [OF assms(1,2)] R(15) o by (auto simp: seg_read_def)
  then show ?thesis using R(8,15) assms(3) by (simp add: ring_slice_Suc)
qed

lemma client_point_sim:
  assumes "up_inv fifo fifo' l s" and "up_rep l (seg, pend) p (K_point, n', got) s"
  shows "up_rep l (seg_store (of_int fifo') seg (of_int fifo' + 16) (bytes_of_u64 (at_client l)), pend) p (K_fields 0, n', got) s"
proof -
  obtain spc n sent where [simp]: "p = (spc, n, sent)" by (cases p)
  note R = up_rep_facts [OF assms(1) assms(2) [simplified]]
  define seg' where "seg' = seg_store (of_int fifo') seg (of_int fifo' + of_nat 16) (bytes_of_u64 (at_client l))"
  note fs = field_store [OF R(5) seg'_def]
  have "ring_header seg' (header_part l (K_fields 0) s)" using fs(3) by (simp add: header_part_def)
  moreover have "\<forall>i<4096. seg' (24 + i) = ring_part l spc s i" using fs(4) R(6) by simp
  ultimately have "up_rep l (seg', pend) p (K_fields 0, n', got) s" using R by (simp add: up_rep_def)
  then show ?thesis by (simp add: seg'_def)
qed

lemma client_publish_sim:
  assumes "up_inv fifo fifo' l s" and "up_rep l (seg, pend) (spc, n, sent) (K_publish bs, n', got) s"
  shows "upro_step l s (ui_handler l s) \<and>
     up_rep l (seg_store (of_int fifo') seg (of_int fifo' + 4) (bytes_of_u32 (n' + 8)), pend) (spc, n, sent)
       (K_idle, n' + 8, got @ [u64_of_bytes bs]) (ui_handler l s)"
proof -
  note R = up_rep_facts [OF assms]
  have b: "u_pending s" "bs = ring_slice s 8" using R(15) by simp_all
  note hand = handling_facts [OF assms b(1)]
  define s' where "s' = ui_handler l s"
  define seg' where "seg' = seg_store (of_int fifo') seg (of_int fifo' + of_nat 4) (bytes_of_u32 (n' + 8))"
  have f: "u_fifo s' = (u_fifo s)\<lparr>kf_data := at_client l, kf_out := n' + 8\<rparr>"
    using hand(1) R(7) by (simp add: s'_def ui_handler_fifo)
  have al: "aligned (kf_out (u_fifo s))" using R(8,12) by simp
  note h = handler_slice [OF index_shape [OF R(4)] hand(4) R(3) al]
  note fs = field_store [OF R(5) seg'_def]
  have "ring_header seg' (header_part l K_idle s')" using fs(2) f by (simp add: header_part_def)
  moreover have "\<forall>i<4096. seg' (24 + i) = ring_part l spc s' i"
    using fs(4) hand(2,5) h(2) by (simp add: s'_def ring_part_def seg_store_def)
  moreover have "u_got s' = got @ [u64_of_bytes bs]" using h(1) b R(10) by (simp add: s'_def)
  moreover have "up_server_place l spc s'" unfolding s'_def by (rule server_place_handled [OF R(14) hand(3)])
  ultimately have "up_rep l (seg', pend) (spc, n, sent) (K_idle, n' + 8, got @ [u64_of_bytes bs]) s'"
    using R f by (simp add: up_rep_def s'_def)
  moreover have "upro_step l s s'" unfolding s'_def using b(1) by (rule u_interrupt)
  ultimately show ?thesis by (simp add: s'_def seg'_def)
qed

lemma up_client_sim:
  assumes inv: "up_inv fifo fifo' l s" and rep: "up_rep l ob p k s" and auto: "up_client_auto fifo' k e = Some k'"
    and obj: "uintr_obj (of_int fifo') ob e = Some ob'"
  shows "\<exists>s'. (upro_step l)\<^sup>*\<^sup>* s s' \<and> up_rep l ob' p k' s'"
proof -
  obtain seg pend spc n sent cpc n' got c r where [simp]: "ob = (seg, pend)" "p = (spc, n, sent)" "k = (cpc, n', got)" "e = (c, r)"
    by (cases ob; cases p; cases k; cases e)
  note rep' = rep [simplified]
  note R = up_rep_facts [OF inv rep']
  have load: "dat r = seg_read seg off m \<and> ob' = (seg, pend)" if "c = Ipc (Shm_load fifo' off m)" "off + m \<le> 24" for off m
    using that obj obj_load_field [of fifo' seg pend off m r ob'] by simp
  have stay: "\<exists>s'. (upro_step l)\<^sup>*\<^sup>* s s' \<and> up_rep l ob' p (pc, n', got) s'"
    if "ob' = (seg, pend)" "pc \<noteq> K_idle" "cpc \<notin> {K_idle, K_point}" "pc \<noteq> K_point" "up_client_place pc s" for pc
    using that R by (intro exI [of _ s]) (auto simp: up_rep_def header_part_def)
  show ?thesis
  proof (cases cpc)
    case K_idle
    then have "c = Proc Uintr_deliver" "k' = (K_point, n', got)" using auto by (simp_all split: if_splits)
    moreover from this have "ob' = (seg, False)" "pend" using obj by (simp_all add: uintr_obj_def split: if_splits)
    ultimately show ?thesis using R K_idle by (intro exI [of _ s]) (auto simp: up_rep_def header_part_def)
  next
    case K_point
    then show ?thesis using client_point_sim [OF inv, of seg pend p n' got] rep' auto obj R(2)
      by (auto simp: obj_store split: if_splits)
  next
    case (K_fields i)
    have c: "c = Ipc (Shm_load fifo' (fst (take_loads n' ! i)) 4)" using auto K_fields by (simp split: if_splits)
    have i: "i < 8" "u_pending s" using R(15) K_fields by auto
    have "seg_read seg (fst (take_loads n' ! i)) 4 = bytes_of_u32 (snd (take_loads n' ! i))" "fst (take_loads n' ! i) + 4 \<le> 24"
      using header_field(1) [OF R(5,16,17), of "fst (take_loads n' ! i)" "snd (take_loads n' ! i)"] take_loads_fields [OF i(1), of n']
        handling_facts(1) [OF inv rep' i(2)] R(18,19) by auto
    then have "ob' = (seg, pend)" "k' = (if i < 7 then K_fields (Suc i) else K_ptr, n', got)"
      using load [OF c] auto c K_fields by simp_all
    then show ?thesis using stay [of "if i < 7 then K_fields (Suc i) else K_ptr"] K_fields i by (cases "i < 7") auto
  next
    case K_ptr
    then show ?thesis using stay [of "K_copy []"] load [of 16 8] auto R(2,5,15)
      by (auto simp: ring_slice_def ring_header_def header_part_def split: if_splits)
  next
    case (K_copy bs)
    then show ?thesis using stay [of "K_copy (bs @ [loaded r])"] stay [of "K_index bs"] load [of 16 8] R(2,15) rep' auto obj
        client_byte_sim [OF inv, of seg pend spc n sent bs n' got r ob']
      by (cases "length bs < 8") (auto split: if_splits)
  next
    case (K_index bs)
    then show ?thesis using stay [of "K_publish bs"] load [of 4 4] auto R(5,15,19) by (auto simp: ring_header_def split: if_splits)
  next
    case (K_publish bs)
    then show ?thesis using client_publish_sim [OF inv, of seg pend spc n sent bs n' got] rep' auto obj
      by (auto simp: obj_store split: if_splits)
  qed (use R(15) in simp)
qed

interpretation uintr_programs: program_pair "up_init fifo fifo' l" "upro_step l" "up_inv fifo fifo' l"
    "up_server_auto fifo idx" "up_client_auto fifo'" "uintr_obj (of_int fifo)" "uintr_obj (of_int fifo')" "up_rep l"
  for fifo fifo' idx l
  by unfold_locales (fact up_inv_init up_inv_step up_server_sim up_client_sim)+

section \<open>What arrives\<close>

text \<open>The bytes the handler has copied out of the ring, and the timestamps they make up.\<close>

fun byte_copied :: "event \<Rightarrow> u8 list" where
  "byte_copied (c, r) = (case c of Ipc (Shm_load p off k) \<Rightarrow> if k = 1 then [loaded r] else [] | _ \<Rightarrow> [])"

definition handled_stamps :: "event list \<Rightarrow> u64 list" where
  "handled_stamps es = chunks (concat (map byte_copied es))"

fun in_hand :: "up_client_pc \<Rightarrow> u8 list" where
  "in_hand (K_copy bs) = bs"
| "in_hand (K_index bs) = bs"
| "in_hand (K_publish bs) = bs"
| "in_hand pc = []"

definition up_copying :: "up_client \<Rightarrow> event list \<Rightarrow> bool" where
  "up_copying = (\<lambda>(pc, n, got) es. pc = K_lost \<or>
     (\<exists>full. 8 dvd length full \<and> chunks full = got \<and> concat (map byte_copied es) = full @ in_hand pc) \<and>
     length (in_hand pc) \<le> 8 \<and> (\<forall>bs. pc = K_index bs \<or> pc = K_publish bs \<longrightarrow> length bs = 8))"

lemma up_client_copied:
  assumes "path (up_client_auto fifo) (K_idle, 0, []) es = Some k"
  shows "up_copying k es"
  using assms
proof (rule path_inv [where I = up_copying, rotated])
  fix k es e k' assume I: "up_copying k es" and step: "up_client_auto fifo k e = Some k'"
  show "up_copying k' (es @ [e])"
  proof (cases "fst k = K_lost")
    case True
    then show ?thesis using step by (cases k; cases e) (auto simp: up_copying_def)
  next
    case False
    obtain pc n got c r where [simp]: "k = (pc, n, got)" "e = (c, r)" by (cases k; cases e)
    obtain full where full: "8 dvd length full" "chunks full = got" "concat (map byte_copied es) = full @ in_hand pc"
      and len: "length (in_hand pc) \<le> 8" "\<And>bs. pc = K_index bs \<or> pc = K_publish bs \<Longrightarrow> length bs = 8"
      using I False by (auto simp: up_copying_def)
    have more: "8 dvd length (full @ bs)" "chunks (full @ bs) = got @ [u64_of_bytes bs]" if "length bs = 8" for bs
      using full that by (simp_all add: chunks_append)
    have "up_copying k' (es @ [e])" if "pc = K_publish bs" for bs
      using step that full more [of bs] len unfolding up_copying_def
      by (auto intro!: exI [of _ "full @ bs"] split: if_splits)
    then show ?thesis using step full len False
      by (cases pc) (auto simp: up_copying_def split: if_splits intro!: exI [of _ full])
  qed
qed (auto simp: up_copying_def)

definition up_taken :: "up_server \<Rightarrow> u64 list" where
  "up_taken p = snd (snd p) @ (case fst p of
     Q_fields k t \<Rightarrow> [t] | Q_ptr t \<Rightarrow> [t] | Q_copy d j t \<Rightarrow> [t] | Q_index t \<Rightarrow> [t] | Q_publish t \<Rightarrow> [t] | _ \<Rightarrow> [])"

lemma up_server_taken:
  assumes "path (up_server_auto fifo idx) (Q_now, 0, []) es = Some p"
  shows "fst p = Q_lost \<or> up_taken p = concat (map reading es)"
  using assms
proof (rule path_inv [where I = "\<lambda>p es. fst p = Q_lost \<or> up_taken p = concat (map reading es)", rotated])
  fix p es e p' assume "fst p = Q_lost \<or> up_taken p = concat (map reading es)" and "up_server_auto fifo idx p e = Some p'"
  then show "fst p' = Q_lost \<or> up_taken p' = concat (map reading (es @ [e]))"
    by (cases p; cases e; cases "fst p") (auto simp: up_taken_def split: if_splits)
qed (simp add: up_taken_def)

lemma up_delivers:
  assumes inv: "up_inv fifo fifo' l s" and rep: "up_rep l ob p k s" and cop: "up_copying k es"
  shows "\<exists>post. length post \<le> 1 \<and> length (up_taken p) = length (handled_stamps es @ post) \<and>
     (at_server l = at_client l \<longrightarrow> up_taken p = handled_stamps es @ post)"
proof -
  obtain seg pend spc n sent cpc n' got where [simp]: "ob = (seg, pend)" "p = (spc, n, sent)" "k = (cpc, n', got)"
    by (cases ob; cases p; cases k)
  have ix: "index_inv l s" and same: "at_server l = at_client l \<Longrightarrow> same_inv l s" using inv by (auto simp: up_inv_def)
  have [simp]: "u_sent s = sent" "u_got s = got" and al: "aligned (kf_out (u_fifo s))"
    and sp: "up_server_place l spc s" and cp: "up_client_place cpc s" using rep by (auto simp: up_rep_def)
  obtain full where "8 dvd length full" "chunks full = got" "concat (map byte_copied es) = full @ in_hand cpc"
    and len: "length (in_hand cpc) \<le> 8" using cop cp by (auto simp: up_copying_def)
  then have starts: "handled_stamps es = got @ chunks (in_hand cpc)" by (simp add: handled_stamps_def chunks_append)
  show ?thesis
  proof (cases "u_pending s")
    case False
    then have "handled_stamps es = got" using client_idle [OF cp] starts by simp
    moreover have "\<exists>zs. sent = got @ zs" if "at_server l = at_client l"
      using same [OF that] by (auto simp: same_inv_def split: if_splits)
    then have "at_server l = at_client l \<longrightarrow> up_taken p = got @ drop (length got) (up_taken p)"
      by (auto simp: up_taken_def)
    ultimately show ?thesis using ix sp False
      by (intro exI [of _ "drop (length got) (up_taken p)"], cases spc)
        (auto simp: index_inv_def holds_stamp_def up_taken_def)
  next
    case True
    then have spin: "u_pc s = U_spin" "kfifo_len (u_fifo s) = 8" "length sent = Suc (length got)" "up_taken p = sent"
      using ix sp server_waits [OF ix True sp] by (cases spc; auto simp: index_inv_def holds_stamp_def up_taken_def)+
    have got: "sent = got @ [last sent] \<and> ring_slice s 8 = bytes_of_u64 (last sent)" if "at_server l = at_client l"
      using same [OF that] spin ring_items_slice [OF spin(2) al] singles_inject by (auto simp: same_inv_def)
    have hand: "in_hand cpc = ring_slice s 8" if "length (in_hand cpc) = 8" using that cp by (cases cpc) auto
    show ?thesis
    proof (cases "length (in_hand cpc) = 8")
      case 8: True
      then show ?thesis using starts spin got hand by (intro exI [of _ "[]"]) auto
    next
      case False
      then have "handled_stamps es = got" using starts len by simp
      then show ?thesis using spin got by (intro exI [of _ "[last sent]"]) simp
    qed
  qed
qed

text \<open>What the server's initialisation leaves in the segment, whatever was there before.\<close>

definition fresh_ring :: "u64 \<Rightarrow> kfifo" where
  "fresh_ring buffer = \<lparr>kf_in = 0, kf_out = 0, kf_mask = 4095, kf_esize = 1, kf_data = buffer\<rparr>"

lemma fresh_ring_init: "kfifo_init f0 buffer 4096 1 = Some (0, fresh_ring buffer)"
  by (simp add: kfifo_init_def fresh_ring_def Let_def is_power_of_2_def kfifo.defs)

lemma shared_init_fresh:
  assumes "shared_kfifo_init fifo buffer 4096 1 u = (x, u')"
    and "path (uintr_obj (of_int fifo)) (seg0, pend0) (events u u') = Some (seg, pend)"
  shows "x = Inr 0 \<and> pend = pend0 \<and> ring_header seg (fresh_ring buffer)"
proof -
  let ?b = "of_int fifo :: u64"
  have run: "x = Inr 0" "seg = seg_store ?b (seg_store ?b (seg_store ?b (seg_store ?b (seg_store ?b seg0 ?b (bytes_of_u32 0))
      (?b + 4) (bytes_of_u32 0)) (?b + 12) (bytes_of_u32 1)) (?b + 16) (bytes_of_u64 buffer)) (?b + 8) (bytes_of_u32 4095)" "pend = pend0"
    using assms
    by (auto simp: shared_kfifo_init_def is_power_of_2_def store_u32_def store_ptr_def prog_simps sys_def Let_def events_def uintr_obj_def)
  have at: "seg_store ?b sg (?b + a) bs i = (if off \<le> i \<and> i < off + length bs then bs ! (i - off) else sg i)"
    if "a = of_nat off" "i < 4120" "off < 4120" "length bs \<le> 8" for sg a bs i off
    using seg_store_at [of i off bs ?b sg] that by simp
  note store_rules = at [where off = 0 and a = 0, simplified] at [where off = 4 and a = 4, simplified] at [where off = 8 and a = 8, simplified]
    at [where off = 12 and a = 12, simplified] at [where off = 16 and a = 16, simplified]
  show ?thesis using run(1,3) unfolding run(2)
    by (auto simp: ring_header_def fresh_ring_def list_eq_iff_nth_eq store_rules)
qed

text \<open>
  C4: Server loop and interrupt handler on one ring.  Take any run of the server's loop and any sequence of
  runs of the client's handler, whose single accesses to fields and bytes are in some interleaving those
  of one segment, as the server's initialisation left it, the handler entered only when an interrupt is posted.
  Then neither fails: in particular the handler never copies more than the eight bytes of
  \<open>bench.single_start\<close>, wherever the two processes have the segment.  It takes out one value for every
  timestamp, up to one under way; and if both have the segment at the same address, these values
  are the server's timestamps, complete and in order.
\<close>

theorem uintr_programs_deliver:
  assumes "mapped_at fifo fifo' l" and "shared_kfifo_init fifo (of_int fifo + 24) 4096 1 u = (x, u')"
    and "path (uintr_obj (of_int fifo)) (seg0, False) (events u u') = Some (seg, False)"
    and "forever_c m (uintr_server_round n fifo idx) () w = ((r, w') :: (halt + unit) \<times> world)"
    and "forever_c m' (take_interrupt fifo') start v = ((r', v') :: (halt + unit) \<times> world)"
    and "joint (uintr_obj (of_int fifo)) (uintr_obj (of_int fifo')) (seg, False) (events w w') (events v v') ob"
  defines "stamps \<equiv> concat (map reading (events w w'))" and "starts \<equiv> handled_stamps (events v v')"
  shows "r = Inl Running \<and> r' = Inl Running \<and>
     (\<exists>post. length post \<le> 1 \<and> length stamps = length (starts @ post) \<and>
        (at_server l = at_client l \<longrightarrow> stamps = starts @ post))"
proof -
  have fresh: "ring_header seg (fresh_ring (at_server l))"
    using shared_init_fresh [OF assms(2,3)] assms(1) by (simp add: mapped_at_def)
  define s where "s = \<lparr>u_fifo = fresh_ring (at_server l), u_ring = (\<lambda>i. seg (24 + i)), u_smem = (\<lambda>_. 0), u_cmem = (\<lambda>_. 0),
    u_pc = U_now, u_pending = False, u_sent = [], u_got = []\<rparr>"
  have init: "up_init fifo fifo' l s" using assms(1) fresh_ring_init by (auto simp: up_init_def upro_init_def s_def)
  have start: "up_rep l (seg, False) (Q_now, 0, []) (K_idle, 0, []) s"
    using fresh by (simp add: up_rep_def s_def fresh_ring_def header_part_def ring_part_def seg_store_def aligned_def)
  from uintr_programs.programs_reach [OF uintr_server_follows [where J = "\<lambda>_ _. False"] assms(4)
      uintr_client_follows [where J = "\<lambda>_ _. False"] assms(5,6) start init]
  obtain p k s' where paths: "path (up_server_auto fifo idx) (Q_now, 0, []) (events w w') = Some p"
      "path (up_client_auto fifo') (K_idle, 0, []) (events v v') = Some k"
    and inv: "up_inv fifo fifo' l s'" and rep: "up_rep l ob p k s'"
    and outcomes: "outcome up_server_halt (\<lambda>_ _. False) r p" "outcome up_client_halt (\<lambda>_ _. False) r' k"
    by blast
  have "fst p \<noteq> Q_lost" "fst k \<noteq> K_lost" using rep by (cases ob; cases p; cases k; auto simp: up_rep_def)+
  then have "r = Inl Running" "r' = Inl Running" and "up_taken p = stamps"
    using outcomes up_server_taken [OF paths(1)]
    by (auto simp: up_server_halt_def up_client_halt_def stamps_def split: sum.splits)
  then show ?thesis using up_delivers [OF inv rep up_client_copied [OF paths(2)]] unfolding starts_def by simp
qed

text \<open>One message through a fresh ring that both processes have at the same address.\<close>

definition sample_seg :: "nat \<Rightarrow> u8" where
  "sample_seg = fold (\<lambda>(a, bs) seg. seg_store 65512 seg a bs) [(65512, bytes_of_u32 0), (65516, bytes_of_u32 0),
     (65524, bytes_of_u32 1), (65528, bytes_of_u64 65536), (65520, bytes_of_u32 4095)] (\<lambda>_. 0)"

definition data_reply :: "u8 list \<Rightarrow> reply" where
  "data_reply bs = \<lparr>ret = 0, err = 0, dat = bs, nums = [], addrs = []\<rparr>"

definition sample_up_server :: world where
  "sample_up_server = \<lparr>w_os = (\<lambda>calls c. case c of
       Ipc (Shm_load _ off _) \<Rightarrow> data_reply (if off = 8 then bytes_of_u32 4095 else if off = 12 then bytes_of_u32 1
         else if off = 16 then bytes_of_u64 65536 else bytes_of_u32 (if Proc (Senduipi 3) \<in> set calls then 8 else 0))
     | Misc Timespec_get \<Rightarrow> \<lparr>ret = 1, err = 0, dat = [], nums = [3, 7], addrs = []\<rparr> | _ \<Rightarrow> ok_reply 0),
     w_calls = [], w_errno = 0\<rparr>"

definition sample_up_client :: world where
  "sample_up_client = \<lparr>w_os = (\<lambda>calls c. case c of
       Ipc (Shm_load p off k) \<Rightarrow> data_reply (if k = 1 then [bytes_of_u64 (now_value 3 7) ! off] else if off = 8 then bytes_of_u32 4095
         else if off = 12 then bytes_of_u32 1 else if off = 16 then bytes_of_u64 65536
         else bytes_of_u32 (if off = 0 then 8 else 0))
     | _ \<Rightarrow> ok_reply 0), w_calls = [], w_errno = 0\<rparr>"

lemmas ring_run_defs =
  load_u32_def load_ptr_def store_u32_def store_ptr_def shared_kfifo_len_def geometry_def Let_def

lemma load_bytes_eight:
  "bind_c (load_bytes p 0 8) k = bind_c (sys (Ipc (Shm_load p 0 1))) (\<lambda>r0. bind_c (sys (Ipc (Shm_load p 1 1))) (\<lambda>r1.
     bind_c (sys (Ipc (Shm_load p 2 1))) (\<lambda>r2. bind_c (sys (Ipc (Shm_load p 3 1))) (\<lambda>r3.
     bind_c (sys (Ipc (Shm_load p 4 1))) (\<lambda>r4. bind_c (sys (Ipc (Shm_load p 5 1))) (\<lambda>r5.
     bind_c (sys (Ipc (Shm_load p 6 1))) (\<lambda>r6. bind_c (sys (Ipc (Shm_load p 7 1))) (\<lambda>r7.
     k [loaded r0, loaded r1, loaded r2, loaded r3, loaded r4, loaded r5, loaded r6, loaded r7]))))))))"
  by (simp add: eval_nat_numeral bind_assoc)

lemma upt_eight: "[0..<8] = [0, 1, 2, 3, 4, 5, 6, 7 :: nat]"
  by (simp add: eval_nat_numeral)

lemma store_bytes_eight:
  "bind_c (store_bytes p 0 (map f [0..<8])) k = bind_c (sys (Ipc (Shm_store p 0 [f 0]))) (\<lambda>_.
     bind_c (sys (Ipc (Shm_store p 1 [f 1]))) (\<lambda>_. bind_c (sys (Ipc (Shm_store p 2 [f 2]))) (\<lambda>_.
     bind_c (sys (Ipc (Shm_store p 3 [f 3]))) (\<lambda>_. bind_c (sys (Ipc (Shm_store p 4 [f 4]))) (\<lambda>_.
     bind_c (sys (Ipc (Shm_store p 5 [f 5]))) (\<lambda>_. bind_c (sys (Ipc (Shm_store p 6 [f 6]))) (\<lambda>_.
     bind_c (sys (Ipc (Shm_store p 7 [f 7]))) (\<lambda>_. k ()))))))))"
  by (simp add: eval_nat_numeral prog_norm)

definition field_load :: "nat \<Rightarrow> call" where "field_load off = Ipc (Shm_load 65512 off 4)"

definition server_calls :: "call list" where
  "server_calls = Misc Timespec_get # map field_load [8, 0, 4, 0, 8, 12, 8] @ [Ipc (Shm_load 65512 16 8)] @
     map (\<lambda>i. Ipc (Shm_store 65536 i [bytes_of_u64 (now_value 3 7) ! i])) [0..<8] @
     [Ipc (Shm_load 65512 16 8), field_load 0, Ipc (Shm_store 65512 0 (bytes_of_u32 8)), Proc (Senduipi 3),
      field_load 0, field_load 4]"

lemma sample_up_server_run:
  "forever_c 1 (uintr_server_round 1 65512 3) () sample_up_server =
     ((Inl Running, sample_up_server\<lparr>w_calls := server_calls\<rparr>) :: (halt + unit) \<times> world)"
  by (simp add: uintr_server_round_def shared_kfifo_in_def shared_kfifo_unused_def shared_copy_in_def
      uintr_server_notify_def store_stamp store_bytes_eight ring_run_defs field_load_def server_calls_def upt_eight
      sample_up_server_def data_reply_def run_call run_end prog_norm)

definition handler_calls :: "call list" where
  "handler_calls = [Proc Uintr_deliver, Ipc (Shm_store 65512 16 (bytes_of_u64 65536))] @
     map field_load [0, 4, 0, 4, 4, 8, 12, 8] @ [Ipc (Shm_load 65512 16 8)] @
     map (\<lambda>i. Ipc (Shm_load 65536 i 1)) [0..<8] @
     [Ipc (Shm_load 65512 16 8), field_load 4, Ipc (Shm_store 65512 4 (bytes_of_u32 8))]"

lemma sample_up_client_run:
  "forever_c 1 (take_interrupt 65512) 0 sample_up_client =
     ((Inl Running, sample_up_client\<lparr>w_calls := handler_calls\<rparr>) :: (halt + unit) \<times> world)"
  by (simp add: take_interrupt_def ui_handler_code_def shared_kfifo_out_def shared_kfifo_out_peek_def shared_copy_out_def
      load_bytes_eight ring_run_defs field_load_def handler_calls_def upt_eight
      sample_up_client_def data_reply_def run_call run_end prog_norm)

lemma sample_up_init:
  "shared_kfifo_init 65512 (of_int 65512 + 24) 4096 1 sample_up_server = (Inr 0, sample_up_server\<lparr>w_calls :=
     map (\<lambda>(off, bs). Ipc (Shm_store 65512 off bs)) [(0, bytes_of_u32 0), (4, bytes_of_u32 0), (12, bytes_of_u32 1),
       (16, bytes_of_u64 65536), (8, bytes_of_u32 4095)]\<rparr>)"
  by (simp add: shared_kfifo_init_def is_power_of_2_def store_u32_def store_ptr_def Let_def sample_up_server_def
      run_call run_end prog_norm)

lemma sample_up_fresh:
  "path (uintr_obj (of_int 65512)) ((\<lambda>_. 0), False) (events sample_up_server (sample_up_server\<lparr>w_calls :=
     map (\<lambda>(off, bs). Ipc (Shm_store 65512 off bs)) [(0, bytes_of_u32 0), (4, bytes_of_u32 0), (12, bytes_of_u32 1),
       (16, bytes_of_u64 65536), (8, bytes_of_u32 4095)]\<rparr>)) = Some (sample_seg, False)"
  by (simp add: events_def sample_up_server_def uintr_obj_def sample_seg_def)

lemma seg_loads_rec:
  "seg_loads base seg a []"
  "seg_loads base seg a (b # bs) \<longleftrightarrow> (unat (a - base) < 4120 \<longrightarrow> b = seg (unat (a - base))) \<and> seg_loads base seg (a + 1) bs"
  by (auto simp: seg_loads_def nth_Cons add.assoc split: nat.splits)

lemma joint_left_path:
  "path objA ob es = Some ob1 \<Longrightarrow> joint objA objB ob1 es' fs ob' \<Longrightarrow> joint objA objB ob (es @ es') fs ob'"
  by (induction es arbitrary: ob) (auto split: option.splits intro: joint_left)

lemma joint_right_path:
  "path objB ob fs = Some ob1 \<Longrightarrow> joint objA objB ob1 es fs' ob' \<Longrightarrow> joint objA objB ob es (fs @ fs') ob'"
  by (induction fs arbitrary: ob) (auto split: option.splits intro: joint_right)

lemma sample_bytes:
  "bytes_of_u64 65536 = [0, 0, 1, 0, 0, 0, 0, 0]" "bytes_of_u32 0 = [0, 0, 0, 0]" "bytes_of_u32 8 = [8, 0, 0, 0]"
  "bytes_of_u32 1 = [1, 0, 0, 0]" "bytes_of_u32 4095 = [255, 15, 0, 0]"
  by (simp_all add: bytes_of_u32_def bytes_of_u64_def upt_eight)

lemma seg_store_eval:
  "seg_store base seg a bs i = (if unat (base + of_nat i - a) < length bs then bs ! unat (base + of_nat i - a) else seg i)"
  by (simp add: seg_store_def store_def)

lemma unat_all_ones: "unat (- 1 :: u64) = 18446744073709551615"
  by (simp add: unsigned_minus_1_eq_mask mask_eq_exp_minus_1)

lemma sample_seg_fields [simplified]:
  "sample_seg 0 = 0" "sample_seg 1 = 0" "sample_seg 2 = 0" "sample_seg 3 = 0" "sample_seg 4 = 0" "sample_seg 5 = 0"
  "sample_seg 6 = 0" "sample_seg 7 = 0" "sample_seg 8 = 255" "sample_seg 9 = 15" "sample_seg 10 = 0" "sample_seg 11 = 0"
  "sample_seg 12 = 1" "sample_seg 13 = 0" "sample_seg 14 = 0" "sample_seg 15 = 0" "sample_seg 16 = 0" "sample_seg 17 = 0"
  "sample_seg 18 = 1" "sample_seg 19 = 0" "sample_seg 20 = 0" "sample_seg 21 = 0" "sample_seg 22 = 0" "sample_seg 23 = 0"
  by (simp_all add: sample_seg_def sample_bytes seg_store_eval unat_all_ones)

definition sample_full :: "nat \<Rightarrow> u8" where
  "sample_full = seg_store 65512 (fold (\<lambda>i seg. seg_store 65512 seg (65536 + of_nat i) [bytes_of_u64 (now_value 3 7) ! i])
     [0..<8] sample_seg) 65512 [8, 0, 0, 0]"

lemmas sample_eval =
  events_def sample_up_server_def sample_up_client_def data_reply_def field_load_def upt_eight
  uintr_obj_def sample_bytes seg_loads_rec seg_store_eval sample_seg_fields unat_eq_zero unat_all_ones

lemma sample_put: "path (uintr_obj 65512) (sample_seg, False)
    (take 21 (events sample_up_server (sample_up_server\<lparr>w_calls := server_calls\<rparr>))) = Some (sample_full, True)"
  by (simp add: sample_eval server_calls_def sample_full_def)

definition sample_taken :: "nat \<Rightarrow> u8" where
  "sample_taken = seg_store 65512 (seg_store 65512 sample_full 65528 [0, 0, 1, 0, 0, 0, 0, 0]) 65516 [8, 0, 0, 0]"

lemma sample_full_bytes: "i < 8 \<Longrightarrow> sample_full (24 + i) = bytes_of_u64 (now_value 3 7) ! i"
proof -
  assume "i < 8"
  then have "i \<in> set [0..<8]" by simp
  then show ?thesis unfolding upt_eight by (auto simp: sample_full_def sample_eval)
qed

lemma sample_full_fields:
  "sample_full 0 = 8" "sample_full 1 = 0" "sample_full 2 = 0" "sample_full 3 = 0"
  "sample_full 4 = 0" "sample_full 5 = 0" "sample_full 6 = 0" "sample_full 7 = 0"
  "sample_full 8 = 255" "sample_full 9 = 15" "sample_full 10 = 0" "sample_full 11 = 0"
  "sample_full 12 = 1" "sample_full 13 = 0" "sample_full 14 = 0" "sample_full 15 = 0"
  by (simp_all add: sample_full_def sample_eval)

lemma sample_take: "path (uintr_obj 65512) (sample_full, True)
    (events sample_up_client (sample_up_client\<lparr>w_calls := handler_calls\<rparr>)) = Some (sample_taken, False)"
  using sample_full_fields sample_full_bytes [of 0] sample_full_bytes [of 1] sample_full_bytes [of 2] sample_full_bytes [of 3]
    sample_full_bytes [of 4] sample_full_bytes [of 5] sample_full_bytes [of 6] sample_full_bytes [of 7]
  by (simp add: sample_eval handler_calls_def sample_taken_def)

lemma sample_empty: "path (uintr_obj 65512) (sample_taken, False)
    (drop 21 (events sample_up_server (sample_up_server\<lparr>w_calls := server_calls\<rparr>))) = Some (sample_taken, False)"
  using sample_full_fields by (simp add: sample_eval server_calls_def sample_taken_def)

lemma sample_up_joint: "joint (uintr_obj (of_int 65512)) (uintr_obj (of_int 65512)) (sample_seg, False)
    (events sample_up_server (sample_up_server\<lparr>w_calls := server_calls\<rparr>))
    (events sample_up_client (sample_up_client\<lparr>w_calls := handler_calls\<rparr>)) (sample_taken, False)"
  using joint_left_path [OF sample_put joint_right_path [OF sample_take joint_left_path [OF sample_empty joint_nil]]] by simp

theorem uintr_programs_deliver_witness:
  "\<exists>post. concat (map reading (events sample_up_server (sample_up_server\<lparr>w_calls := server_calls\<rparr>))) =
     handled_stamps (events sample_up_client (sample_up_client\<lparr>w_calls := handler_calls\<rparr>)) @ post \<and> length post \<le> 1"
proof -
  have "mapped_at 65512 65512 (sample_layout\<lparr>at_client := 65536\<rparr>)"
    using sample_layout_ok(2) by (simp add: mapped_at_def sample_layout_def)
  from uintr_programs_deliver [OF this sample_up_init sample_up_fresh sample_up_server_run sample_up_client_run sample_up_joint]
  show ?thesis by (auto simp: sample_layout_def)
qed

end
