(* ===== verification/Spec2Isabelle.thy ===== *)
theory Spec2Isabelle
  imports Kfifo Process Uintr_Pro Uintrfd Shm_Sync Pthread_Test Zeromq Cpp_Demos
    Shared_Memory_Runs Message_Queue Stream_Runs Eventfd_Runs Socket_Runs Uintr_Pro_Runs
begin

text \<open>
  A verification library for the inter-process communication benchmarks under \<^verbatim>\<open>source/\<close>.

  \<^bold>\<open>The program.\<close>  Every benchmark is a pair of programs, a server and a client, that exchange messages
  over one mechanism of the operating system and measure how long a message takes: TCP and
  UNIX-domain sockets, pipes, fifos, message queues, shared memory with a guard byte, a mapped file,
  a mutex and a condition variable, eventfd, plain signals, user interrupts (uintrfd), user
  interrupts together with a ring buffer in shared memory (uintr-pro), and ZeroMQ.  Most are started
  by a launcher that forks both.  All share \<^verbatim>\<open>source/common\<close>: the command line, the statistics, error
  exits, signals, sockets, the launcher and the ring buffer.  In the one-way variants the server
  writes a timestamp and the client takes the time it reads it; the client stops after about a tenth
  of a second.

  \<^bold>\<open>Two ways of modelling.\<close>  Sequential code is a function on a \<open>world\<close> (theory Syscalls): each system or
  library call is an event with a reply that an arbitrary operating system chooses, and a program
  halts (\<open>throw\<close>, \<open>exit\<close>, failed assertion, undefined behaviour) or returns.  Theorems about all worlds
  are theorems about every behaviour of the system; documented behaviour that a program relies on is
  a named hypothesis about the replies.  Loops without a bound of their own take the number of
  iterations to look at as an argument and end in \<open>Running\<close> when it is used up; statements about such
  loops hold for every number, or show that a sufficient number gives the result.  Two processes or
  threads side by side are an inductive step relation, with the program counters of both, the shared
  object between them (guard byte, queue, counter, pending signal or interrupt, mutex) and, where the
  order of accesses matters, byte-wise copies.  Theory Prelude has the locales for them:
  \<open>invariant_system\<close>, \<open>live_system\<close> (no deadlock), \<open>completable_system\<close> (the end stays reachable) and
  \<open>terminating_system\<close> (every run is bounded and every maximal run ends well), each proved once and
  interpreted for every protocol.

  \<^bold>\<open>Theories and sources.\<close>

  \<^item> Prelude: integer types, byte memory with \<open>load\<close>, \<open>store\<close> and \<open>memcpy\<close>, encodings, transition systems.

  \<^item> Kfifo (\<^verbatim>\<open>common/kfifo.h\<close>): the record \<open>kfifo\<close> with its 32-bit indices, and one definition per
    operation.  \<open>kfifo_in\<close> and \<open>kfifo_out\<close> refine enqueue and dequeue of a bounded queue of elements,
    for single calls and for every sequence of calls, across the wrap-around of the indices;
    \<open>kfifo_init\<close> establishes the invariant, and its ring fits the buffer exactly for powers of two.
    \<open>print_kfifo\<close> is with the programs, in Uintr_Pro.

  \<^item> Syscalls, Utility (\<^verbatim>\<open>common/utility.c\<close>), Benchmarks (\<^verbatim>\<open>common/benchmarks.c\<close>, with the double
    arithmetic of the clock and of the report), Options (\<^verbatim>\<open>common/arguments.c\<close> over a model of
    \<open>getopt_long\<close> and \<open>atoi\<close>), Signals (\<^verbatim>\<open>common/signals.c\<close> with the effect of the calls on the signal
    states of the processes of a group), Sockets (\<^verbatim>\<open>common/sockets.c\<close>), Process (\<^verbatim>\<open>common/process.c\<close>, \<^verbatim>\<open>common/parent.c\<close>,
    and the main programs of the launchers),
    Timed_Loop (the measuring loop that nine clients repeat).

  \<^item> Stream_Sockets (\<^verbatim>\<open>tcp\<close>, \<^verbatim>\<open>domain\<close>), Zeromq (\<^verbatim>\<open>zeromq\<close>): all functions up to \<open>main\<close>; which address a
    server takes, how long it serves, what a round measures.

  \<^item> Guard_Handshake (\<^verbatim>\<open>shm\<close>, \<^verbatim>\<open>mmap\<close>): programs, and the guard protocol with byte-wise copies: no torn
    or lost timestamp, every run of \<open>n\<close> messages completes.

  \<^item> Uintr_Pro (\<^verbatim>\<open>uintr-pro\<close>): the ring in two address spaces, each ring operation one step.  With equal
    addresses every timestamp arrives; with different ones the second message already goes astray.

  \<^item> Shared_Ring (\<^verbatim>\<open>common/kfifo.h\<close>, \<^verbatim>\<open>uintr-pro\<close>): the ring operations once more, access by access on shared
    memory, and on top of them the server's loop and main program and the client's interrupt handler.

  \<^item> Uintrfd (\<^verbatim>\<open>uintrfd\<close>), Eventfd (\<^verbatim>\<open>eventfd\<close>), Message_Queue (\<^verbatim>\<open>mq\<close>), Signal_Streams (\<^verbatim>\<open>signal\<close>, \<^verbatim>\<open>pipe\<close>,
    \<^verbatim>\<open>fifo\<close>), Shm_Sync (\<^verbatim>\<open>shm-sync\<close>): programs, and both sides on the shared object: delivery in order,
    counting, termination or absence of deadlock, and, for shm-sync, the deadlock.

  \<^item> Pthread_Test (\<^verbatim>\<open>other/pthread-test.c\<close>): trees of threads under a mutex add like the sequential loop;
    the interleaved version may lose its wake-up.

  \<^item> Socket_Demos (\<^verbatim>\<open>tcp/other\<close>, and \<^verbatim>\<open>other/fexp\<close> beside \<^verbatim>\<open>source\<close>): which address each server takes, and
    the zero written behind a full buffer.  Cpp_Demos (\<^verbatim>\<open>tcp/other/server.cpp\<close>, \<^verbatim>\<open>client.cpp\<close>): what the pair
    prints, and the full buffer that is printed without an end.

  \<^item> Trace_Logic: events, automata over them, a proof rule for each program construct that says that
    every run of a program follows an automaton, and joint runs of two programs on a shared object, with the
    locale \<open>program_pair\<close> that turns a simulation into a statement about all joint runs.

  \<^item> Shared_Memory_Runs, Message_Queue, Stream_Runs, Eventfd_Runs, Socket_Runs: the automata of both sides,
    the shared object (a segment of bytes, a System V queue, two pending signals with a stream, an eventfd
    counter, a connection), the simulation, and what joint runs of the loops measure.

  \<^item> Ring_Sides, Uintr_Pro_Runs: the same for uintr-pro.  The server's loop and the handler follow an
    automaton each; with every access to a field or a byte interleaved they simulate the step relation of
    Uintr_Pro, wherever the two processes have the segment.  The handler is entered by the event
    \<open>Uintr_deliver\<close>, which the shared object permits only when an interrupt is posted.

  \<^bold>\<open>How the two ways meet.\<close>  A run of a program leaves a list of calls with their replies.  Two runs are joint
  if some interleaving of their lists is a behaviour of the shared object.  For shm, mmap, mq, pipe, fifo,
  eventfd-bi, eventfd-uni, uintr-pro, tcp and domain it is proved that the loops of the two programs, as translated from the
  sources, follow an automaton each, and that the automata together with the object simulate the step
  relation of the benchmark (for the sockets, satisfy an invariant of their own).  So the theorems at the
  end of these theories are about every joint run of the programs themselves: none of them fails (on a
  socket only after a short or failed call, or by the UNIX-domain server's own test of what it sent), what
  the client takes for start times are the server's timestamps in order (with eventfd-uni, sums of
  consecutive ones), and the statistics are exactly those of these start times and the client's own clock
  readings.  For pipe and fifo the step relation also covers the start of the two processes; the order of
  blocking signals and opening the fifo is read off the calls of the translated programs.  For uintrfd,
  where both threads are interrupted in one address space, for signal and shm-sync, the step relation takes
  its steps in the order of the program text, and the connection is by reading.

  \<^bold>\<open>Bounds.\<close>  Integers have their width (\<open>u32\<close>, \<open>u64\<close>, \<open>c_int\<close>) wherever the code can wrap; counters of the
  step relations that the code keeps in an \<open>int\<close> counting down to zero are natural numbers.  Sizes that
  come from the platform (24 bytes for \<open>struct __kfifo\<close>, 88 for \<open>struct Sync\<close>) are those of x86-64 with
  glibc.

  \<^bold>\<open>Not modelled.\<close>  \<^verbatim>\<open>mq/flexible-array-test\<close> and \<^verbatim>\<open>other/semaphore-client.c\<close>, which do not compile;
  the Mach branch of \<open>now\<close>; memory orders weaker than sequential consistency.  The joint runs of the
  socket programs are those in blocking mode; busy waiting is covered for the receiving loop alone.  The ZeroMQ library, \<open>inet_ntop\<close> and the operating system are parameters.
\<close>

end
